(* ===== verification/Fex_Prelude.thy ===== *)
theory Fex_Prelude
  imports Main "HOL-Library.Word"
begin

text \<open>
  Shared vocabulary of the development: the machine word types of the C++ sources, the collections of
  rewrite rules the component proofs draw on, and the facts about casts and little-endian byte
  sequences that several components need.
\<close>

unbundle bit_operations_syntax

type_synonym u8 = "8 word"
type_synonym u16 = "16 word"
type_synonym u32 = "32 word"
type_synonym u64 = "64 word"

subsection \<open>Casts that keep the value\<close>

lemma scast_ucast_id:
  fixes d :: "'a::len word"
  assumes len: "LENGTH('b::len) \<le> LENGTH('a)"
    and lo: "- (2 ^ (LENGTH('b) - 1)) \<le> sint d"
    and hi: "sint d < 2 ^ (LENGTH('b) - 1)"
  shows "scast (ucast d :: 'b word) = d"
proof -
  have "sint (ucast d :: 'b word) = signed_take_bit (LENGTH('b) - 1) (uint d)"
    by (simp add: sint_uint unsigned_ucast_eq signed_take_bit_take_bit)
  also have "\<dots> = signed_take_bit (LENGTH('b) - 1) (sint d)"
    using len by (simp add: sint_uint signed_take_bit_signed_take_bit min_def diff_le_mono)
  also have "\<dots> = sint d"
    using lo hi by (simp add: signed_take_bit_int_eq_self)
  finally have "(word_of_int (sint (ucast d :: 'b word)) :: 'a word) = word_of_int (sint d)"
    by simp
  then show ?thesis
    by simp
qed

lemma unat_less_exp: "unat (w :: 'a::len word) < 2 ^ LENGTH('a)"
  by (rule unsigned_less)

lemma bit_less_exp:
  fixes w :: "'a::len word"
  assumes "unat w < 2 ^ k" and "bit w n"
  shows "n < k"
proof -
  have "take_bit k (unat w) = unat w" using assms(1) by (simp add: take_bit_nat_eq_self)
  moreover have "bit (unat w) n" using assms(2) by (simp add: bit_unsigned_iff)
  ultimately show ?thesis by (metis bit_take_bit_iff)
qed

lemma unat_ucast_mod:
  "unat (ucast (x :: 'a::len word) :: 'b::len word) = unat x mod 2 ^ LENGTH('b)"
  by (simp add: unsigned_ucast_eq flip: take_bit_eq_mod)

lemma ucast_ucast_small:
  "unat (x :: 'a::len word) < 2 ^ LENGTH('b::len) \<Longrightarrow> ucast (ucast x :: 'b word) = x"
  by (simp add: word_unat_eq_iff unat_ucast_mod)

subsection \<open>Little-endian byte sequences\<close>

text \<open>The bytes \<open>memcpy\<close> moves for an integer on the little-endian hosts the code supports.\<close>

definition le_bytes :: "nat \<Rightarrow> 'a::len word \<Rightarrow> u8 list" where
  "le_bytes n w = map (\<lambda>i. ucast (drop_bit (8 * i) w)) [0..<n]"

fun le_word :: "u8 list \<Rightarrow> 'a::len word" where
  "le_word [] = 0"
| "le_word (b # bs) = ucast b OR push_bit 8 (le_word bs)"

lemma bit_le_word:
  "bit (le_word bs :: 'a::len word) n \<longleftrightarrow>
     n < LENGTH('a) \<and> n div 8 < length bs \<and> bit (bs ! (n div 8)) (n mod 8)"
proof (induction bs arbitrary: n)
  case Nil
  then show ?case by simp
next
  case (Cons b bs)
  show ?case
  proof (cases "n < 8")
    case True
    then show ?thesis by (simp add: bit_or_iff bit_push_bit_iff bit_unsigned_iff)
  next
    case False
    define m where "m = n - 8"
    with False have m: "n = m + 8" by simp
    have "bit (le_word (b # bs) :: 'a word) n \<longleftrightarrow> n < LENGTH('a) \<and> bit (le_word bs :: 'a word) m"
      using False bit_imp_le_length [of b n]
      by (auto simp add: bit_or_iff bit_push_bit_iff bit_unsigned_iff m_def)
    also have "\<dots> \<longleftrightarrow> n < LENGTH('a) \<and> m div 8 < length bs \<and> bit (bs ! (m div 8)) (m mod 8)"
      by (auto simp: Cons.IH m)
    moreover have "(m + 8) div 8 = Suc (m div 8)"
      by presburger
    ultimately show ?thesis
      by (simp add: m)
  qed
qed

lemma le_word_le_bytes:
  fixes w :: "'a::len word"
  assumes "LENGTH('a) \<le> 8 * n"
  shows "le_word (le_bytes n w @ rest) = w"
proof (rule bit_word_eqI)
  fix i assume i: "i < LENGTH('a)"
  with assms have lt: "i div 8 < n" by auto
  have "8 * (i div 8) + i mod 8 = i"
    by simp
  then show "bit (le_word (le_bytes n w @ rest) :: 'a word) i = bit w i"
    using i lt by (simp add: bit_le_word le_bytes_def nth_append bit_unsigned_iff bit_drop_bit_eq)
qed

lemma length_le_bytes [simp]: "length (le_bytes n w) = n"
  by (simp add: le_bytes_def)

lemma le_word_bytes_id [simp]:
  "LENGTH('a) \<le> 8 * n \<Longrightarrow> (le_word (le_bytes n (w :: 'a::len word)) :: 'a word) = w"
  using le_word_le_bytes [of n w "[]"] by simp

subsection \<open>Word comparisons and lists\<close>

lemma word_add_le_iff:
  fixes b :: "'a::len word"
  assumes "unat b + unat h < 2 ^ LENGTH('a)" and "b \<le> pc"
  shows "b + h \<le> pc \<longleftrightarrow> h \<le> pc - b"
  using assms by (auto simp: word_le_nat_alt unat_plus_if' unat_sub)

lemma find_unique:
  assumes "x \<in> set xs" and "\<forall>y \<in> set xs. P y \<longrightarrow> y = x"
  shows "find P xs = (if P x then Some x else None)"
  using assms by (induction xs) (auto simp: find_None_iff)

lemma drop_length_append: "drop (length xs) (xs @ ys) = ys"
  by simp

subsection \<open>Bit counting (\<open>std::popcount\<close>, \<open>std::countr_zero\<close>, \<open>std::countl_zero\<close>)\<close>

definition popcount :: "'a::len word \<Rightarrow> nat" where
  "popcount w = length (filter (bit w) [0..<LENGTH('a)])"

definition countr_zero :: "'a::len word \<Rightarrow> nat" where
  "countr_zero w = length (takeWhile (\<lambda>i. \<not> bit w i) [0..<LENGTH('a)])"

definition countl_zero :: "'a::len word \<Rightarrow> nat" where
  "countl_zero w = length (takeWhile (\<lambda>i. \<not> bit w i) (rev [0..<LENGTH('a)]))"

end
