(* ===== verification/Vl_Codec.thy ===== *)
theory Vl_Codec
  imports Fex_Prelude
begin

text \<open>
  The variable-length integer codecs of \<open>FEXCore/Source/Utils/variable_length_integer.h\<close>.  The bit
  fields of the C++ structs are words of the field's width (\<open>word_cat\<close> places them as the compiler
  does), the destination buffer is the list of bytes written, and the source buffer is the list of
  bytes from the read position on: reading past its end is \<open>None\<close>.  Signed integers are carried as
  64-bit words and compared through \<^const>\<open>sint\<close>.

  The locale \<open>vl_codec\<close> is the contract a client relies on (decoding undoes encoding whatever bytes
  follow, and reports the bytes consumed); from it follow unique decodability and the decoding of a
  whole table, and both codecs are interpretations of it.
\<close>

subsection \<open>The contract of a self-delimiting codec\<close>

fun decode_stream :: "(u8 list \<Rightarrow> ('a \<times> nat) option) \<Rightarrow> nat \<Rightarrow> u8 list \<Rightarrow> ('a list \<times> u8 list) option" where
  "decode_stream dec 0 bs = Some ([], bs)"
| "decode_stream dec (Suc n) bs =
     (case dec bs of None \<Rightarrow> None
      | Some (x, k) \<Rightarrow>
          (case decode_stream dec n (drop k bs) of None \<Rightarrow> None
           | Some (xs, rest) \<Rightarrow> Some (x # xs, rest)))"

locale vl_codec =
  fixes enc :: "'a \<Rightarrow> u8 list" and dec :: "u8 list \<Rightarrow> ('a \<times> nat) option"
  assumes dec_enc: "dec (enc x @ rest) = Some (x, length (enc x))"
begin

lemma prefix_free:
  assumes "enc x @ r = enc y @ s"
  shows "x = y \<and> r = s"
proof -
  from assms have "dec (enc x @ r) = dec (enc y @ s)" by simp
  then have "x = y" by (simp add: dec_enc)
  with assms show ?thesis by simp
qed

lemma inj_concat_enc:
  assumes "length xs = length ys" and "concat (map enc xs) @ r = concat (map enc ys) @ s"
  shows "xs = ys \<and> r = s"
  using assms
proof (induction xs ys rule: list_induct2)
  case (Cons x xs y ys)
  then show ?case using prefix_free [of x _ y] by fastforce
qed simp

lemma decode_concat:
  "decode_stream dec (length xs) (concat (map enc xs) @ rest) = Some (xs, rest)"
  by (induction xs) (simp_all add: dec_enc)

end

subsection \<open>vl64: one signed integer\<close>

type_synonym vl64_decoded = "u64 \<times> nat"

definition vl8_min :: int where "vl8_min = drop_bit (64 - 7) (- (2 ^ 63))"
definition vl8_max :: int where "vl8_max = drop_bit (64 - 7) (2 ^ 63 - 1)"
definition vl16_min :: int where "vl16_min = drop_bit (64 - 14) (- (2 ^ 63))"
definition vl16_max :: int where "vl16_max = drop_bit (64 - 14) (2 ^ 63 - 1)"
definition vl32_min :: int where "vl32_min = - (2 ^ 31)"
definition vl32_max :: int where "vl32_max = 2 ^ 31 - 1"

definition vl8_type_header :: "1 word" where "vl8_type_header = 0"
definition vl16_type_header :: "2 word" where "vl16_type_header = 2"
definition vl32_type_header :: u8 where "vl32_type_header = 0xC0"
definition vl64_type_header :: u8 where "vl64_type_header = 0xE0"

lemmas vl_ranges = vl8_min_def vl8_max_def vl16_min_def vl16_max_def vl32_min_def vl32_max_def
lemmas vl_headers = vl8_type_header_def vl16_type_header_def vl32_type_header_def vl64_type_header_def

definition vl8_enc :: "7 word \<Rightarrow> 1 word \<Rightarrow> u8" where
  "vl8_enc Integer Type = word_cat Type Integer"

definition vl8_Integer :: "u8 \<Rightarrow> 7 word" where
  "vl8_Integer b = ucast b"

definition vl8_Type :: "u8 \<Rightarrow> 1 word" where
  "vl8_Type b = ucast (drop_bit 7 b)"

definition vl16_high :: "6 word \<Rightarrow> 2 word \<Rightarrow> u8" where
  "vl16_high Top Type = word_cat Type Top"

definition vl16_Top :: "u8 \<Rightarrow> 6 word" where
  "vl16_Top b = ucast b"

definition vl16_Type :: "u8 \<Rightarrow> 2 word" where
  "vl16_Type b = ucast (drop_bit 6 b)"

definition vl16_Integer :: "u8 \<Rightarrow> u8 \<Rightarrow> u64" where
  "vl16_Integer HighBits LowBits =
     (let Value = (0 :: u16) OR ucast (push_bit 8 (scast (vl16_Top HighBits) :: u32));
          Value = Value OR ucast LowBits
      in scast (signed_drop_bit 2 (push_bit 2 (scast Value :: u32))))"

definition vl64_EncodedSize :: "u64 \<Rightarrow> nat" where
  "vl64_EncodedSize Data =
     (if vl8_min \<le> sint Data \<and> sint Data \<le> vl8_max then 1
      else if vl16_min \<le> sint Data \<and> sint Data \<le> vl16_max then 2
      else if vl32_min \<le> sint Data \<and> sint Data \<le> vl32_max then 5
      else 9)"

definition vl64_Encode :: "u64 \<Rightarrow> u8 list" where
  "vl64_Encode Data =
     (if vl8_min \<le> sint Data \<and> sint Data \<le> vl8_max then
        [vl8_enc (ucast (ucast Data :: u8)) vl8_type_header]
      else if vl16_min \<le> sint Data \<and> sint Data \<le> vl16_max then
        [vl16_high (ucast (ucast (signed_drop_bit 8 Data AND 0xFF) :: u8)) vl16_type_header,
         ucast (Data AND 0xFF)]
      else if vl32_min \<le> sint Data \<and> sint Data \<le> vl32_max then
        vl32_type_header # le_bytes 4 (ucast Data :: u32)
      else vl64_type_header # le_bytes 8 Data)"

definition vl64_Decode :: "u8 list \<Rightarrow> vl64_decoded option" where
  "vl64_Decode data =
     (case data of [] \<Rightarrow> None
      | b # bs \<Rightarrow>
          if vl8_Type b = vl8_type_header then Some (scast (vl8_Integer b), 1)
          else if vl16_Type b = vl16_type_header then
            (case bs of [] \<Rightarrow> None | l # _ \<Rightarrow> Some (vl16_Integer b l, 2))
          else if b = vl32_type_header then
            (if length bs < 4 then None else Some (scast (le_word (take 4 bs) :: u32), 5))
          else
            (if length bs < 8 then None else Some (le_word (take 8 bs), 9)))"

lemma vl8_fields [simp]:
  "vl8_Type (vl8_enc i t) = t" "vl8_Integer (vl8_enc i t) = i"
  by (auto intro!: bit_word_eqI simp: vl8_Type_def vl8_Integer_def vl8_enc_def bit_simps)

lemma vl16_fields [simp]:
  "vl16_Type (vl16_high i t) = t" "vl16_Top (vl16_high i t) = i"
  by (auto intro!: bit_word_eqI simp: vl16_Type_def vl16_Top_def vl16_high_def bit_simps)

lemma length_vl64_Encode: "length (vl64_Encode d) = vl64_EncodedSize d"
  by (simp add: vl64_Encode_def vl64_EncodedSize_def)

lemma vl16_high_not_vl8: "vl8_Type (vl16_high i vl16_type_header) \<noteq> vl8_type_header"
proof -
  have "bit (vl8_Type (vl16_high i vl16_type_header)) 0"
    by (simp add: vl8_Type_def vl16_high_def vl16_type_header_def bit_simps)
  then show ?thesis
    by (auto simp: vl8_type_header_def)
qed

lemma vl_wide_headers:
  "vl8_Type vl32_type_header \<noteq> vl8_type_header" "vl8_Type vl64_type_header \<noteq> vl8_type_header"
  "vl16_Type vl32_type_header \<noteq> vl16_type_header" "vl16_Type vl64_type_header \<noteq> vl16_type_header"
  "vl64_type_header \<noteq> vl32_type_header"
  by (simp_all add: vl8_Type_def vl16_Type_def vl_headers)

lemma vl16_Integer_scast:
  fixes x :: "14 word"
  shows "vl16_Integer (vl16_high (ucast (ucast (signed_drop_bit 8 (scast x :: u64) AND 0xFF) :: u8)) t)
           (ucast ((scast x :: u64) AND 0xFF)) = scast x"
proof (rule bit_word_eqI)
  have m: "(0xFF :: u64) = mask 8" by (simp add: mask_eq_exp_minus_1)
  fix n assume "n < LENGTH(64)"
  then consider "n < 8" | "8 \<le> n" "n < 14" | "14 \<le> n" "n < 64" by fastforce
  then show "bit (vl16_Integer (vl16_high (ucast (ucast (signed_drop_bit 8 (scast x :: u64) AND 0xFF) :: u8)) t)
           (ucast ((scast x :: u64) AND 0xFF))) n = bit (scast x :: u64) n"
    by cases (auto simp add: vl16_Integer_def Let_def bit_simps m min_def not_le not_less)
qed

lemma vl16_Integer_id:
  assumes "- (2 ^ 13) \<le> sint d" and "sint d < 2 ^ 13"
  shows "vl16_Integer (vl16_high (ucast (ucast (signed_drop_bit 8 d AND 0xFF) :: u8)) t)
           (ucast (d AND 0xFF)) = d"
proof -
  have "scast (ucast d :: 14 word) = d"
    using assms by (intro scast_ucast_id) simp_all
  then show ?thesis
    using vl16_Integer_scast [of "ucast d :: 14 word" t] by simp
qed

lemma vl8_id:
  assumes "- (2 ^ 6) \<le> sint d" and "sint d < 2 ^ 6"
  shows "scast (ucast (ucast (d :: u64) :: u8) :: 7 word) = d"
proof -
  have "(ucast (ucast d :: u8) :: 7 word) = ucast d"
    by (rule bit_word_eqI) (simp add: bit_simps)
  moreover have "scast (ucast d :: 7 word) = d"
    using assms by (intro scast_ucast_id) simp_all
  ultimately show ?thesis by simp
qed

lemma vl64_Decode_Encode:
  "vl64_Decode (vl64_Encode d @ rest) = Some (d, vl64_EncodedSize d)"
proof -
  consider (v8) "vl8_min \<le> sint d \<and> sint d \<le> vl8_max"
    | (v16) "\<not> (vl8_min \<le> sint d \<and> sint d \<le> vl8_max)" "vl16_min \<le> sint d \<and> sint d \<le> vl16_max"
    | (v32) "\<not> (vl8_min \<le> sint d \<and> sint d \<le> vl8_max)" "\<not> (vl16_min \<le> sint d \<and> sint d \<le> vl16_max)"
        "vl32_min \<le> sint d \<and> sint d \<le> vl32_max"
    | (v64) "\<not> (vl8_min \<le> sint d \<and> sint d \<le> vl8_max)" "\<not> (vl16_min \<le> sint d \<and> sint d \<le> vl16_max)"
        "\<not> (vl32_min \<le> sint d \<and> sint d \<le> vl32_max)"
    by blast
  then show ?thesis
  proof cases
    case v8
    then have "scast (ucast (ucast d :: u8) :: 7 word) = d"
      by (intro vl8_id) (simp_all add: vl_ranges)
    with v8 show ?thesis
      by (simp add: vl64_Decode_def vl64_Encode_def vl64_EncodedSize_def)
  next
    case v16
    from v16(2) have "vl16_Integer (vl16_high (ucast (ucast (signed_drop_bit 8 d AND 0xFF) :: u8))
        vl16_type_header) (ucast (d AND 0xFF)) = d"
      by (intro vl16_Integer_id) (simp_all add: vl_ranges)
    with v16 show ?thesis
      by (auto simp add: vl64_Decode_def vl64_Encode_def vl64_EncodedSize_def vl16_high_not_vl8)
  next
    case v32
    then have "scast (ucast d :: u32) = d"
      by (intro scast_ucast_id) (simp_all add: vl_ranges)
    with v32 le_word_le_bytes [of 4 "ucast d :: u32" "[]"] show ?thesis
      by (auto simp add: vl64_Decode_def vl64_Encode_def vl64_EncodedSize_def vl_wide_headers)
  next
    case v64
    with le_word_le_bytes [of 8 d "[]"] show ?thesis
      by (auto simp add: vl64_Decode_def vl64_Encode_def vl64_EncodedSize_def vl_wide_headers)
  qed
qed


subsection \<open>vl64pair: a host offset and a guest RIP offset\<close>

record vl64pair_decoded =
  IntegerARMPC :: u64
  IntegerX86RIP :: u64
  DecodedSize :: nat

definition vl8pair_enc :: "4 word \<Rightarrow> 3 word \<Rightarrow> 1 word \<Rightarrow> u8" where
  "vl8pair_enc arm rip type = word_cat type (word_cat rip arm :: 7 word)"

definition vl8pair_arm :: "u8 \<Rightarrow> 4 word" where
  "vl8pair_arm b = ucast b"

definition vl8pair_rip :: "u8 \<Rightarrow> 3 word" where
  "vl8pair_rip b = ucast (drop_bit 4 b)"

definition vl8_arm_min :: int where "vl8_arm_min = 1"
definition vl8_arm_max :: int where "vl8_arm_max = 16"
definition vl8_arm_align_bits :: nat where "vl8_arm_align_bits = 2"
definition vl8_arm_shift_mask :: u64 where "vl8_arm_shift_mask = push_bit vl8_arm_align_bits 1 - 1"
definition vl8_pc_min :: u64 where "vl8_pc_min = 1"
definition vl8_pc_max :: u64 where "vl8_pc_max = 8"

definition can_encode_vl8 :: "u64 \<Rightarrow> u64 \<Rightarrow> bool" where
  "can_encode_vl8 data_arm data_rip =
     (if data_rip < vl8_pc_min \<or> vl8_pc_max < data_rip then False
      else if data_arm AND vl8_arm_shift_mask \<noteq> 0 then False
      else
        let ShiftedHostPC = sint (drop_bit vl8_arm_align_bits data_arm)
        in \<not> (ShiftedHostPC < vl8_arm_min \<or> vl8_arm_max < ShiftedHostPC))"

definition vl16_arm_min :: int where "vl16_arm_min = - 128"
definition vl16_arm_max :: int where "vl16_arm_max = 127"
definition vl16_arm_align_bits :: nat where "vl16_arm_align_bits = 2"
definition vl16_arm_shift_mask :: u64 where "vl16_arm_shift_mask = push_bit vl16_arm_align_bits 1 - 1"
definition vl16_pc_min :: int where "vl16_pc_min = - 32"
definition vl16_pc_max :: int where "vl16_pc_max = 31"

definition can_encode_vl16 :: "u64 \<Rightarrow> u64 \<Rightarrow> bool" where
  "can_encode_vl16 data_arm data_rip =
     (if sint data_rip < vl16_pc_min \<or> vl16_pc_max < sint data_rip then False
      else if data_arm AND vl16_arm_shift_mask \<noteq> 0 then False
      else
        let ShiftedHostPC = sint (signed_drop_bit vl16_arm_align_bits data_arm)
        in \<not> (ShiftedHostPC < vl16_arm_min \<or> vl16_arm_max < ShiftedHostPC))"

definition can_encode_vl32 :: "u64 \<Rightarrow> u64 \<Rightarrow> bool" where
  "can_encode_vl32 data_arm data_rip =
     (if sint data_rip < vl32_min \<or> vl32_max < sint data_rip then False
      else if sint data_arm < vl32_min \<or> vl32_max < sint data_arm then False
      else True)"

definition vl64pair_EncodedSize :: "u64 \<Rightarrow> u64 \<Rightarrow> nat" where
  "vl64pair_EncodedSize data_arm data_rip =
     (if can_encode_vl8 data_arm data_rip then 1
      else if can_encode_vl16 data_arm data_rip then 2
      else if can_encode_vl32 data_arm data_rip then 9
      else 17)"

definition vl64pair_Encode :: "u64 \<Rightarrow> u64 \<Rightarrow> u8 list" where
  "vl64pair_Encode data_arm data_rip =
     (if can_encode_vl8 data_arm data_rip then
        [vl8pair_enc (ucast (ucast (drop_bit vl8_arm_align_bits (data_arm - 1)) :: u8))
           (ucast (ucast (data_rip - 1) :: u8)) vl8_type_header]
      else if can_encode_vl16 data_arm data_rip then
        [vl16_high (ucast (ucast data_rip :: u8)) vl16_type_header,
         ucast (signed_drop_bit vl8_arm_align_bits data_arm)]
      else if can_encode_vl32 data_arm data_rip then
        vl32_type_header # le_bytes 4 (ucast data_arm :: u32) @ le_bytes 4 (ucast data_rip :: u32)
      else vl64_type_header # le_bytes 8 data_arm @ le_bytes 8 data_rip)"

definition decode_vl8 :: "u8 \<Rightarrow> vl64pair_decoded" where
  "decode_vl8 enc =
     (let data_arm = ucast (vl8pair_arm enc); data_rip = ucast (vl8pair_rip enc)
      in \<lparr>IntegerARMPC = push_bit vl8_arm_align_bits (data_arm + 1), IntegerX86RIP = data_rip + 1, DecodedSize = 1\<rparr>)"

definition decode_vl16 :: "u8 \<Rightarrow> u8 \<Rightarrow> vl64pair_decoded" where
  "decode_vl16 high arm =
     (let arm_pc = scast (push_bit vl8_arm_align_bits (scast arm :: u32));
          x86_rip = scast (vl16_Top high)
      in \<lparr>IntegerARMPC = arm_pc, IntegerX86RIP = x86_rip, DecodedSize = 2\<rparr>)"

definition decode_vl32 :: "u32 \<Rightarrow> u32 \<Rightarrow> vl64pair_decoded" where
  "decode_vl32 arm rip = \<lparr>IntegerARMPC = scast arm, IntegerX86RIP = scast rip, DecodedSize = 9\<rparr>"

definition vl64pair_Decode :: "u8 list \<Rightarrow> vl64pair_decoded option" where
  "vl64pair_Decode data =
     (case data of [] \<Rightarrow> None
      | b # bs \<Rightarrow>
          if vl8_Type b = vl8_type_header then Some (decode_vl8 b)
          else if vl16_Type b = vl16_type_header then
            (case bs of [] \<Rightarrow> None | a # _ \<Rightarrow> Some (decode_vl16 b a))
          else if b = vl32_type_header then
            (if length bs < 8 then None
             else Some (decode_vl32 (le_word (take 4 bs)) (le_word (take 4 (drop 4 bs)))))
          else
            (if length bs < 16 then None
             else Some \<lparr>IntegerARMPC = le_word (take 8 bs), IntegerX86RIP = le_word (take 8 (drop 8 bs)),
                        DecodedSize = 17\<rparr>))"

lemmas vlpair_consts = vl8_arm_min_def vl8_arm_max_def vl8_arm_align_bits_def vl8_arm_shift_mask_def
  vl8_pc_min_def vl8_pc_max_def vl16_arm_min_def vl16_arm_max_def vl16_arm_align_bits_def
  vl16_arm_shift_mask_def vl16_pc_min_def vl16_pc_max_def

lemma vl8pair_fields [simp]:
  "vl8_Type (vl8pair_enc a r t) = t" "vl8pair_arm (vl8pair_enc a r t) = a"
  "vl8pair_rip (vl8pair_enc a r t) = r"
  by (auto intro!: bit_word_eqI
      simp: vl8_Type_def vl8pair_arm_def vl8pair_rip_def vl8pair_enc_def bit_simps)

lemma length_vl64pair_Encode: "length (vl64pair_Encode a r) = vl64pair_EncodedSize a r"
  by (simp add: vl64pair_Encode_def vl64pair_EncodedSize_def)

lemma push_drop_aligned:
  assumes "a AND 3 = (0 :: u64)"
  shows "push_bit 2 (drop_bit 2 a) = a"
proof -
  have "a AND 3 = take_bit 2 a"
    by (simp add: take_bit_eq_mask mask_eq_exp_minus_1)
  with assms have "take_bit 2 a = 0" by simp
  moreover have "push_bit 2 (drop_bit 2 a) + take_bit 2 a = a"
    by (rule bits_ident)
  ultimately show ?thesis by simp
qed

lemma vl8pair_arm_id:
  assumes "a AND 3 = (0 :: u64)" and "1 \<le> sint (drop_bit 2 a)" and "sint (drop_bit 2 a) \<le> 16"
  shows "push_bit 2 (ucast (ucast (ucast (drop_bit 2 (a - 1)) :: u8) :: 4 word) + 1) = a"
proof -
  define n where "n = nat (sint (drop_bit 2 a))"
  have n: "1 \<le> n" "n \<le> 16" using assms(2,3) by (simp_all add: n_def)
  have "drop_bit 2 a = word_of_nat n"
    using assms(2) by (simp add: n_def)
  then have a: "a = word_of_nat (4 * n)"
    using push_drop_aligned [OF assms(1)] by (simp add: push_bit_eq_mult mult.commute)
  have d: "unat (drop_bit 2 (a - 1)) = n - 1"
  proof -
    have "a - 1 = word_of_nat (4 * n - 1)" using a n by (simp add: of_nat_diff)
    then have "unat (a - 1) = (4 * n - 1) mod 2 ^ 64" by (simp only: unat_of_nat) simp
    then have "unat (a - 1) = 4 * n - 1" using n by simp
    then have "unat (drop_bit 2 (a - 1)) = (4 * n - 1) div 4"
      by (simp only: unat_drop_bit_eq) (simp add: drop_bit_eq_div)
    with n show ?thesis by presburger
  qed
  have "unat (ucast (ucast (ucast (drop_bit 2 (a - 1)) :: u8) :: 4 word) :: u64) = n - 1"
    using n by (simp add: unat_ucast_mod d)
  then have "(ucast (ucast (ucast (drop_bit 2 (a - 1)) :: u8) :: 4 word) :: u64) = word_of_nat (n - 1)"
    by (metis of_nat_unat ucast_id)
  then show ?thesis
    using n by (simp add: a push_bit_eq_mult of_nat_diff)
qed

lemma vl8pair_rip_id:
  assumes "r \<noteq> 0" and "r \<le> (8 :: u64)"
  shows "ucast (ucast (ucast (r - 1) :: u8) :: 3 word) + 1 = r"
proof -
  have "unat (r - 1) = unat r - 1" "unat r \<le> 8" "1 \<le> unat r"
    using assms by (simp_all add: unat_minus_one word_le_nat_alt unat_gt_0 Suc_le_eq)
  then have "(ucast (ucast (ucast (r - 1) :: u8) :: 3 word) :: u64) = r - 1"
    by (simp add: word_unat_eq_iff unat_ucast_mod)
  then show ?thesis by simp
qed

lemma vl16pair_rip_id:
  assumes "- 32 \<le> sint r" and "sint r \<le> 31"
  shows "scast (ucast (ucast (r::u64) :: u8) :: 6 word) = r"
proof -
  have "(ucast (ucast r :: u8) :: 6 word) = ucast r"
    by (rule bit_word_eqI) (simp add: bit_simps)
  moreover have "scast (ucast r :: 6 word) = r"
    using assms by (intro scast_ucast_id) simp_all
  ultimately show ?thesis by simp
qed

lemma scast_push_bit_scast:
  "(scast (push_bit 2 (scast (x :: u8) :: u32)) :: u64) = push_bit 2 (scast x)"
  by (rule bit_word_eqI) (auto simp: bit_simps min_def not_less not_le)

lemma vl16pair_arm_id:
  assumes "a AND 3 = (0 :: u64)" and "- 128 \<le> sint (signed_drop_bit 2 a)" and "sint (signed_drop_bit 2 a) \<le> 127"
  shows "scast (push_bit 2 (scast (ucast (signed_drop_bit 2 a) :: u8) :: u32)) = a"
proof -
  have "scast (ucast (signed_drop_bit 2 a) :: u8) = signed_drop_bit 2 a"
    using assms by (intro scast_ucast_id) simp_all
  moreover have "push_bit 2 (signed_drop_bit 2 a) = push_bit 2 (drop_bit 2 a)"
    by (rule bit_word_eqI) (auto simp: bit_simps not_less not_le)
  ultimately show ?thesis
    by (simp add: scast_push_bit_scast push_drop_aligned [OF assms(1)])
qed

lemma vl64pair_Decode_Encode:
  "vl64pair_Decode (vl64pair_Encode a r @ rest) =
     Some \<lparr>IntegerARMPC = a, IntegerX86RIP = r, DecodedSize = vl64pair_EncodedSize a r\<rparr>"
proof -
  consider (v8) "can_encode_vl8 a r" | (v16) "\<not> can_encode_vl8 a r" "can_encode_vl16 a r"
    | (v32) "\<not> can_encode_vl8 a r" "\<not> can_encode_vl16 a r" "can_encode_vl32 a r"
    | (v64) "\<not> can_encode_vl8 a r" "\<not> can_encode_vl16 a r" "\<not> can_encode_vl32 a r"
    by blast
  then show ?thesis
  proof cases
    case v8
    then have "r \<noteq> 0" "r \<le> 8" "a AND 3 = 0" "1 \<le> sint (drop_bit 2 a)" "sint (drop_bit 2 a) \<le> 16"
      by (auto simp: can_encode_vl8_def vlpair_consts Let_def not_less split: if_splits)
    then have "push_bit 2 (ucast (ucast (ucast (drop_bit 2 (a - 1)) :: u8) :: 4 word) + 1) = a"
      and "ucast (ucast (ucast (r - 1) :: u8) :: 3 word) + 1 = r"
      by (auto intro: vl8pair_arm_id vl8pair_rip_id)
    with v8 show ?thesis
      by (simp add: vl64pair_Encode_def vl64pair_Decode_def vl64pair_EncodedSize_def decode_vl8_def
          Let_def vl8_arm_align_bits_def)
  next
    case v16
    then have "- 32 \<le> sint r" "sint r \<le> 31" "a AND 3 = 0" "- 128 \<le> sint (signed_drop_bit 2 a)"
        "sint (signed_drop_bit 2 a) \<le> 127"
      by (auto simp: can_encode_vl16_def vlpair_consts Let_def not_less split: if_splits)
    then have "scast (push_bit 2 (scast (ucast (signed_drop_bit 2 a) :: u8) :: u32)) = a"
      and "scast (ucast (ucast r :: u8) :: 6 word) = r"
      by (simp_all only: vl16pair_arm_id vl16pair_rip_id)
    with v16 show ?thesis
      by (simp add: vl64pair_Encode_def vl64pair_Decode_def vl64pair_EncodedSize_def decode_vl16_def
          Let_def vl8_arm_align_bits_def vl16_high_not_vl8)
  next
    case v32
    then have "scast (ucast a :: u32) = a" "scast (ucast r :: u32) = r"
      by (auto intro!: scast_ucast_id simp: can_encode_vl32_def vl_ranges not_less split: if_splits)
    with v32 le_word_le_bytes [of 4 "ucast a :: u32" "[]"] le_word_le_bytes [of 4 "ucast r :: u32" "[]"]
    show ?thesis
      by (simp add: vl64pair_Encode_def vl64pair_Decode_def vl64pair_EncodedSize_def decode_vl32_def
          vl_wide_headers)
  next
    case v64
    with le_word_le_bytes [of 8 a "[]"] le_word_le_bytes [of 8 r "[]"] show ?thesis
      by (simp add: vl64pair_Encode_def vl64pair_Decode_def vl64pair_EncodedSize_def vl_wide_headers)
  qed
qed

subsection \<open>Both codecs meet the contract\<close>

definition vl64pair_dec :: "u8 list \<Rightarrow> ((u64 \<times> u64) \<times> nat) option" where
  "vl64pair_dec bs =
     map_option (\<lambda>d. ((IntegerARMPC d, IntegerX86RIP d), DecodedSize d)) (vl64pair_Decode bs)"

interpretation vl: vl_codec vl64_Encode vl64_Decode
  by unfold_locales (simp add: vl64_Decode_Encode length_vl64_Encode)

interpretation vlpair: vl_codec "case_prod vl64pair_Encode" vl64pair_dec
  by unfold_locales (auto simp: vl64pair_dec_def vl64pair_Decode_Encode length_vl64pair_Encode)

text \<open>
  C9: a sequence of 64-bit integers written one after another by \<open>vl64::Encode\<close> is read back by the
  same number of calls of \<open>vl64::Decode\<close>, each advancing by the size it reports, and the read position
  ends exactly where the writer stopped, whatever bytes follow.
\<close>

theorem vl64_stream_roundtrip:
  "decode_stream vl64_Decode (length xs) (concat (map vl64_Encode xs) @ rest) = Some (xs, rest)"
  by (rule vl.decode_concat)

text \<open>
  C10: decoding a table of encoded pairs gives back its entries.  Reading as many records as were written, each
  with \<open>vl64pair_Decode\<close> and advancing by the size it reports, returns the host and guest offsets of every
  entry in order and stops exactly where the writer stopped, whatever bytes follow.
\<close>

theorem vl64pair_stream_roundtrip:
  "decode_stream (\<lambda>bs. map_option (\<lambda>d. ((IntegerARMPC d, IntegerX86RIP d), DecodedSize d)) (vl64pair_Decode bs))
     (length xs) (concat (map (\<lambda>(data_arm, data_rip). vl64pair_Encode data_arm data_rip) xs) @ rest) = Some (xs, rest)"
  using vlpair.decode_concat [of xs rest] by (simp add: vl64pair_dec_def [abs_def])

text \<open>
  C11: both encoders write exactly the number of bytes their \<open>EncodedSize\<close> announces, which is one of the
  four record sizes; a caller that reserves 9 (respectively 17) bytes is never overrun.
\<close>

theorem vl_sizes:
  "length (vl64_Encode d) = vl64_EncodedSize d \<and> vl64_EncodedSize d \<in> {1, 2, 5, 9} \<and>
   length (vl64pair_Encode a r) = vl64pair_EncodedSize a r \<and> vl64pair_EncodedSize a r \<in> {1, 2, 9, 17}"
  by (auto simp: length_vl64_Encode length_vl64pair_Encode vl64_EncodedSize_def vl64pair_EncodedSize_def)

end
