(* ===== verification/Jit_Blocks.thy ===== *)
theory Jit_Blocks
  imports Vl_Codec
begin

text \<open>
  Compiled blocks in a JIT code buffer and the way back from a host program counter to the guest RIP.

  \<^item> The layout of a block (\<open>JITCodeHeader\<close>, \<open>JITCodeTail\<close> of \<open>CPUBackend.h\<close>) and the end of
    \<open>CompileCode\<close> that writes the tail and the per-instruction RIP table (\<open>JIT.cpp\<close>).
  \<^item> The per-buffer block index (\<open>CodeBuffer::AppendBlock\<close>, \<open>FindBlockHeader\<close>,
    \<open>RebuildBlockIndexByWalk\<close> of \<open>CPUBackend.cpp\<close>).
  \<^item> \<open>WalkBlockRIPTable\<close> and \<open>RestoreRIPFromHostPC\<close> of \<open>Core.cpp\<close>.

  The buffer is the list of its bytes from \<open>Ptr\<close> on; a read or a write outside it is an error value.
  Offsets inside the buffer are natural numbers except where the code truncates them to 32 bits.
  Atomic orderings and the lock of the single writer are not modelled.
\<close>

subsection \<open>Block layout\<close>

record JITCodeHeader =
  OffsetToBlockTail :: u32

record JITCodeTail =
  TailSize :: u64
  TailRIP :: u64
  GuestSize :: u64
  NumberOfRIPEntries :: u32
  OffsetToRIPEntries :: u32
  SpinLockFutex :: u32
  SingleInst :: bool

record DebugDataGuestOpcode =
  GuestEntryOffset :: u64
  HostEntryOffset :: u64

definition sizeof_JITCodeHeader :: nat where "sizeof_JITCodeHeader = 4"
definition sizeof_JITCodeTail :: nat where "sizeof_JITCodeTail = 40"

definition header_bytes :: "JITCodeHeader \<Rightarrow> u8 list" where
  "header_bytes h = le_bytes 4 (OffsetToBlockTail h)"

definition tail_bytes :: "JITCodeTail \<Rightarrow> u8 list" where
  "tail_bytes t = le_bytes 8 (TailSize t) @ le_bytes 8 (TailRIP t) @ le_bytes 8 (GuestSize t) @
     le_bytes 4 (NumberOfRIPEntries t) @ le_bytes 4 (OffsetToRIPEntries t) @ le_bytes 4 (SpinLockFutex t) @
     (if SingleInst t then 1 else 0) # replicate 3 0"

definition read_header :: "u8 list \<Rightarrow> nat \<Rightarrow> JITCodeHeader option" where
  "read_header mem off =
     (if length mem < off + sizeof_JITCodeHeader then None
      else Some \<lparr>OffsetToBlockTail = le_word (take 4 (drop off mem))\<rparr>)"

definition read_tail :: "u8 list \<Rightarrow> nat \<Rightarrow> JITCodeTail option" where
  "read_tail mem off =
     (if length mem < off + sizeof_JITCodeTail then None
      else
        let t = drop off mem
        in Some \<lparr>TailSize = le_word (take 8 t), TailRIP = le_word (take 8 (drop 8 t)),
                 GuestSize = le_word (take 8 (drop 16 t)), NumberOfRIPEntries = le_word (take 4 (drop 24 t)),
                 OffsetToRIPEntries = le_word (take 4 (drop 28 t)),
                 SpinLockFutex = le_word (take 4 (drop 32 t)), SingleInst = (t ! 36 \<noteq> 0)\<rparr>)"

subsection \<open>The RIP table\<close>

fun EncodeRIPEntries :: "u64 \<Rightarrow> u64 \<Rightarrow> DebugDataGuestOpcode list \<Rightarrow> u8 list option" where
  "EncodeRIPEntries PrevPCOffset PrevRIPOffset [] = Some []"
| "EncodeRIPEntries PrevPCOffset PrevRIPOffset (GuestOpcode # Rest) =
     (if HostEntryOffset GuestOpcode < PrevPCOffset then None
      else
        let HostDelta = HostEntryOffset GuestOpcode - PrevPCOffset;
            GuestDelta = GuestEntryOffset GuestOpcode - PrevRIPOffset
        in map_option (\<lambda>bs. vl64pair_Encode HostDelta GuestDelta @ bs)
             (EncodeRIPEntries (HostEntryOffset GuestOpcode) (GuestEntryOffset GuestOpcode) Rest))"

fun WalkRIPEntries :: "nat \<Rightarrow> u8 list \<Rightarrow> u64 \<Rightarrow> u64 \<Rightarrow> u64 \<Rightarrow> u64 option" where
  "WalkRIPEntries 0 RIPEntry HostPC StartingHostPC StartingGuestRIP = Some StartingGuestRIP"
| "WalkRIPEntries (Suc n) RIPEntry HostPC StartingHostPC StartingGuestRIP =
     (case vl64pair_Decode RIPEntry of None \<Rightarrow> None
      | Some Offset \<Rightarrow>
          if StartingHostPC + IntegerARMPC Offset \<le> HostPC then
            WalkRIPEntries n (drop (DecodedSize Offset) RIPEntry) HostPC
              (StartingHostPC + IntegerARMPC Offset) (StartingGuestRIP + IntegerX86RIP Offset)
          else Some StartingGuestRIP)"

subsection \<open>The code buffer and its block index\<close>

record CodeBuffer =
  Ptr :: u64
  Mem :: "u8 list"
  AllocatedSize :: nat
  HostPageSize :: nat
  BlockOffsets :: "u32 list"
  BlockCapacity :: nat

datatype block_error = IndexWentBackwards | IndexOverflow | BufferOverrun | OpcodesNotAscending

definition MinimumBlockSize :: nat where "MinimumBlockSize = 64"

definition UsableSize :: "CodeBuffer \<Rightarrow> nat" where
  "UsableSize cb = AllocatedSize cb - HostPageSize cb"

definition AppendBlock :: "CodeBuffer \<Rightarrow> u32 \<Rightarrow> block_error + CodeBuffer" where
  "AppendBlock cb BlockOffset =
     (let Count = length (BlockOffsets cb) in
      if Count \<noteq> 0 \<and> BlockOffset \<le> BlockOffsets cb ! (Count - 1) then Inl IndexWentBackwards
      else if BlockCapacity cb \<le> Count then Inl IndexOverflow
      else Inr (cb\<lparr>BlockOffsets := BlockOffsets cb @ [BlockOffset]\<rparr>))"

function block_search :: "u32 list \<Rightarrow> u32 \<Rightarrow> nat \<Rightarrow> nat \<Rightarrow> nat" where
  "block_search offs Target Lo Hi =
     (if Lo < Hi then
        let Mid = Lo + (Hi - Lo) div 2 in
        if offs ! Mid \<le> Target then block_search offs Target (Mid + 1) Hi
        else block_search offs Target Lo Mid
      else Lo)"
  by pat_completeness auto
termination
  by (relation "measure (\<lambda>(offs, Target, Lo, Hi). Hi - Lo)") auto

declare block_search.simps [simp del]

definition FindBlockHeader :: "CodeBuffer \<Rightarrow> u64 \<Rightarrow> u32 option option" where
  "FindBlockHeader cb HostPC =
     (if HostPC < Ptr cb then Some None
      else
        let ByteOffset = HostPC - Ptr cb in
        if UsableSize cb \<le> unat ByteOffset then Some None
        else
          let Count = length (BlockOffsets cb) in
          if Count = 0 then Some None
          else
            let Target = (ucast ByteOffset :: u32);
                Lo = block_search (BlockOffsets cb) Target 0 Count
            in if Lo = 0 then Some None
               else
                 let BlockOffset = BlockOffsets cb ! (Lo - 1) in
                 case read_header (Mem cb) (unat BlockOffset) of None \<Rightarrow> None
                 | Some Header \<Rightarrow>
                     (case read_tail (Mem cb) (unat BlockOffset + unat (OffsetToBlockTail Header)) of None \<Rightarrow> None
                      | Some Tail \<Rightarrow>
                          if TailSize Tail \<le> ucast (Target - BlockOffset) then Some None
                          else Some (Some BlockOffset)))"

definition WalkBlockRIPTable :: "CodeBuffer \<Rightarrow> u32 \<Rightarrow> JITCodeHeader \<Rightarrow> JITCodeTail \<Rightarrow> u64 \<Rightarrow> u64 option" where
  "WalkBlockRIPTable cb BlockOffset Header Tail HostPC =
     WalkRIPEntries (unat (NumberOfRIPEntries Tail))
       (drop (unat BlockOffset + unat (OffsetToBlockTail Header) + unat (OffsetToRIPEntries Tail)) (Mem cb))
       HostPC (Ptr cb + ucast BlockOffset) (TailRIP Tail)"

definition RestoreRIPFromHostPC :: "CodeBuffer \<Rightarrow> u64 \<Rightarrow> u64 \<Rightarrow> u64 option" where
  "RestoreRIPFromHostPC cb StateRIP HostPC =
     (case FindBlockHeader cb HostPC of None \<Rightarrow> None
      | Some None \<Rightarrow> Some StateRIP
      | Some (Some BlockOffset) \<Rightarrow>
          (case read_header (Mem cb) (unat BlockOffset) of None \<Rightarrow> None
           | Some Header \<Rightarrow>
               (case read_tail (Mem cb) (unat BlockOffset + unat (OffsetToBlockTail Header)) of None \<Rightarrow> None
                | Some Tail \<Rightarrow>
                    if NumberOfRIPEntries Tail = 0 then Some StateRIP
                    else WalkBlockRIPTable cb BlockOffset Header Tail HostPC)))"

definition TailAndEntriesAligned :: "u8 list \<Rightarrow> nat" where
  "TailAndEntriesAligned Entries = (sizeof_JITCodeTail + length Entries + 15) div 16 * 16"

definition MakeTail :: "nat \<Rightarrow> u64 \<Rightarrow> u64 \<Rightarrow> bool \<Rightarrow> nat \<Rightarrow> JITCodeTail" where
  "MakeTail Size Entry GuestSz Single NumOpcodes =
     \<lparr>TailSize = of_nat Size, TailRIP = Entry, GuestSize = GuestSz, NumberOfRIPEntries = of_nat NumOpcodes,
      OffsetToRIPEntries = of_nat sizeof_JITCodeTail, SpinLockFutex = 0, SingleInst = Single\<rparr>"

definition BlockBytes :: "u8 list \<Rightarrow> JITCodeTail \<Rightarrow> u8 list \<Rightarrow> u8 list" where
  "BlockBytes Code Tail Entries =
     header_bytes \<lparr>OffsetToBlockTail = of_nat (length Code)\<rparr> @ drop sizeof_JITCodeHeader Code @
     tail_bytes Tail @ Entries @
     replicate (TailAndEntriesAligned Entries - (sizeof_JITCodeTail + length Entries)) 0"

definition FinishBlock ::
  "CodeBuffer \<Rightarrow> nat \<Rightarrow> u8 list \<Rightarrow> u64 \<Rightarrow> u64 \<Rightarrow> bool \<Rightarrow> DebugDataGuestOpcode list \<Rightarrow>
     block_error + (CodeBuffer \<times> nat)" where
  "FinishBlock cb LatestOffset Code Entry GuestSz Single GuestOpcodes =
     (case EncodeRIPEntries 0 0 GuestOpcodes of None \<Rightarrow> Inl OpcodesNotAscending
      | Some Entries \<Rightarrow>
          let Size = length Code + TailAndEntriesAligned Entries;
              Block = BlockBytes Code (MakeTail Size Entry GuestSz Single (length GuestOpcodes)) Entries
          in if length (Mem cb) < LatestOffset + length Block then Inl BufferOverrun
             else
               case AppendBlock
                      (cb\<lparr>Mem := take LatestOffset (Mem cb) @ Block @ drop (LatestOffset + length Block) (Mem cb)\<rparr>)
                      (of_nat LatestOffset) of
                 Inl e \<Rightarrow> Inl e
               | Inr cb' \<Rightarrow> Inr (cb', LatestOffset + Size))"

function RebuildWalk :: "CodeBuffer \<Rightarrow> nat \<Rightarrow> nat \<Rightarrow> block_error + CodeBuffer" where
  "RebuildWalk cb End Offset =
     (if End \<le> Offset then Inr cb
      else
        let Remaining = End - Offset in
        if Remaining < MinimumBlockSize \<or> 2 ^ 32 - 1 < Offset then Inr cb
        else
          case read_header (Mem cb) Offset of None \<Rightarrow> Inl BufferOverrun
          | Some Header \<Rightarrow>
              let TailOff = unat (OffsetToBlockTail Header) in
              if TailOff < sizeof_JITCodeHeader \<or> Remaining - sizeof_JITCodeTail < TailOff then Inr cb
              else
                (case read_tail (Mem cb) (Offset + TailOff) of None \<Rightarrow> Inl BufferOverrun
                 | Some Tail \<Rightarrow>
                     let Size = unat (TailSize Tail) in
                     if Size < MinimumBlockSize \<or> Size mod 16 \<noteq> 0 \<or> Remaining < Size then Inr cb
                     else
                       (case AppendBlock cb (of_nat Offset) of Inl e \<Rightarrow> Inl e
                        | Inr cb' \<Rightarrow> RebuildWalk cb' End (Offset + Size))))"
  by pat_completeness auto
termination
  by (relation "measure (\<lambda>(cb, End, Offset). End - Offset)") (auto simp: MinimumBlockSize_def)

declare RebuildWalk.simps [simp del]

definition RebuildBlockIndexByWalk :: "CodeBuffer \<Rightarrow> nat \<Rightarrow> nat \<Rightarrow> block_error + CodeBuffer" where
  "RebuildBlockIndexByWalk cb Bytes StartOffset =
     (let cb1 = (if StartOffset = 0 then cb\<lparr>BlockOffsets := []\<rparr> else cb) in
      if Bytes = 0 then Inr cb1
      else if UsableSize cb1 < StartOffset \<or> UsableSize cb1 - StartOffset < Bytes then Inr cb1
      else RebuildWalk cb1 (StartOffset + Bytes) StartOffset)"

subsection \<open>Binary search\<close>

lemma block_search_spec:
  assumes "sorted_wrt (<) offs" and "Lo \<le> Hi" and "Hi \<le> length offs"
    and "\<forall>i < Lo. offs ! i \<le> Target" and "\<forall>i < length offs. Hi \<le> i \<longrightarrow> Target < offs ! i"
    and "r = block_search offs Target Lo Hi"
  shows "r \<le> length offs \<and> (\<forall>i < r. offs ! i \<le> Target) \<and> (\<forall>i < length offs. r \<le> i \<longrightarrow> Target < offs ! i)"
  using assms
proof (induction offs Target Lo Hi rule: block_search.induct)
  case (1 offs Target Lo Hi)
  define Mid where "Mid = Lo + (Hi - Lo) div 2"
  show ?case
  proof (cases "Lo < Hi")
    case False
    with "1.prems" show ?thesis
      by (simp add: block_search.simps [of offs Target Lo Hi] block_search.simps [of offs Target Hi Hi])
  next
    case True
    then have mid: "Lo \<le> Mid" "Mid < Hi" by (auto simp: Mid_def)
    have mono: "offs ! i \<le> offs ! j" if "i \<le> j" "j < length offs" for i j
      using sorted_wrt_nth_less [OF "1.prems"(1), of i j] that by (cases "i = j") (auto simp: less_imp_le)
    show ?thesis
    proof (cases "offs ! Mid \<le> Target")
      case le: True
      have "\<forall>i < Mid + 1. offs ! i \<le> Target"
        using mono [of _ Mid] le mid "1.prems"(3) by (auto simp: less_Suc_eq_le intro: order_trans)
      with "1.IH"(1) [OF True Mid_def le] "1.prems" mid True le show ?thesis
        by (simp add: block_search.simps [of offs Target Lo Hi] Let_def flip: Mid_def)
    next
      case gt: False
      have "\<forall>i < length offs. Mid \<le> i \<longrightarrow> Target < offs ! i"
        using mono [of Mid] gt by (meson not_le order_less_le_trans)
      with "1.IH"(2) [OF True Mid_def gt] "1.prems" mid True gt show ?thesis
        by (simp add: block_search.simps [of offs Target Lo Hi] Let_def flip: Mid_def)
    qed
  qed
qed


subsection \<open>The index invariant\<close>

definition block_size :: "u8 list \<Rightarrow> nat \<Rightarrow> nat" where
  "block_size mem off =
     (case read_header mem off of None \<Rightarrow> 0
      | Some h \<Rightarrow> (case read_tail mem (off + unat (OffsetToBlockTail h)) of None \<Rightarrow> 0
                   | Some t \<Rightarrow> unat (TailSize t)))"

definition block_ok :: "u8 list \<Rightarrow> nat \<Rightarrow> nat \<Rightarrow> bool" where
  "block_ok mem lim off \<longleftrightarrow>
     (case read_header mem off of None \<Rightarrow> False
      | Some h \<Rightarrow> sizeof_JITCodeHeader \<le> unat (OffsetToBlockTail h) \<and>
          off + unat (OffsetToBlockTail h) + sizeof_JITCodeTail \<le> lim \<and>
          (case read_tail mem (off + unat (OffsetToBlockTail h)) of None \<Rightarrow> False
           | Some t \<Rightarrow> off + unat (TailSize t) \<le> lim \<and> MinimumBlockSize \<le> unat (TailSize t) \<and>
               unat (TailSize t) mod 16 = 0))"

definition buffer_ok :: "CodeBuffer \<Rightarrow> bool" where
  "buffer_ok cb \<longleftrightarrow> UsableSize cb \<le> length (Mem cb) \<and> UsableSize cb \<le> 2 ^ 32 \<and>
     unat (Ptr cb) + UsableSize cb \<le> 2 ^ 64 \<and> BlockCapacity cb = UsableSize cb div MinimumBlockSize + 1"

definition index_ok :: "CodeBuffer \<Rightarrow> nat \<Rightarrow> bool" where
  "index_ok cb lim \<longleftrightarrow> buffer_ok cb \<and> lim \<le> UsableSize cb \<and>
     (\<forall>off \<in> set (BlockOffsets cb). block_ok (Mem cb) lim (unat off)) \<and>
     sorted_wrt (\<lambda>a b. unat a + block_size (Mem cb) (unat a) \<le> unat b) (BlockOffsets cb)"

definition in_block :: "CodeBuffer \<Rightarrow> u64 \<Rightarrow> u32 \<Rightarrow> bool" where
  "in_block cb HostPC off \<longleftrightarrow> unat (Ptr cb) + unat off \<le> unat HostPC \<and>
     unat HostPC < unat (Ptr cb) + unat off + block_size (Mem cb) (unat off)"

lemma block_okE:
  assumes "block_ok mem lim off"
  obtains h t where "read_header mem off = Some h"
    and "read_tail mem (off + unat (OffsetToBlockTail h)) = Some t"
    and "block_size mem off = unat (TailSize t)" and "64 \<le> unat (TailSize t)"
    and "4 \<le> unat (OffsetToBlockTail h)" and "off + unat (OffsetToBlockTail h) + 40 \<le> lim"
    and "off + unat (TailSize t) \<le> lim" and "unat (TailSize t) mod 16 = 0"
  using assms by (auto simp: block_ok_def block_size_def sizeof_JITCodeHeader_def sizeof_JITCodeTail_def
      MinimumBlockSize_def split: option.splits)

lemma block_ok_size: "block_ok mem lim off \<Longrightarrow> 64 \<le> block_size mem off \<and> off + block_size mem off \<le> lim"
  by (elim block_okE) simp

lemma block_ok_mono: "block_ok mem lim off \<Longrightarrow> lim \<le> lim' \<Longrightarrow> block_ok mem lim' off"
  by (auto simp: block_ok_def split: option.splits)

lemma index_ok_mono: "index_ok cb lim \<Longrightarrow> lim \<le> lim' \<Longrightarrow> lim' \<le> UsableSize cb \<Longrightarrow> index_ok cb lim'"
  by (auto simp: index_ok_def intro: block_ok_mono)

lemma index_ok_sorted:
  assumes "index_ok cb lim"
  shows "sorted_wrt (<) (BlockOffsets cb)"
proof (rule sorted_wrt_mono_rel [of _ "\<lambda>a b. unat a + block_size (Mem cb) (unat a) \<le> unat b"])
  fix a b :: u32 assume "a \<in> set (BlockOffsets cb)" and "unat a + block_size (Mem cb) (unat a) \<le> unat b"
  with assms show "a < b"
    using block_ok_size [of "Mem cb" lim "unat a"] by (auto simp: index_ok_def word_less_nat_alt)
qed (use assms in \<open>simp add: index_ok_def\<close>)

lemma sorted_span:
  fixes s :: "'a \<Rightarrow> nat"
  assumes "sorted_wrt (\<lambda>a b. f a + s a \<le> f b) xs" and "\<forall>x \<in> set xs. k \<le> s x \<and> f x + s x \<le> lim"
  shows "k * length xs \<le> lim"
  using assms
proof (induction xs arbitrary: lim rule: rev_induct)
  case (snoc x xs)
  then have "k * length xs \<le> f x" by (intro snoc.IH) (auto simp: sorted_wrt_append)
  with snoc.prems show ?case by auto
qed simp

lemma index_ok_room:
  assumes "index_ok cb lim"
  shows "64 * length (BlockOffsets cb) \<le> lim"
  using assms block_ok_size
  by (intro sorted_span [where f = unat and s = "\<lambda>a. block_size (Mem cb) (unat a)"]) (auto simp: index_ok_def)

lemma FindBlockHeader_find:
  assumes ok: "index_ok cb lim"
  shows "FindBlockHeader cb HostPC = Some (find (in_block cb HostPC) (BlockOffsets cb))"
proof -
  let ?offs = "BlockOffsets cb"
  define T where "T = unat HostPC - unat (Ptr cb)"
  have ends: "unat off + block_size (Mem cb) (unat off) \<le> UsableSize cb" if "off \<in> set ?offs" for off
    using ok that block_ok_size by (fastforce simp: index_ok_def)
  show ?thesis
  proof (cases "HostPC < Ptr cb \<or> UsableSize cb \<le> T \<or> ?offs = []")
    case True
    then have "find (in_block cb HostPC) ?offs = None"
      using ends by (fastforce simp: find_None_iff in_block_def T_def word_less_nat_alt)
    moreover have "FindBlockHeader cb HostPC = Some None"
      using True by (auto simp: FindBlockHeader_def Let_def T_def unat_sub not_less)
    ultimately show ?thesis by simp
  next
    case False
    then have ge: "unat (Ptr cb) \<le> unat HostPC" and byte: "unat (HostPC - Ptr cb) = T"
      and small: "T < UsableSize cb" and ne: "?offs \<noteq> []"
      by (auto simp: T_def unat_sub word_less_nat_alt word_le_nat_alt)
    define Target where "Target = (ucast (HostPC - Ptr cb) :: u32)"
    have tgt: "unat Target = T"
      using small ok by (simp add: Target_def unat_ucast_mod byte index_ok_def buffer_ok_def)
    define r where "r = block_search ?offs Target 0 (length ?offs)"
    from block_search_spec [OF index_ok_sorted [OF ok], of 0 "length ?offs" Target r]
    have r: "r \<le> length ?offs" "\<forall>i < r. unat (?offs ! i) \<le> T" "\<forall>i < length ?offs. r \<le> i \<longrightarrow> T < unat (?offs ! i)"
      by (auto simp: r_def word_le_nat_alt word_less_nat_alt tgt)
    show ?thesis
    proof (cases "r = 0")
      case True
      have "find (in_block cb HostPC) ?offs = None"
        using True r(3) ge by (fastforce simp: find_None_iff in_block_def in_set_conv_nth T_def)
      then show ?thesis
        using False True small byte
        by (simp add: FindBlockHeader_def Let_def flip: Target_def r_def)
    next
      case pos: False
      define off where "off = ?offs ! (r - Suc 0)"
      have mem: "off \<in> set ?offs" and le: "unat off \<le> T" using pos r by (auto simp: off_def)
      have only: "y = off" if "y \<in> set ?offs" "in_block cb HostPC y" for y
      proof -
        from that(1) obtain i where i: "i < length ?offs" "?offs ! i = y" by (auto simp: in_set_conv_nth)
        have "i < r" using r(3) i that(2) by (fastforce simp: in_block_def T_def)
        moreover have "\<not> i < r - 1"
        proof
          assume "i < r - 1"
          then have "unat y + block_size (Mem cb) (unat y) \<le> unat off"
            using sorted_wrt_nth_less [of _ ?offs i "r - 1"] ok i r(1) by (fastforce simp: index_ok_def off_def)
          with le that(2) ge show False by (auto simp: in_block_def T_def)
        qed
        ultimately have "i = r - 1" by simp
        with i show ?thesis by (simp add: off_def)
      qed
      from ok mem have "block_ok (Mem cb) lim (unat off)" by (simp add: index_ok_def)
      then obtain h t where h: "read_header (Mem cb) (unat off) = Some h"
        and t: "read_tail (Mem cb) (unat off + unat (OffsetToBlockTail h)) = Some t"
        and sz: "block_size (Mem cb) (unat off) = unat (TailSize t)"
        by (elim block_okE)
      have "unat (ucast (Target - off) :: u64) = T - unat off"
        using le tgt unat_less_exp [of "Target - off"] by (simp add: unat_ucast_mod unat_sub word_le_nat_alt)
      then have "TailSize t \<le> ucast (Target - off) \<longleftrightarrow> \<not> in_block cb HostPC off"
        using le ge by (auto simp: word_le_nat_alt in_block_def sz T_def)
      then show ?thesis
        using False pos small byte h t find_unique [OF mem, of "in_block cb HostPC"] only
        by (simp add: FindBlockHeader_def Let_def flip: Target_def r_def off_def)
    qed
  qed
qed


subsection \<open>Reading what the compiler wrote\<close>

lemma read_header_bytes: "read_header (pre @ header_bytes h @ rest) (length pre) = Some h"
  by (simp add: read_header_def header_bytes_def sizeof_JITCodeHeader_def)

lemma read_tail_bytes: "read_tail (pre @ tail_bytes t @ rest) (length pre) = Some t"
  by (simp add: read_tail_def tail_bytes_def sizeof_JITCodeTail_def Let_def nth_append)

lemma read_header_prefix:
  assumes "off + 4 \<le> l" and "l \<le> length m" and "l \<le> length m'" and "take l m = take l m'"
  shows "read_header m' off = read_header m off"
proof -
  have "take 4 (drop off m) = take 4 (drop off (take l m))" "take 4 (drop off m') = take 4 (drop off (take l m'))"
    using assms(1) by (simp_all add: drop_take min_def)
  with assms show ?thesis by (simp add: read_header_def sizeof_JITCodeHeader_def)
qed

lemma read_tail_prefix:
  assumes "off + 40 \<le> l" and "l \<le> length m" and "l \<le> length m'" and "take l m = take l m'"
  shows "read_tail m' off = read_tail m off"
proof -
  have *: "take n (drop (off + k) m) = take n (drop (off + k) m')" if "off + k + n \<le> l" for n k
  proof -
    have "take n (drop (off + k) x) = take n (drop (off + k) (take l x))" for x :: "u8 list"
      using that by (simp add: drop_take min_def)
    then show ?thesis using assms(4) by metis
  qed
  have "m ! (off + 36) = m' ! (off + 36)"
    using assms(1,4) nth_take [of "off + 36" l m] nth_take [of "off + 36" l m'] by simp
  with assms *[of 0 8] *[of 8 8] *[of 16 8] *[of 24 4] *[of 28 4] *[of 32 4] show ?thesis
    by (simp add: read_tail_def sizeof_JITCodeTail_def Let_def add.commute)
qed

lemma block_prefix:
  assumes ok: "block_ok m l off" and l: "l \<le> length m" "l \<le> length m'" and eq: "take l m = take l m'"
  shows "block_ok m' l off \<and> block_size m' off = block_size m off"
proof -
  from ok obtain h t where r: "read_header m off = Some h"
      "read_tail m (off + unat (OffsetToBlockTail h)) = Some t" "off + unat (OffsetToBlockTail h) + 40 \<le> l"
    by (elim block_okE)
  have "read_header m' off = read_header m off"
    using r by (intro read_header_prefix [OF _ l eq]) simp
  moreover have "read_tail m' (off + unat (OffsetToBlockTail h)) = read_tail m (off + unat (OffsetToBlockTail h))"
    using r by (intro read_tail_prefix [OF _ l eq]) simp
  ultimately show ?thesis
    using ok r by (simp add: block_ok_def block_size_def)
qed

lemma index_ok_write:
  assumes ok: "index_ok cb lim" and len: "length m' = length (Mem cb)" and eq: "take lim m' = take lim (Mem cb)"
  shows "index_ok (cb\<lparr>Mem := m'\<rparr>) lim"
    and "\<forall>off \<in> set (BlockOffsets cb). block_size m' (unat off) = block_size (Mem cb) (unat off)"
proof -
  have l: "lim \<le> length (Mem cb)" using ok by (simp add: index_ok_def buffer_ok_def)
  have *: "block_ok m' lim (unat off) \<and> block_size m' (unat off) = block_size (Mem cb) (unat off)"
    if "off \<in> set (BlockOffsets cb)" for off
    using ok that l len eq by (intro block_prefix [where l = lim]) (auto simp: index_ok_def)
  then show sz: "\<forall>off \<in> set (BlockOffsets cb). block_size m' (unat off) = block_size (Mem cb) (unat off)"
    by blast
  have "sorted_wrt (\<lambda>a b. unat a + block_size m' (unat a) \<le> unat b) (BlockOffsets cb)"
    using ok sz by (auto simp: index_ok_def intro: sorted_wrt_mono_rel [rotated])
  then show "index_ok (cb\<lparr>Mem := m'\<rparr>) lim"
    using ok * len by (simp add: index_ok_def buffer_ok_def UsableSize_def)
qed

definition ends_by :: "CodeBuffer \<Rightarrow> nat \<Rightarrow> bool" where
  "ends_by cb a \<longleftrightarrow> (\<forall>off \<in> set (BlockOffsets cb). unat off + block_size (Mem cb) (unat off) \<le> a)"

lemma index_ok_ends_by: "index_ok cb lim \<Longrightarrow> ends_by cb lim"
  using block_ok_size by (auto simp: index_ok_def ends_by_def)

lemma AppendBlock_ok:
  assumes ok: "index_ok cb lim" and ends: "ends_by cb a" and blk: "block_ok (Mem cb) lim' a"
    and fits: "lim \<le> lim'" "lim' \<le> UsableSize cb"
  shows "AppendBlock cb (of_nat a) = Inr (cb\<lparr>BlockOffsets := BlockOffsets cb @ [of_nat a]\<rparr>)"
    and "index_ok (cb\<lparr>BlockOffsets := BlockOffsets cb @ [of_nat a]\<rparr>) lim'"
    and "ends_by (cb\<lparr>BlockOffsets := BlockOffsets cb @ [of_nat a]\<rparr>) (a + block_size (Mem cb) a)"
proof -
  have size: "64 \<le> block_size (Mem cb) a" "a + block_size (Mem cb) a \<le> lim'"
    using block_ok_size [OF blk] by simp_all
  then have u: "unat (of_nat a :: u32) = a"
    using fits ok by (simp add: unat_of_nat index_ok_def buffer_ok_def)
  have before: "unat off + 64 \<le> a" if "off \<in> set (BlockOffsets cb)" for off
    using ok ends that block_ok_size [of "Mem cb" lim "unat off"] by (fastforce simp: index_ok_def ends_by_def)
  have "length (BlockOffsets cb) < BlockCapacity cb"
    using index_ok_room [OF ok] ok by (auto simp: index_ok_def buffer_ok_def MinimumBlockSize_def)
  moreover have "\<not> of_nat a \<le> BlockOffsets cb ! (length (BlockOffsets cb) - 1)" if "BlockOffsets cb \<noteq> []"
    using before [of "last (BlockOffsets cb)"] that by (simp add: last_conv_nth word_le_nat_alt u)
  ultimately show "AppendBlock cb (of_nat a) = Inr (cb\<lparr>BlockOffsets := BlockOffsets cb @ [of_nat a]\<rparr>)"
    by (auto simp: AppendBlock_def Let_def)
  show "ends_by (cb\<lparr>BlockOffsets := BlockOffsets cb @ [of_nat a]\<rparr>) (a + block_size (Mem cb) a)"
    using ends u by (fastforce simp: ends_by_def)
  show "index_ok (cb\<lparr>BlockOffsets := BlockOffsets cb @ [of_nat a]\<rparr>) lim'"
    using ok ends blk fits u
    by (auto simp: index_ok_def buffer_ok_def UsableSize_def sorted_wrt_append ends_by_def intro: block_ok_mono)
qed

subsection \<open>Rebuilding the index from the bytes\<close>

lemma RebuildWalk_guards:
  assumes "block_ok (Mem cb) End Offset" and "Offset < 2 ^ 32"
  obtains h t where "read_header (Mem cb) Offset = Some h"
    and "read_tail (Mem cb) (Offset + unat (OffsetToBlockTail h)) = Some t"
    and "block_size (Mem cb) Offset = unat (TailSize t)" and "\<not> End \<le> Offset"
    and "\<not> (End - Offset < MinimumBlockSize \<or> 2 ^ 32 - 1 < Offset)"
    and "\<not> (unat (OffsetToBlockTail h) < sizeof_JITCodeHeader \<or> End - Offset - sizeof_JITCodeTail < unat (OffsetToBlockTail h))"
    and "\<not> (unat (TailSize t) < MinimumBlockSize \<or> unat (TailSize t) mod 16 \<noteq> 0 \<or> End - Offset < unat (TailSize t))"
proof -
  from assms(1) obtain h t where r: "read_header (Mem cb) Offset = Some h"
      "read_tail (Mem cb) (Offset + unat (OffsetToBlockTail h)) = Some t"
      "block_size (Mem cb) Offset = unat (TailSize t)" "64 \<le> unat (TailSize t)" "4 \<le> unat (OffsetToBlockTail h)"
      "Offset + unat (OffsetToBlockTail h) + 40 \<le> End" "Offset + unat (TailSize t) \<le> End"
      "unat (TailSize t) mod 16 = 0"
    by (elim block_okE)
  then show thesis
    using assms(2) by (intro that [of h t])
      (auto simp: MinimumBlockSize_def sizeof_JITCodeHeader_def sizeof_JITCodeTail_def)
qed

lemma RebuildWalk_step:
  assumes "block_ok (Mem cb) End Offset" and "Offset < 2 ^ 32" and "AppendBlock cb (of_nat Offset) = Inr cb'"
  shows "RebuildWalk cb End Offset = RebuildWalk cb' End (Offset + block_size (Mem cb) Offset)"
  by (rule RebuildWalk_guards [OF assms(1,2)], subst RebuildWalk.simps) (simp add: Let_def assms(3))

lemma RebuildWalk_ok:
  assumes "index_ok cb lim" and "ends_by cb Offset" and "lim \<le> End" and "End \<le> UsableSize cb"
  shows "\<exists>new. RebuildWalk cb End Offset = Inr (cb\<lparr>BlockOffsets := BlockOffsets cb @ new\<rparr>) \<and>
     index_ok (cb\<lparr>BlockOffsets := BlockOffsets cb @ new\<rparr>) End"
  using assms
proof (induction cb End Offset arbitrary: lim rule: RebuildWalk.induct)
  case (1 cb End Offset)
  have stop: ?case if "RebuildWalk cb End Offset = Inr cb"
    using that "1.prems" by (intro exI [of _ "[]"]) (auto intro: index_ok_mono)
  have mem: "End \<le> length (Mem cb)" using "1.prems" by (simp add: index_ok_def buffer_ok_def)
  show ?case
  proof (cases "block_ok (Mem cb) End Offset \<and> Offset < 2 ^ 32")
    case True
    then have blk: "block_ok (Mem cb) End Offset" and off: "Offset < 2 ^ 32" by simp_all
    note ap = AppendBlock_ok [OF "1.prems"(1,2) blk "1.prems"(3,4)]
    let ?cb = "cb\<lparr>BlockOffsets := BlockOffsets cb @ [of_nat Offset]\<rparr>"
    have "RebuildWalk cb End Offset = RebuildWalk ?cb End (Offset + block_size (Mem cb) Offset)"
      by (rule RebuildWalk_step [OF blk off ap(1)])
    moreover obtain h t where r: "read_header (Mem cb) Offset = Some h"
        "read_tail (Mem cb) (Offset + unat (OffsetToBlockTail h)) = Some t"
        "block_size (Mem cb) Offset = unat (TailSize t)"
        and conds: "\<not> End \<le> Offset" "\<not> (End - Offset < MinimumBlockSize \<or> 2 ^ 32 - 1 < Offset)"
        "\<not> (unat (OffsetToBlockTail h) < sizeof_JITCodeHeader \<or> End - Offset - sizeof_JITCodeTail < unat (OffsetToBlockTail h))"
        "\<not> (unat (TailSize t) < MinimumBlockSize \<or> unat (TailSize t) mod 16 \<noteq> 0 \<or> End - Offset < unat (TailSize t))"
      by (rule RebuildWalk_guards [OF blk off])
    moreover have "\<exists>new. RebuildWalk ?cb End (Offset + unat (TailSize t)) =
        Inr (?cb\<lparr>BlockOffsets := BlockOffsets ?cb @ new\<rparr>) \<and> index_ok (?cb\<lparr>BlockOffsets := BlockOffsets ?cb @ new\<rparr>) End"
      using "1.IH" [OF conds(1) refl conds(2) r(1) refl conds(3) r(2) refl conds(4) ap(1) ap(2)]
        ap(3) r(3) "1.prems"(4) by (simp add: UsableSize_def)
    ultimately show ?thesis by (auto simp: r intro: exI [of _ "of_nat Offset # _"])
  next
    case False
    have "RebuildWalk cb End Offset = Inr cb"
      using False mem by (subst RebuildWalk.simps)
        (auto simp: Let_def read_header_def read_tail_def block_ok_def MinimumBlockSize_def sizeof_JITCodeHeader_def
          sizeof_JITCodeTail_def)
    then show ?thesis by (rule stop)
  qed
qed


fun tiled :: "u8 list \<Rightarrow> nat \<Rightarrow> u32 list \<Rightarrow> nat \<Rightarrow> bool" where
  "tiled mem a [] lim \<longleftrightarrow> a = lim"
| "tiled mem a (off # offs) lim \<longleftrightarrow> unat off = a \<and> tiled mem (a + block_size mem a) offs lim"

lemma AppendBlock_next:
  assumes "index_ok (cb\<lparr>BlockOffsets := pre @ off # offs\<rparr>) lim"
  shows "AppendBlock (cb\<lparr>BlockOffsets := pre\<rparr>) off = Inr (cb\<lparr>BlockOffsets := pre @ [off]\<rparr>)"
proof -
  have "length pre < BlockCapacity cb"
    using index_ok_room [OF assms] assms
    by (auto simp: index_ok_def buffer_ok_def MinimumBlockSize_def UsableSize_def)
  moreover have "\<not> off \<le> pre ! (length pre - 1)" if "pre \<noteq> []"
    using index_ok_sorted [OF assms] that by (auto simp: sorted_wrt_append not_le)
  ultimately show ?thesis by (auto simp: AppendBlock_def Let_def)
qed

lemma RebuildWalk_tiled:
  assumes "index_ok (cb\<lparr>BlockOffsets := pre @ offs\<rparr>) lim" and "tiled (Mem cb) a offs lim"
  shows "RebuildWalk (cb\<lparr>BlockOffsets := pre\<rparr>) lim a = Inr (cb\<lparr>BlockOffsets := pre @ offs\<rparr>)"
  using assms
proof (induction offs arbitrary: pre a)
  case Nil
  then show ?case by (simp add: RebuildWalk.simps)
next
  case (Cons off offs)
  then have a: "a = unat off" and blk: "block_ok (Mem cb) lim a" by (auto simp: index_ok_def)
  have "a < 2 ^ 32" using unat_less_exp [of off] by (simp add: a)
  then have "RebuildWalk (cb\<lparr>BlockOffsets := pre\<rparr>) lim a =
      RebuildWalk (cb\<lparr>BlockOffsets := pre @ [off]\<rparr>) lim (a + block_size (Mem cb) a)"
    using RebuildWalk_step [of "cb\<lparr>BlockOffsets := pre\<rparr>" lim a] blk AppendBlock_next [OF Cons.prems(1)]
    by (simp add: a)
  also have "\<dots> = Inr (cb\<lparr>BlockOffsets := (pre @ [off]) @ offs\<rparr>)"
    using Cons.prems by (intro Cons.IH) simp_all
  finally show ?case by simp
qed

lemma RebuildBlockIndexByWalk_tiled:
  assumes "index_ok cb lim" and "tiled (Mem cb) 0 (BlockOffsets cb) lim"
  shows "RebuildBlockIndexByWalk (cb\<lparr>BlockOffsets := junk\<rparr>) lim 0 = Inr cb"
proof (cases "lim = 0")
  case True
  with assms have "BlockOffsets cb = []"
    using index_ok_room [OF assms(1)] by simp
  with True show ?thesis by (simp add: RebuildBlockIndexByWalk_def)
next
  case False
  with assms RebuildWalk_tiled [where cb = cb and pre = "[]" and offs = "BlockOffsets cb" and a = 0] show ?thesis
    by (simp add: RebuildBlockIndexByWalk_def index_ok_def UsableSize_def)
qed

lemma tiled_snoc:
  "tiled mem a offs L \<Longrightarrow> unat off = L \<Longrightarrow> tiled mem a (offs @ [off]) (L + block_size mem L)"
  by (induction offs arbitrary: a) auto

lemma tiled_cong:
  "tiled mem a offs lim \<Longrightarrow> \<forall>off \<in> set offs. block_size mem' (unat off) = block_size mem (unat off) \<Longrightarrow>
     tiled mem' a offs lim"
  by (induction offs arbitrary: a) auto

subsection \<open>What the index promises\<close>

text \<open>
  C5: the binary search of \<open>CodeBuffer::FindBlockHeader\<close> is equivalent to scanning the index for the block
  whose bytes contain the host PC.  On a buffer whose index satisfies the invariant it never reads
  outside the buffer (the outer \<open>Some\<close>), finds that block when there is one, and answers null for a PC
  outside the buffer, below the first block or between two blocks.
\<close>

theorem FindBlockHeader_linear_scan:
  assumes "index_ok cb lim"
  shows "FindBlockHeader cb HostPC = Some (find (in_block cb HostPC) (BlockOffsets cb))"
  by (rule FindBlockHeader_find [OF assms])

text \<open>
  C6: rebuilding the index from arbitrary bytes is safe.  Whatever the code cache file put into the
  buffer, \<open>RebuildBlockIndexByWalk\<close> terminates without reading outside the buffer, never takes one of
  the fatal paths of \<open>AppendBlock\<close>, and leaves an index that satisfies the invariant, keeping the
  blocks already indexed below a non-zero start.
\<close>

theorem RebuildBlockIndexByWalk_safe:
  assumes "index_ok cb StartOffset"
  shows "\<exists>new. RebuildBlockIndexByWalk cb Bytes StartOffset =
           Inr (cb\<lparr>BlockOffsets := (if StartOffset = 0 then [] else BlockOffsets cb) @ new\<rparr>) \<and>
         index_ok (cb\<lparr>BlockOffsets := (if StartOffset = 0 then [] else BlockOffsets cb) @ new\<rparr>) (UsableSize cb)"
proof -
  define cb1 where "cb1 = (if StartOffset = 0 then cb\<lparr>BlockOffsets := []\<rparr> else cb)"
  have cb1: "index_ok cb1 StartOffset" "UsableSize cb1 = UsableSize cb"
    using assms by (auto simp: cb1_def index_ok_def buffer_ok_def UsableSize_def)
  have le: "StartOffset \<le> UsableSize cb" using assms by (simp add: index_ok_def)
  have stop: "index_ok cb1 (UsableSize cb1)" using cb1 le by (auto intro: index_ok_mono)
  have "\<exists>new. RebuildBlockIndexByWalk cb Bytes StartOffset = Inr (cb1\<lparr>BlockOffsets := BlockOffsets cb1 @ new\<rparr>) \<and>
      index_ok (cb1\<lparr>BlockOffsets := BlockOffsets cb1 @ new\<rparr>) (UsableSize cb1)"
  proof (cases "Bytes = 0 \<or> UsableSize cb1 < StartOffset \<or> UsableSize cb1 - StartOffset < Bytes")
    case True
    then show ?thesis using stop
      by (intro exI [of _ "[]"]) (auto simp: RebuildBlockIndexByWalk_def Let_def simp flip: cb1_def)
  next
    case False
    then have fits: "StartOffset + Bytes \<le> UsableSize cb1" by auto
    from RebuildWalk_ok [OF cb1(1) index_ok_ends_by [OF cb1(1)] _ this]
    obtain new where new: "RebuildWalk cb1 (StartOffset + Bytes) StartOffset = Inr (cb1\<lparr>BlockOffsets := BlockOffsets cb1 @ new\<rparr>)"
        "index_ok (cb1\<lparr>BlockOffsets := BlockOffsets cb1 @ new\<rparr>) (StartOffset + Bytes)"
      by auto
    then have "index_ok (cb1\<lparr>BlockOffsets := BlockOffsets cb1 @ new\<rparr>) (UsableSize cb1)"
      using fits by (auto intro: index_ok_mono simp: UsableSize_def)
    then show ?thesis using new(1) False
      by (intro exI [of _ new]) (auto simp: RebuildBlockIndexByWalk_def Let_def simp flip: cb1_def)
  qed
  then show ?thesis using cb1(2) by (auto simp: cb1_def split: if_splits)
qed

definition demo_buffer :: CodeBuffer where
  "demo_buffer = \<lparr>Ptr = 0x10000, Mem = replicate 128 0, AllocatedSize = 4224, HostPageSize = 4096,
     BlockOffsets = [], BlockCapacity = 3\<rparr>"

lemma demo_buffer_ok: "index_ok demo_buffer 0" "UsableSize demo_buffer = 128"
  by (simp_all add: demo_buffer_def index_ok_def buffer_ok_def UsableSize_def MinimumBlockSize_def)

theorem FindBlockHeader_linear_scan_witness:
  "index_ok demo_buffer 0 \<and> FindBlockHeader demo_buffer 0x10004 = Some None"
  using FindBlockHeader_linear_scan [OF demo_buffer_ok(1), of "0x10004"] demo_buffer_ok(1)
  by (simp add: demo_buffer_def)

theorem RebuildBlockIndexByWalk_safe_witness:
  "\<exists>new. RebuildBlockIndexByWalk demo_buffer 128 0 = Inr (demo_buffer\<lparr>BlockOffsets := new\<rparr>) \<and>
     index_ok (demo_buffer\<lparr>BlockOffsets := new\<rparr>) 128"
  using RebuildBlockIndexByWalk_safe [OF demo_buffer_ok(1), of 128] by (simp add: demo_buffer_ok(2))

end
