(* ===== verification/Rip_Recovery.thy ===== *)
theory Rip_Recovery
  imports Jit_Blocks
begin

text \<open>
  From a host PC back to the guest RIP, end to end: what \<open>CompileCode\<close> wrote into the code buffer is what
  \<open>RestoreRIPFromHostPC\<close> reads there.  The reachable buffers are the histories of \<open>FinishBlock\<close> and
  index rebuilds (the inductive predicate \<open>compiled\<close>, which also records for every block its entry RIP
  and its opcodes); \<open>history_ok\<close> is the invariant of those histories, and \<open>GuestRIPAt\<close> the specification
  of the answer: the RIP of the last guest instruction whose host code starts at or before the PC.
\<close>

subsection \<open>The table answers with the last opcode that has started\<close>

definition GuestRIPAt :: "u64 \<Rightarrow> DebugDataGuestOpcode list \<Rightarrow> u64 \<Rightarrow> u64" where
  "GuestRIPAt Entry ops off =
     (let started = filter (\<lambda>op. HostEntryOffset op \<le> off) ops
      in if started = [] then Entry else Entry + GuestEntryOffset (last started))"

lemma EncodeRIPEntries_ascending:
  "EncodeRIPEntries P R ops = Some bs \<Longrightarrow>
     sorted_wrt (\<lambda>a b. HostEntryOffset a \<le> HostEntryOffset b) ops \<and> (\<forall>op \<in> set ops. P \<le> HostEntryOffset op)"
proof (induction ops arbitrary: P R bs)
  case (Cons op ops)
  then obtain bs' where "EncodeRIPEntries (HostEntryOffset op) (GuestEntryOffset op) ops = Some bs'"
      and "P \<le> HostEntryOffset op"
    by (auto simp: Let_def not_less split: if_splits)
  with Cons.IH show ?case by fastforce
qed simp

lemma WalkRIPEntries_Encode:
  assumes "EncodeRIPEntries P R ops = Some bs"
    and "\<forall>op \<in> set ops. unat Begin + unat (HostEntryOffset op) < 2 ^ 64" and "Begin \<le> pc"
  shows "WalkRIPEntries (length ops) (bs @ rest) pc (Begin + P) (E + R) =
           Some (E + (let xs = filter (\<lambda>op. HostEntryOffset op \<le> pc - Begin) ops
                      in if xs = [] then R else GuestEntryOffset (last xs)))"
  using assms
proof (induction ops arbitrary: P R bs)
  case (Cons op ops)
  let ?h = "HostEntryOffset op" and ?g = "GuestEntryOffset op"
  from Cons.prems obtain bs' where bs': "EncodeRIPEntries ?h ?g ops = Some bs'"
      and bs: "bs = vl64pair_Encode (?h - P) (?g - R) @ bs'"
    by (auto simp: Let_def split: if_splits)
  have dec: "vl64pair_Decode (bs @ rest) =
      Some \<lparr>IntegerARMPC = ?h - P, IntegerX86RIP = ?g - R, DecodedSize = vl64pair_EncodedSize (?h - P) (?g - R)\<rparr>"
    by (simp add: bs vl64pair_Decode_Encode)
  have le: "Begin + ?h \<le> pc \<longleftrightarrow> ?h \<le> pc - Begin"
    using Cons.prems by (intro word_add_le_iff) simp_all
  show ?case
  proof (cases "?h \<le> pc - Begin")
    case True
    with Cons.IH [OF bs'] Cons.prems le show ?thesis
      by (simp add: dec) (simp add: bs length_vl64pair_Encode Let_def)
  next
    case False
    have "filter (\<lambda>op. HostEntryOffset op \<le> pc - Begin) (op # ops) = []"
      using EncodeRIPEntries_ascending [OF bs'] False
      by (auto simp: filter_empty_conv)
    then show ?thesis
      using False le by (simp add: dec)
  qed
qed simp

lemma WalkRIPEntries_table:
  assumes "EncodeRIPEntries 0 0 ops = Some bs"
    and "\<forall>op \<in> set ops. unat Begin + unat (HostEntryOffset op) < 2 ^ 64" and "Begin \<le> pc"
  shows "WalkRIPEntries (length ops) (bs @ rest) pc Begin E = Some (GuestRIPAt E ops (pc - Begin))"
  using WalkRIPEntries_Encode [OF assms, of rest E] by (simp add: GuestRIPAt_def Let_def)

subsection \<open>The block the compiler writes\<close>

lemma TailAndEntriesAligned_bounds:
  "48 \<le> TailAndEntriesAligned es" "TailAndEntriesAligned es mod 16 = 0"
  "40 + length es \<le> TailAndEntriesAligned es"
  by (simp_all add: TailAndEntriesAligned_def sizeof_JITCodeTail_def)

lemma length_BlockBytes:
  "4 \<le> length Code \<Longrightarrow> length (BlockBytes Code T es) = length Code + TailAndEntriesAligned es"
  using TailAndEntriesAligned_bounds [of es]
  by (simp add: BlockBytes_def header_bytes_def tail_bytes_def sizeof_JITCodeHeader_def sizeof_JITCodeTail_def)

lemma BlockBytes_read:
  assumes "4 \<le> length Code" and "m = pre @ BlockBytes Code T es @ post"
  shows "read_header m (length pre) = Some \<lparr>OffsetToBlockTail = of_nat (length Code)\<rparr>"
    and "read_tail m (length pre + length Code) = Some T"
    and "\<exists>rest. drop (length pre + length Code + 40) m = es @ rest"
proof -
  let ?h = "header_bytes \<lparr>OffsetToBlockTail = of_nat (length Code)\<rparr>"
  let ?pad = "replicate (TailAndEntriesAligned es - (40 + length es)) 0"
  have m: "m = (pre @ ?h @ drop 4 Code) @ tail_bytes T @ es @ ?pad @ post"
    by (simp add: assms(2) BlockBytes_def sizeof_JITCodeHeader_def sizeof_JITCodeTail_def)
  have len: "length (pre @ ?h @ drop 4 Code) = length pre + length Code"
    using assms(1) by (simp add: header_bytes_def)
  show "read_header m (length pre) = Some \<lparr>OffsetToBlockTail = of_nat (length Code)\<rparr>"
    using read_header_bytes [of pre] by (simp add: m)
  show "read_tail m (length pre + length Code) = Some T"
    unfolding m len [symmetric] by (rule read_tail_bytes)
  have "drop (length pre + length Code) m = tail_bytes T @ es @ ?pad @ post"
    unfolding m len [symmetric] by (rule drop_length_append)
  then have "drop 40 (drop (length pre + length Code) m) = es @ ?pad @ post"
    by (simp add: tail_bytes_def)
  then show "\<exists>rest. drop (length pre + length Code + 40) m = es @ rest"
    by (auto simp: add.commute)
qed

lemma FinishBlock_ok:
  assumes ok: "index_ok cb L" and enc: "EncodeRIPEntries 0 0 ops = Some es"
    and code: "16 \<le> length Code" "length Code mod 16 = 0"
    and fits: "L + (length Code + TailAndEntriesAligned es) \<le> UsableSize cb"
  obtains m rest where
    "FinishBlock cb L Code E G S ops =
       Inr (cb\<lparr>Mem := m, BlockOffsets := BlockOffsets cb @ [of_nat L]\<rparr>, L + (length Code + TailAndEntriesAligned es))"
    and "index_ok (cb\<lparr>Mem := m, BlockOffsets := BlockOffsets cb @ [of_nat L]\<rparr>)
           (L + (length Code + TailAndEntriesAligned es))"
    and "take L m = take L (Mem cb)" and "length m = length (Mem cb)"
    and "read_header m L = Some \<lparr>OffsetToBlockTail = of_nat (length Code)\<rparr>"
    and "read_tail m (L + length Code) =
           Some (MakeTail (length Code + TailAndEntriesAligned es) E G S (length ops))"
    and "drop (L + length Code + 40) m = es @ rest"
    and "block_size m L = length Code + TailAndEntriesAligned es"
proof -
  define sz where "sz = length Code + TailAndEntriesAligned es"
  define T where "T = MakeTail sz E G S (length ops)"
  define B where "B = BlockBytes Code T es"
  define m where "m = take L (Mem cb) @ B @ drop (L + length B) (Mem cb)"
  have lenB: "length B = sz" using code by (simp add: B_def sz_def length_BlockBytes)
  have bounds: "L \<le> length (Mem cb)" "L + sz \<le> length (Mem cb)" "sz \<le> 2 ^ 32"
    using ok fits by (auto simp: index_ok_def buffer_ok_def sz_def)
  then have lenm: "length m = length (Mem cb)" and tk: "take L m = take L (Mem cb)"
    by (auto simp: m_def lenB)
  have ok1: "index_ok (cb\<lparr>Mem := m\<rparr>) L" by (rule index_ok_write(1) [OF ok lenm tk])
  have len: "length (take L (Mem cb)) = L" using bounds by simp
  note rd = BlockBytes_read [where pre = "take L (Mem cb)" and m = m and Code = Code and T = T and es = es,
      OF _ m_def [unfolded B_def], unfolded len]
  have uc: "unat (of_nat (length Code) :: u32) = length Code"
    using bounds code TailAndEntriesAligned_bounds(1) [of es] by (simp add: unat_of_nat sz_def)
  have us: "unat (TailSize T) = sz" using bounds by (simp add: T_def MakeTail_def unat_of_nat)
  have bs: "block_size m L = sz" using rd code by (simp add: block_size_def uc us)
  have bo: "block_ok m (L + sz) L"
    using rd code TailAndEntriesAligned_bounds [of es]
    by (simp add: block_ok_def uc us sz_def sizeof_JITCodeHeader_def sizeof_JITCodeTail_def
        MinimumBlockSize_def mod_add_eq [symmetric])
  let ?cb = "cb\<lparr>Mem := m, BlockOffsets := BlockOffsets cb @ [of_nat L]\<rparr>"
  have ap: "AppendBlock (cb\<lparr>Mem := m\<rparr>) (of_nat L) = Inr ?cb" "index_ok ?cb (L + sz)"
    using AppendBlock_ok [OF ok1 index_ok_ends_by [OF ok1], of "L + sz"] bo fits by (simp_all add: sz_def UsableSize_def)
  have "FinishBlock cb L Code E G S ops = Inr (?cb, L + sz)"
    using ap(1) bounds m_def [unfolded lenB]
    by (simp add: FinishBlock_def enc Let_def lenB flip: sz_def T_def B_def)
  moreover obtain rest where "drop (L + length Code + 40) m = es @ rest" using rd(3) code by auto
  ultimately show thesis
    using that [of m rest] ap(2) tk lenm rd(1,2) code bs by (simp add: sz_def T_def)
qed


subsection \<open>Every compiled block answers for itself\<close>

definition block_for :: "u8 list \<Rightarrow> nat \<Rightarrow> u64 \<Rightarrow> DebugDataGuestOpcode list \<Rightarrow> bool" where
  "block_for mem off Entry ops \<longleftrightarrow>
     (\<exists>h t es. read_header mem off = Some h \<and> read_tail mem (off + unat (OffsetToBlockTail h)) = Some t \<and>
        EncodeRIPEntries 0 0 ops = Some es \<and> TailRIP t = Entry \<and>
        unat (NumberOfRIPEntries t) = length ops \<and> OffsetToRIPEntries t = 40 \<and>
        unat (OffsetToBlockTail h) + 40 + length es \<le> unat (TailSize t) \<and>
        take (length es) (drop (off + unat (OffsetToBlockTail h) + 40) mem) = es \<and>
        (\<forall>op \<in> set ops. unat (HostEntryOffset op) < unat (TailSize t)))"

lemma take_drop_prefix:
  assumes "off + n \<le> l" and "take l m = take l m'"
  shows "take n (drop off m) = take n (drop off m')"
proof -
  have "take n (drop off x) = take n (drop off (take l x))" for x :: "'a list"
    using assms(1) by (simp add: drop_take min_def)
  then show ?thesis using assms(2) by metis
qed

lemma block_for_prefix:
  assumes bf: "block_for m off E ops" and l: "off + block_size m off \<le> l" "l \<le> length m" "l \<le> length m'"
    and eq: "take l m = take l m'"
  shows "block_for m' off E ops"
proof -
  from bf obtain h t es where r: "read_header m off = Some h"
      "read_tail m (off + unat (OffsetToBlockTail h)) = Some t"
      "unat (OffsetToBlockTail h) + 40 + length es \<le> unat (TailSize t)"
      "take (length es) (drop (off + unat (OffsetToBlockTail h) + 40) m) = es"
      and rest: "EncodeRIPEntries 0 0 ops = Some es" "TailRIP t = E" "unat (NumberOfRIPEntries t) = length ops"
        "OffsetToRIPEntries t = 40" "\<forall>op \<in> set ops. unat (HostEntryOffset op) < unat (TailSize t)"
    by (auto simp: block_for_def)
  have sz: "block_size m off = unat (TailSize t)" using r by (simp add: block_size_def)
  have "read_header m' off = Some h"
    using r sz l by (subst read_header_prefix [OF _ l(2,3) eq]) simp_all
  moreover have "read_tail m' (off + unat (OffsetToBlockTail h)) = Some t"
    using r sz l by (subst read_tail_prefix [OF _ l(2,3) eq]) simp_all
  moreover have "take (length es) (drop (off + unat (OffsetToBlockTail h) + 40) m') = es"
    using take_drop_prefix [OF _ eq, of "off + unat (OffsetToBlockTail h) + 40" "length es"] r sz l by simp
  ultimately show ?thesis
    using r(3) rest unfolding block_for_def by blast
qed

lemma index_ok_disjoint:
  assumes ok: "index_ok cb lim" and x: "x \<in> set (BlockOffsets cb)" and y: "y \<in> set (BlockOffsets cb)"
    and "in_block cb HostPC x" "in_block cb HostPC y"
  shows "x = y"
proof -
  from x y obtain i j where ij: "i < length (BlockOffsets cb)" "BlockOffsets cb ! i = x"
      "j < length (BlockOffsets cb)" "BlockOffsets cb ! j = y"
    by (auto simp: in_set_conv_nth)
  have *: "\<not> a < b" if "a < length (BlockOffsets cb)" "b < length (BlockOffsets cb)"
      "in_block cb HostPC (BlockOffsets cb ! a)" "in_block cb HostPC (BlockOffsets cb ! b)" for a b
    using ok that sorted_wrt_nth_less [of _ "BlockOffsets cb" a b] by (fastforce simp: index_ok_def in_block_def)
  have "i = j" using * [of i j] * [of j i] ij assms(4,5) by auto
  with ij show ?thesis by simp
qed

lemma RestoreRIP_block_for:
  assumes ok: "index_ok cb lim" and off: "off \<in> set (BlockOffsets cb)" and bf: "block_for (Mem cb) (unat off) E ops"
    and ops: "ops \<noteq> []" and pc: "in_block cb HostPC off"
  shows "RestoreRIPFromHostPC cb StateRIP HostPC = Some (GuestRIPAt E ops (HostPC - (Ptr cb + ucast off)))"
proof -
  from bf obtain h t es where r: "read_header (Mem cb) (unat off) = Some h"
      "read_tail (Mem cb) (unat off + unat (OffsetToBlockTail h)) = Some t"
      "take (length es) (drop (unat off + unat (OffsetToBlockTail h) + 40) (Mem cb)) = es"
      and rest: "EncodeRIPEntries 0 0 ops = Some es" "TailRIP t = E" "unat (NumberOfRIPEntries t) = length ops"
        "OffsetToRIPEntries t = 40" "\<forall>op \<in> set ops. unat (HostEntryOffset op) < unat (TailSize t)"
    by (auto simp: block_for_def)
  have sz: "block_size (Mem cb) (unat off) = unat (TailSize t)" using r by (simp add: block_size_def)
  then have lim: "unat (Ptr cb) + unat off + unat (TailSize t) \<le> 2 ^ 64"
    using ok off block_ok_size [of "Mem cb" lim "unat off"] by (fastforce simp: index_ok_def buffer_ok_def)
  then have start: "unat (Ptr cb + ucast off) = unat (Ptr cb) + unat off"
    using pc sz unat_less_exp [of off] by (simp add: unat_word_ariths unat_ucast_mod in_block_def)
  have found: "FindBlockHeader cb HostPC = Some (Some off)"
  proof -
    have "y = off" if "y \<in> set (BlockOffsets cb)" "in_block cb HostPC y" for y
      using index_ok_disjoint [OF ok that(1) off that(2) pc] .
    then show ?thesis
      using FindBlockHeader_find [OF ok, of HostPC] find_unique [OF off, of "in_block cb HostPC"] pc by auto
  qed
  define tab where "tab = drop (unat off + unat (OffsetToBlockTail h) + 40) (Mem cb)"
  have "tab = es @ drop (length es) tab"
    using r(3) append_take_drop_id [of "length es" tab] by (simp add: tab_def)
  then have "WalkRIPEntries (length ops) tab HostPC (Ptr cb + ucast off) E =
      Some (GuestRIPAt E ops (HostPC - (Ptr cb + ucast off)))"
    using WalkRIPEntries_table [OF rest(1), of "Ptr cb + ucast off" HostPC "drop (length es) tab" E]
      rest(5) start lim pc by (fastforce simp: word_le_nat_alt in_block_def)
  moreover have "NumberOfRIPEntries t \<noteq> 0" using rest(3) ops by auto
  ultimately show ?thesis
    using r rest by (simp add: RestoreRIPFromHostPC_def found WalkBlockRIPTable_def tab_def)
qed

subsection \<open>Histories of a code buffer\<close>

type_synonym compiled_block = "u32 \<times> u64 \<times> DebugDataGuestOpcode list"

inductive compiled :: "CodeBuffer \<Rightarrow> nat \<Rightarrow> compiled_block list \<Rightarrow> bool" where
  fresh: "buffer_ok cb \<Longrightarrow> BlockOffsets cb = [] \<Longrightarrow> compiled cb 0 []"
| block: "compiled cb L hist \<Longrightarrow> FinishBlock cb L Code Entry GuestSz Single ops = Inr (cb', L') \<Longrightarrow>
     16 \<le> length Code \<Longrightarrow> length Code mod 16 = 0 \<Longrightarrow> L' \<le> UsableSize cb \<Longrightarrow> length ops < 2 ^ 32 \<Longrightarrow>
     \<forall>op \<in> set ops. unat (HostEntryOffset op) \<le> length Code \<Longrightarrow>
     compiled cb' L' (hist @ [(of_nat L, Entry, ops)])"
| rebuild: "compiled cb L hist \<Longrightarrow> RebuildBlockIndexByWalk (cb\<lparr>BlockOffsets := junk\<rparr>) L 0 = Inr cb' \<Longrightarrow>
     compiled cb' L hist"

definition history_ok :: "CodeBuffer \<Rightarrow> nat \<Rightarrow> compiled_block list \<Rightarrow> bool" where
  "history_ok cb L hist \<longleftrightarrow> index_ok cb L \<and> tiled (Mem cb) 0 (BlockOffsets cb) L \<and>
     map fst hist = BlockOffsets cb \<and> (\<forall>(off, E, ops) \<in> set hist. block_for (Mem cb) (unat off) E ops)"

lemma history_ok_entry:
  assumes "history_ok cb L hist" and "(off, E, ops) \<in> set hist"
  shows "off \<in> set (BlockOffsets cb)" and "block_for (Mem cb) (unat off) E ops"
proof -
  from assms have "fst (off, E, ops) \<in> set (map fst hist)" by (metis image_eqI set_map)
  with assms(1) show "off \<in> set (BlockOffsets cb)" by (simp add: history_ok_def)
  from assms show "block_for (Mem cb) (unat off) E ops" by (auto simp: history_ok_def)
qed

lemma FinishBlock_cases:
  assumes "FinishBlock cb L Code E G S ops = Inr (cb', L')" and "4 \<le> length Code"
  obtains es where "EncodeRIPEntries 0 0 ops = Some es" and "L' = L + (length Code + TailAndEntriesAligned es)"
  using assms by (auto simp: FinishBlock_def Let_def split: option.splits if_splits sum.splits)

lemma history_ok_block:
  assumes hist: "history_ok cb L hist" and fin: "FinishBlock cb L Code E G S ops = Inr (cb', L')"
    and code: "16 \<le> length Code" "length Code mod 16 = 0" and fits: "L' \<le> UsableSize cb"
    and ops: "length ops < 2 ^ 32" "\<forall>op \<in> set ops. unat (HostEntryOffset op) \<le> length Code"
  shows "history_ok cb' L' (hist @ [(of_nat L, E, ops)])"
proof -
  obtain es where es: "EncodeRIPEntries 0 0 ops = Some es" and L': "L' = L + (length Code + TailAndEntriesAligned es)"
    using fin code by (auto elim: FinishBlock_cases)
  have ok: "index_ok cb L" using hist by (simp add: history_ok_def)
  from fits have fits': "L + (length Code + TailAndEntriesAligned es) \<le> UsableSize cb" by (simp add: L')
  obtain m rest where
      fb: "FinishBlock cb L Code E G S ops = Inr (cb\<lparr>Mem := m, BlockOffsets := BlockOffsets cb @ [of_nat L]\<rparr>, L')"
      and ok': "index_ok (cb\<lparr>Mem := m, BlockOffsets := BlockOffsets cb @ [of_nat L]\<rparr>) L'"
      and m: "take L m = take L (Mem cb)" "length m = length (Mem cb)"
      and hd: "read_header m L = Some \<lparr>OffsetToBlockTail = of_nat (length Code)\<rparr>"
      and tl: "read_tail m (L + length Code) = Some (MakeTail (length Code + TailAndEntriesAligned es) E G S (length ops))"
      and tab: "drop (L + length Code + 40) m = es @ rest" and sz: "block_size m L = length Code + TailAndEntriesAligned es"
    using FinishBlock_ok [OF ok es code fits', of E G S] unfolding L' by metis
  have cb': "cb' = cb\<lparr>Mem := m, BlockOffsets := BlockOffsets cb @ [of_nat L]\<rparr>" using fb fin by simp
  have small: "L' \<le> 2 ^ 32" and len: "L \<le> length (Mem cb)"
    using ok fits by (auto simp: index_ok_def buffer_ok_def)
  have uL: "unat (of_nat L :: u32) = L" and uC: "unat (of_nat (length Code) :: u32) = length Code"
    and uS: "unat (of_nat (length Code + TailAndEntriesAligned es) :: u64) = length Code + TailAndEntriesAligned es"
    and uN: "unat (of_nat (length ops) :: u32) = length ops"
    using small code ops TailAndEntriesAligned_bounds(1) [of es] by (simp_all add: L' unat_of_nat del: of_nat_add)
  have "tiled m 0 (BlockOffsets cb @ [of_nat L]) (L + block_size m L)"
    using hist index_ok_write(2) [OF ok m(2,1)] uL by (intro tiled_snoc) (auto simp: history_ok_def intro: tiled_cong)
  moreover have "block_for m L E ops"
    using hd tl es tab ops(2) uS TailAndEntriesAligned_bounds [of es] code
    by (auto simp: block_for_def uC uN MakeTail_def sizeof_JITCodeTail_def simp del: of_nat_add)
  moreover have "\<forall>(off, E', ops') \<in> set hist. block_for m (unat off) E' ops'"
  proof clarify
    fix off E' ops' assume "(off, E', ops') \<in> set hist"
    note e = history_ok_entry [OF hist this]
    from e(1) have "unat off + block_size (Mem cb) (unat off) \<le> L"
      using index_ok_ends_by [OF ok] by (simp add: ends_by_def)
    from block_for_prefix [OF e(2) this] show "block_for m (unat off) E' ops'"
      using len m by simp
  qed
  moreover have "map fst (hist @ [(of_nat L, E, ops)]) = BlockOffsets cb'"
    using hist by (simp add: history_ok_def cb')
  ultimately show ?thesis
    using ok' unfolding history_ok_def by (simp add: cb' uL sz L' ball_Un case_prod_unfold)
qed

lemma compiled_history_ok: "compiled cb L hist \<Longrightarrow> history_ok cb L hist"
proof (induction rule: compiled.induct)
  case (fresh cb)
  then show ?case by (simp add: history_ok_def index_ok_def)
next
  case (block cb L hist Code Entry GuestSz Single ops cb' L')
  then show ?case by (intro history_ok_block)
next
  case (rebuild cb L hist junk cb')
  then have "cb' = cb" using RebuildBlockIndexByWalk_tiled [of cb L junk] by (auto simp: history_ok_def)
  with rebuild show ?case by simp
qed

subsection \<open>Guest RIP recovery\<close>

definition demo_opcodes :: "DebugDataGuestOpcode list" where
  "demo_opcodes = [\<lparr>GuestEntryOffset = 0, HostEntryOffset = 4\<rparr>, \<lparr>GuestEntryOffset = 3, HostEntryOffset = 12\<rparr>]"

lemma demo_buffer_fresh: "compiled demo_buffer 0 []"
  using demo_buffer_ok(1) by (intro compiled.fresh) (simp_all add: index_ok_def demo_buffer_def)

lemma demo_entries:
  obtains es where "EncodeRIPEntries 0 0 demo_opcodes = Some es" and "length es = 3"
proof -
  have "vl64pair_EncodedSize 4 0 = 2" "vl64pair_EncodedSize 8 3 = 1"
    by (simp_all add: vl64pair_EncodedSize_def can_encode_vl8_def can_encode_vl16_def vlpair_consts Let_def)
  then show thesis
    by (intro that [of "vl64pair_Encode 4 0 @ vl64pair_Encode 8 3"])
      (simp_all add: demo_opcodes_def Let_def length_vl64pair_Encode)
qed

lemma demo_compiled:
  obtains cb where "compiled cb 64 [(0, 0x400000, demo_opcodes)]" and "in_block cb 0x1000D 0" and "Ptr cb = 0x10000"
    and "BlockOffsets cb = [0]"
proof -
  obtain es where es: "EncodeRIPEntries 0 0 demo_opcodes = Some es" "length es = 3" by (rule demo_entries)
  then have al: "TailAndEntriesAligned es = 48" by (simp add: TailAndEntriesAligned_def sizeof_JITCodeTail_def)
  obtain m where fb: "FinishBlock demo_buffer 0 (replicate 16 0) 0x400000 7 False demo_opcodes =
        Inr (demo_buffer\<lparr>Mem := m, BlockOffsets := BlockOffsets demo_buffer @ [of_nat 0]\<rparr>, 0 + (16 + 48))"
      and sz: "block_size m 0 = 64"
    using FinishBlock_ok [OF demo_buffer_ok(1) es(1), of "replicate 16 0" "0x400000" 7 False] demo_buffer_ok(2)
    by (auto simp: al)
  let ?cb = "demo_buffer\<lparr>Mem := m, BlockOffsets := BlockOffsets demo_buffer @ [of_nat 0]\<rparr>"
  have "compiled ?cb 64 [(0, 0x400000, demo_opcodes)]"
    using compiled.block [OF demo_buffer_fresh fb] demo_buffer_ok(2) by (simp add: demo_opcodes_def)
  then show thesis
    by (rule that) (simp_all add: in_block_def sz demo_buffer_def)
qed

text \<open>
  C4: after any history of compiled blocks and index rebuilds, a host PC inside a block that has a RIP
  table is mapped to the guest RIP of the last guest instruction that starts at or before it, and the
  reconstruction never reads outside the buffer.
\<close>

theorem RestoreRIP_compiled:
  assumes "compiled cb L hist" and "(off, Entry, ops) \<in> set hist" and "ops \<noteq> []" and "in_block cb HostPC off"
  shows "RestoreRIPFromHostPC cb StateRIP HostPC = Some (GuestRIPAt Entry ops (HostPC - (Ptr cb + ucast off)))"
proof -
  have hist: "history_ok cb L hist" using assms(1) by (rule compiled_history_ok)
  then have "index_ok cb L" by (simp add: history_ok_def)
  from RestoreRIP_block_for [OF this history_ok_entry [OF hist assms(2)] assms(3,4)] show ?thesis .
qed

theorem RestoreRIP_compiled_witness:
  "\<exists>cb. compiled cb 64 [(0, 0x400000, demo_opcodes)] \<and>
     RestoreRIPFromHostPC cb 0 0x1000D = Some 0x400003"
proof -
  obtain cb where cb: "compiled cb 64 [(0, 0x400000, demo_opcodes)]" "in_block cb 0x1000D 0" "Ptr cb = 0x10000"
    by (rule demo_compiled)
  have "demo_opcodes \<noteq> []" by (simp add: demo_opcodes_def)
  from RestoreRIP_compiled [OF cb(1) _ this cb(2), of "0x400000" 0] cb show ?thesis
    by (auto simp: GuestRIPAt_def demo_opcodes_def)
qed

text \<open>
  A host PC that lies in no compiled block (the dispatcher, a stub in the free tail of the buffer,
  C++ code) is answered with the RIP stored in the frame.
\<close>

lemma RestoreRIP_outside:
  assumes "compiled cb L hist" and "\<forall>(off, Entry, ops) \<in> set hist. \<not> in_block cb HostPC off"
  shows "RestoreRIPFromHostPC cb StateRIP HostPC = Some StateRIP"
proof -
  have hist: "history_ok cb L hist" using assms(1) by (rule compiled_history_ok)
  then have offs: "BlockOffsets cb = map fst hist" by (simp add: history_ok_def)
  have "find (in_block cb HostPC) (BlockOffsets cb) = None"
    using assms(2) by (auto simp: find_None_iff offs)
  then show ?thesis
    using hist FindBlockHeader_find [of cb L HostPC] by (simp add: history_ok_def RestoreRIPFromHostPC_def)
qed

text \<open>
  C8: finishing a block succeeds whenever its opcodes are recorded in ascending host order and the block
  fits the buffer: neither fatal check of \<open>AppendBlock\<close> (an offset that goes backwards, a full index) can
  fire after any history, because every block takes at least 64 bytes.
\<close>

theorem FinishBlock_succeeds:
  assumes "compiled cb L hist" and "EncodeRIPEntries 0 0 ops = Some es"
    and "16 \<le> length Code" and "length Code mod 16 = 0"
    and "L + (length Code + TailAndEntriesAligned es) \<le> UsableSize cb"
  shows "\<exists>cb'. FinishBlock cb L Code Entry GuestSz Single ops = Inr (cb', L + (length Code + TailAndEntriesAligned es)) \<and>
           BlockOffsets cb' = BlockOffsets cb @ [of_nat L]"
proof -
  have "index_ok cb L" using compiled_history_ok [OF assms(1)] by (simp add: history_ok_def)
  then obtain m where "FinishBlock cb L Code Entry GuestSz Single ops =
      Inr (cb\<lparr>Mem := m, BlockOffsets := BlockOffsets cb @ [of_nat L]\<rparr>, L + (length Code + TailAndEntriesAligned es))"
    by (rule FinishBlock_ok [OF _ assms(2-5)])
  then show ?thesis by simp
qed

theorem FinishBlock_succeeds_witness:
  "\<exists>cb'. FinishBlock demo_buffer 0 (replicate 16 0) 0x400000 7 False [] = Inr (cb', 64)"
  using FinishBlock_succeeds [OF demo_buffer_fresh, of "[]" "[]" "replicate 16 0" "0x400000" 7 False]
  by (auto simp: TailAndEntriesAligned_def sizeof_JITCodeTail_def demo_buffer_ok(2))

text \<open>
  C7: walking the bytes of a buffer filled by the compiler reconstructs exactly the index the compiler
  had appended to, whatever the index held before the walk.
\<close>

theorem RebuildBlockIndexByWalk_compiled:
  assumes "compiled cb L hist"
  shows "RebuildBlockIndexByWalk (cb\<lparr>BlockOffsets := junk\<rparr>) L 0 = Inr cb"
  using compiled_history_ok [OF assms] by (intro RebuildBlockIndexByWalk_tiled) (simp_all add: history_ok_def)

theorem RebuildBlockIndexByWalk_compiled_witness:
  "\<exists>cb. BlockOffsets cb = [0] \<and> RebuildBlockIndexByWalk (cb\<lparr>BlockOffsets := []\<rparr>) 64 0 = Inr cb"
proof -
  obtain cb where cb: "compiled cb 64 [(0, 0x400000, demo_opcodes)]" "BlockOffsets cb = [0]"
    by (rule demo_compiled)
  from RebuildBlockIndexByWalk_compiled [OF cb(1), of "[]"] cb(2) show ?thesis by auto
qed

end
