(* ===== verification/Eflags.thy ===== *)
theory Eflags
  imports Fex_Prelude
begin

text \<open>
  The x86 flags in the emulator's split representation and the compacted EFLAGS word of signal frames and
  system calls: \<open>ContextImpl::ReconstructCompactedEFLAGS\<close> and \<open>SetFlagsFromCompactedEFLAGS\<close> of
  \<open>Core.cpp\<close>.  \<open>flags\<close> is the byte array of \<open>CPUState\<close> as a function of the index (only constant indices below
  its 48 elements are used); SF, ZF, CF (inverted) and OF live in the packed word in bytes 24 to 27.
\<close>

subsection \<open>State and bit positions\<close>

record CPUState =
  flags :: "nat \<Rightarrow> u8"
  pf_raw :: u32
  af_raw :: u32

abbreviation (input) RFLAG_CF_RAW_LOC :: nat where "RFLAG_CF_RAW_LOC \<equiv> 0"
abbreviation (input) RFLAG_RESERVED_LOC :: nat where "RFLAG_RESERVED_LOC \<equiv> 1"
abbreviation (input) RFLAG_PF_RAW_LOC :: nat where "RFLAG_PF_RAW_LOC \<equiv> 2"
abbreviation (input) RFLAG_AF_RAW_LOC :: nat where "RFLAG_AF_RAW_LOC \<equiv> 4"
abbreviation (input) RFLAG_ZF_RAW_LOC :: nat where "RFLAG_ZF_RAW_LOC \<equiv> 6"
abbreviation (input) RFLAG_SF_RAW_LOC :: nat where "RFLAG_SF_RAW_LOC \<equiv> 7"
abbreviation (input) RFLAG_TF_RAW_LOC :: nat where "RFLAG_TF_RAW_LOC \<equiv> 8"
abbreviation (input) RFLAG_IF_LOC :: nat where "RFLAG_IF_LOC \<equiv> 9"
abbreviation (input) RFLAG_DF_RAW_LOC :: nat where "RFLAG_DF_RAW_LOC \<equiv> 10"
abbreviation (input) RFLAG_OF_RAW_LOC :: nat where "RFLAG_OF_RAW_LOC \<equiv> 11"
abbreviation (input) RFLAG_NZCV_LOC :: nat where "RFLAG_NZCV_LOC \<equiv> 24"
abbreviation (input) NUM_EFLAG_BITS :: nat where "NUM_EFLAG_BITS \<equiv> 32"

text \<open>\<open>IndexNZCV\<close> on the four positions it is defined for.\<close>

definition IndexNZCV :: "nat \<Rightarrow> nat" where
  "IndexNZCV BitOffset =
     (if BitOffset = RFLAG_OF_RAW_LOC then 28 else if BitOffset = RFLAG_CF_RAW_LOC then 29
      else if BitOffset = RFLAG_ZF_RAW_LOC then 30 else 31)"

subsection \<open>Reading\<close>

definition compacted_elsewhere :: "nat list" where
  "compacted_elsewhere = [RFLAG_CF_RAW_LOC, RFLAG_PF_RAW_LOC, RFLAG_AF_RAW_LOC, RFLAG_TF_RAW_LOC,
     RFLAG_ZF_RAW_LOC, RFLAG_SF_RAW_LOC, RFLAG_OF_RAW_LOC, RFLAG_DF_RAW_LOC]"

definition read_plain_flags :: "(nat \<Rightarrow> u8) \<Rightarrow> u32" where
  "read_plain_flags fl =
     foldl (\<lambda>E i. if i \<in> set compacted_elsewhere then E else E OR push_bit i (ucast (fl i)))
       0 [0..<NUM_EFLAG_BITS]"

definition assemble_EFLAGS :: "u32 \<Rightarrow> u32 \<Rightarrow> CPUState \<Rightarrow> u32" where
  "assemble_EFLAGS EFLAGS Packed_NZCV st =
     (let OF = drop_bit (IndexNZCV RFLAG_OF_RAW_LOC) Packed_NZCV AND 1;
          CF = drop_bit (IndexNZCV RFLAG_CF_RAW_LOC) Packed_NZCV AND 1;
          ZF = drop_bit (IndexNZCV RFLAG_ZF_RAW_LOC) Packed_NZCV AND 1;
          SF = drop_bit (IndexNZCV RFLAG_SF_RAW_LOC) Packed_NZCV AND 1;
          CF = CF XOR 1;
          EFLAGS = EFLAGS OR push_bit RFLAG_OF_RAW_LOC OF;
          EFLAGS = EFLAGS OR push_bit RFLAG_CF_RAW_LOC CF;
          EFLAGS = EFLAGS OR push_bit RFLAG_ZF_RAW_LOC ZF;
          EFLAGS = EFLAGS OR push_bit RFLAG_SF_RAW_LOC SF;
          PFByte = pf_raw st AND 0xff;
          PF = (of_nat (popcount (PFByte XOR 1)) AND 1 :: u32);
          EFLAGS = EFLAGS OR push_bit RFLAG_PF_RAW_LOC PF;
          AF = (if (af_raw st XOR PFByte) AND push_bit 4 1 \<noteq> 0 then 1 else 0);
          EFLAGS = EFLAGS OR push_bit RFLAG_AF_RAW_LOC AF;
          TFByte = flags st RFLAG_TF_RAW_LOC;
          EFLAGS = EFLAGS OR push_bit RFLAG_TF_RAW_LOC (ucast (TFByte AND 1));
          DFByte = flags st RFLAG_DF_RAW_LOC
      in if DFByte AND 0x80 \<noteq> 0 then EFLAGS OR push_bit RFLAG_DF_RAW_LOC 1 else EFLAGS)"

definition ReconstructCompactedEFLAGS :: "CPUState \<Rightarrow> bool \<Rightarrow> u64 \<Rightarrow> u64 \<Rightarrow> u64 \<Rightarrow> u32 \<times> CPUState" where
  "ReconstructCompactedEFLAGS st WasInJIT HostPF HostAF PSTATE =
     (let EFLAGS = read_plain_flags (flags st) in
      if WasInJIT then
        let Packed_NZCV = ucast PSTATE;
            st = st\<lparr>pf_raw := ucast HostPF, af_raw := ucast HostAF\<rparr>
        in (assemble_EFLAGS EFLAGS Packed_NZCV st, st)
      else
        let Packed_NZCV = le_word (map (flags st) [RFLAG_NZCV_LOC..<RFLAG_NZCV_LOC + 4])
        in (assemble_EFLAGS EFLAGS Packed_NZCV st, st))"

subsection \<open>Writing\<close>

definition set_flag_from :: "u32 \<Rightarrow> CPUState \<Rightarrow> nat \<Rightarrow> CPUState" where
  "set_flag_from EFLAGS st i =
     (let on = (EFLAGS AND push_bit i 1 \<noteq> 0) in
      if i = RFLAG_OF_RAW_LOC \<or> i = RFLAG_CF_RAW_LOC \<or> i = RFLAG_ZF_RAW_LOC \<or> i = RFLAG_SF_RAW_LOC then st
      else if i = RFLAG_AF_RAW_LOC then st\<lparr>af_raw := if on then push_bit 4 1 else 0\<rparr>
      else if i = RFLAG_PF_RAW_LOC then st\<lparr>pf_raw := if on then 0 else 1\<rparr>
      else if i = RFLAG_DF_RAW_LOC then st\<lparr>flags := (flags st)(i := if on then 0xff else 1)\<rparr>
      else st\<lparr>flags := (flags st)(i := if on then 1 else 0)\<rparr>)"

definition pack_NZCV :: "u32 \<Rightarrow> u32" where
  "pack_NZCV EFLAGS =
     (0 OR (if EFLAGS AND push_bit RFLAG_OF_RAW_LOC 1 \<noteq> 0 then push_bit (IndexNZCV RFLAG_OF_RAW_LOC) 1 else 0)) OR
     (if EFLAGS AND push_bit RFLAG_CF_RAW_LOC 1 \<noteq> 0 then 0 else push_bit (IndexNZCV RFLAG_CF_RAW_LOC) 1) OR
     (if EFLAGS AND push_bit RFLAG_ZF_RAW_LOC 1 \<noteq> 0 then push_bit (IndexNZCV RFLAG_ZF_RAW_LOC) 1 else 0) OR
     (if EFLAGS AND push_bit RFLAG_SF_RAW_LOC 1 \<noteq> 0 then push_bit (IndexNZCV RFLAG_SF_RAW_LOC) 1 else 0)"

definition write_bytes :: "nat \<Rightarrow> u8 list \<Rightarrow> (nat \<Rightarrow> u8) \<Rightarrow> (nat \<Rightarrow> u8)" where
  "write_bytes at bs fl = (\<lambda>i. if at \<le> i \<and> i < at + length bs then bs ! (i - at) else fl i)"

definition SetFlagsFromCompactedEFLAGS :: "CPUState \<Rightarrow> u32 \<Rightarrow> CPUState" where
  "SetFlagsFromCompactedEFLAGS st EFLAGS =
     (let st = foldl (set_flag_from EFLAGS) st [0..<NUM_EFLAG_BITS];
          st = st\<lparr>flags := write_bytes RFLAG_NZCV_LOC (le_bytes 4 (pack_NZCV EFLAGS)) (flags st)\<rparr>;
          st = st\<lparr>flags := (flags st)(RFLAG_RESERVED_LOC := 1)\<rparr>
      in st\<lparr>flags := (flags st)(RFLAG_IF_LOC := 1)\<rparr>)"

subsection \<open>Bitwise characterisation\<close>

lemma and_push_bit_1: "(w :: 'a::len word) AND push_bit i 1 \<noteq> 0 \<longleftrightarrow> bit w i"
  by (metis and_exp_eq_0_iff_not_bit push_bit_of_1)

lemma bit_read_plain_flags_upto:
  "bit (foldl (\<lambda>E i. if i \<in> set compacted_elsewhere then E else E OR push_bit i (ucast (fl i :: u8) :: u32)) 0 [0..<k]) n \<longleftrightarrow>
     (\<exists>i < k. i \<notin> set compacted_elsewhere \<and> i \<le> n \<and> n < 32 \<and> bit (fl i) (n - i))"
  by (induction k) (auto simp: bit_or_iff bit_push_bit_iff bit_unsigned_iff less_Suc_eq dest: bit_imp_le_length)

lemma bit_read_plain_flags:
  "bit (read_plain_flags fl) n \<longleftrightarrow>
     (\<exists>i < 32. i \<notin> set compacted_elsewhere \<and> i \<le> n \<and> n < 32 \<and> bit (fl i) (n - i))"
  unfolding read_plain_flags_def by (rule bit_read_plain_flags_upto)

definition flag_byte :: "u32 \<Rightarrow> nat \<Rightarrow> u8" where
  "flag_byte E k = (if k = 10 then if bit E k then 0xff else 1 else if bit E k then 1 else 0)"

definition no_byte :: "nat set" where "no_byte = {0, 2, 4, 6, 7, 11}"

lemma set_flag_from_sel:
  "flags (set_flag_from E s k) = (if k \<in> no_byte then flags s else (flags s)(k := flag_byte E k))"
  "pf_raw (set_flag_from E s k) = (if k = 2 then if bit E 2 then 0 else 1 else pf_raw s)"
  "af_raw (set_flag_from E s k) = (if k = 4 then if bit E 4 then 16 else 0 else af_raw s)"
  unfolding set_flag_from_def Let_def and_push_bit_1 flag_byte_def no_byte_def by simp_all

lemma foldl_set_flag_from:
  "flags (foldl (set_flag_from E) st [0..<k]) i = (if i < k \<and> i \<notin> no_byte then flag_byte E i else flags st i)"
  "pf_raw (foldl (set_flag_from E) st [0..<k]) = (if 2 < k then if bit E 2 then 0 else 1 else pf_raw st)"
  "af_raw (foldl (set_flag_from E) st [0..<k]) = (if 4 < k then if bit E 4 then 16 else 0 else af_raw st)"
  by (induction k) (auto simp: set_flag_from_sel less_Suc_eq)

lemma SetFlags_plain:
  assumes "i < 32"
  shows "flags (SetFlagsFromCompactedEFLAGS st E) i =
    (if i = 1 \<or> i = 9 then 1 else if 24 \<le> i \<and> i < 28 then le_bytes 4 (pack_NZCV E) ! (i - 24)
     else if i \<in> no_byte then flags st i else flag_byte E i)"
  using assms by (simp add: SetFlagsFromCompactedEFLAGS_def Let_def write_bytes_def foldl_set_flag_from del: upt_rec_numeral)

lemma SetFlags_raw:
  "pf_raw (SetFlagsFromCompactedEFLAGS st E) = (if bit E 2 then 0 else 1)"
  "af_raw (SetFlagsFromCompactedEFLAGS st E) = (if bit E 4 then 16 else 0)"
  by (simp_all add: SetFlagsFromCompactedEFLAGS_def Let_def foldl_set_flag_from del: upt_rec_numeral)

lemma SetFlags_NZCV:
  "le_word (map (flags (SetFlagsFromCompactedEFLAGS st E)) [24..<28]) = pack_NZCV E"
proof -
  have "map (flags (SetFlagsFromCompactedEFLAGS st E)) [24..<28] = le_bytes 4 (pack_NZCV E)"
    by (rule nth_equalityI) (simp_all add: SetFlags_plain del: upt_rec_numeral)
  then show ?thesis by simp
qed

lemma bit_if_push_bit_1:
  "bit (if b then push_bit i 1 else 0 :: 'a::len word) n \<longleftrightarrow> b \<and> n = i \<and> i < LENGTH('a)"
  "bit (if b then 0 else push_bit i 1 :: 'a::len word) n \<longleftrightarrow> \<not> b \<and> n = i \<and> i < LENGTH('a)"
  by (auto simp: bit_exp_iff)

lemma bit_pack_NZCV:
  "bit (pack_NZCV E) n \<longleftrightarrow> n = 28 \<and> bit E 11 \<or> n = 29 \<and> \<not> bit E 0 \<or> n = 30 \<and> bit E 6 \<or> n = 31 \<and> bit E 7"
  unfolding pack_NZCV_def and_push_bit_1 bit_or_iff bit_if_push_bit_1 by (auto simp: IndexNZCV_def)

lemma bit_le_bytes:
  "i < k \<Longrightarrow> bit (le_bytes k w ! i) j \<longleftrightarrow> j < 8 \<and> bit w (8 * i + j)"
  by (auto simp: le_bytes_def bit_unsigned_iff bit_drop_bit_eq)


lemma bit_SetFlags_plain:
  assumes "i < 32" and "i \<notin> set compacted_elsewhere" and "j < 32 - i"
  shows "bit (flags (SetFlagsFromCompactedEFLAGS st E) i) j \<longleftrightarrow>
     (j = 0 \<and> (i = 1 \<or> i = 9 \<or> (i < 24 \<or> 28 \<le> i) \<and> bit E i)) \<or> (i = 27 \<and> j = 4 \<and> bit E 11)"
proof (cases "24 \<le> i \<and> i < 28")
  case True
  with assms show ?thesis by (auto simp: SetFlags_plain bit_le_bytes bit_pack_NZCV)
next
  case False
  with assms have "flags (SetFlagsFromCompactedEFLAGS st E) i = (if i = 1 \<or> i = 9 \<or> bit E i then 1 else 0)"
    by (auto simp: SetFlags_plain compacted_elsewhere_def no_byte_def flag_byte_def)
  with False show ?thesis by (auto simp: bit_1_iff)
qed


lemma bit_push_1:
  fixes x :: u32
  assumes "i < 32"
  shows "bit (push_bit i (x AND 1)) n \<longleftrightarrow> n = i \<and> bit x 0"
    and "bit (push_bit i (ucast (y AND 1 :: u8) :: u32)) n \<longleftrightarrow> n = i \<and> bit y 0"
    and "bit (push_bit i (x AND 1 XOR 1)) n \<longleftrightarrow> n = i \<and> \<not> bit x 0"
    and "bit (push_bit i (if b then 1 else 0 :: u32)) n \<longleftrightarrow> n = i \<and> b"
    and "bit (push_bit i (1 :: u32)) n \<longleftrightarrow> n = i"
  unfolding bit_push_bit_iff bit_and_iff bit_xor_iff bit_unsigned_iff using assms
  by (auto simp: bit_1_iff)

lemma bit_assemble_EFLAGS:
  "bit (assemble_EFLAGS E P st) n \<longleftrightarrow>
     bit E n \<or> n = 11 \<and> bit P 28 \<or> n = 0 \<and> \<not> bit P 29 \<or> n = 6 \<and> bit P 30 \<or>
     n = 7 \<and> bit P 31 \<or> n = 2 \<and> odd (popcount (pf_raw st AND 0xff XOR 1)) \<or>
     n = 4 \<and> bit (af_raw st XOR (pf_raw st AND 0xff)) 4 \<or> n = 8 \<and> bit (flags st 8) 0 \<or> n = 10 \<and> bit (flags st 10) 7"
proof -
  have df: "flags st 10 AND 0x80 \<noteq> 0 \<longleftrightarrow> bit (flags st 10) 7"
    using and_push_bit_1 [of "flags st 10" 7] by (simp add: push_bit_eq_mult)
  have od: "bit (of_nat k :: u32) 0 \<longleftrightarrow> odd k" for k by (simp add: bit_0)
  have ix: "IndexNZCV 11 = 28" "IndexNZCV 0 = 29" "IndexNZCV 6 = 30" "IndexNZCV 7 = 31"
    by (simp_all add: IndexNZCV_def)
  have lt: "(11::nat) < 32" "(0::nat) < 32" "(6::nat) < 32" "(7::nat) < 32" "(2::nat) < 32" "(4::nat) < 32"
      "(8::nat) < 32" "(10::nat) < 32" by simp_all
  have "bit (assemble_EFLAGS E P st) n \<longleftrightarrow>
     bit E n \<or> n = 11 \<and> bit P (28 + 0) \<or> n = 0 \<and> \<not> bit P (29 + 0) \<or> n = 6 \<and> bit P (30 + 0) \<or>
     n = 7 \<and> bit P (31 + 0) \<or> n = 2 \<and> odd (popcount (pf_raw st AND 0xff XOR 1)) \<or>
     n = 4 \<and> bit (af_raw st XOR (pf_raw st AND 0xff)) 4 \<or> n = 8 \<and> bit (flags st 8) 0 \<or> n = 10 \<and> bit (flags st 10) 7"
    unfolding assemble_EFLAGS_def Let_def df and_push_bit_1 ix
    by (cases "bit (flags st 10) 7")
      (simp_all only: if_True if_False bit_or_iff bit_push_1 lt bit_drop_bit_eq o_apply od HOL.simp_thms disj_assoc)
  then show ?thesis by simp
qed


lemma bit_read_SetFlags:
  "bit (read_plain_flags (flags (SetFlagsFromCompactedEFLAGS st E))) n \<longleftrightarrow>
     n = 1 \<or> n = 9 \<or> n < 32 \<and> n \<notin> set compacted_elsewhere \<and> (n < 24 \<or> 28 \<le> n) \<and> bit E n \<or> n = 31 \<and> bit E 11"
proof -
  have "bit (read_plain_flags (flags (SetFlagsFromCompactedEFLAGS st E))) n \<longleftrightarrow>
      (\<exists>i < 32. i \<notin> set compacted_elsewhere \<and> i \<le> n \<and> n < 32 \<and>
        (n - i = 0 \<and> (i = 1 \<or> i = 9 \<or> (i < 24 \<or> 28 \<le> i) \<and> bit E i) \<or> i = 27 \<and> n - i = 4 \<and> bit E 11))"
    unfolding bit_read_plain_flags by (intro ex_cong1) (auto simp: bit_SetFlags_plain)
  also have "\<dots> \<longleftrightarrow> (\<exists>i < 32. i \<notin> set compacted_elsewhere \<and>
        (i = n \<and> (i = 1 \<or> i = 9 \<or> (i < 24 \<or> 28 \<le> i) \<and> bit E i) \<or> i = 27 \<and> n = 31 \<and> bit E 11))"
    by (intro ex_cong1) auto
  also have "\<dots> \<longleftrightarrow> n = 1 \<or> n = 9 \<or> n < 32 \<and> n \<notin> set compacted_elsewhere \<and> (n < 24 \<or> 28 \<le> n) \<and> bit E n \<or> n = 31 \<and> bit E 11"
    by (auto simp: compacted_elsewhere_def intro: exI [of _ "27 :: nat"])
  finally show ?thesis .
qed

lemma popcount_pf: "odd (popcount ((if b then 0 else 1 :: u32) AND 0xff XOR 1)) \<longleftrightarrow> b"
proof -
  have "popcount (1 :: u32) = 1" "popcount (0 :: u32) = 0"
    by code_simp+
  then show ?thesis by simp
qed

lemma eflags_masks:
  "bit (0x202 :: u32) n \<longleftrightarrow> n = 1 \<or> n = 9"
  "bit (0x0F000000 :: u32) n \<longleftrightarrow> 24 \<le> n \<and> n < 28"
  "bit (0x80000000 :: u32) n \<longleftrightarrow> n = 31"
proof -
  have reserved: "(0x202 :: u32) = push_bit 1 1 OR push_bit 9 1"
    and nzcv: "(0x0F000000 :: u32) = push_bit 24 (mask 4)" and top: "(0x80000000 :: u32) = push_bit 31 1"
    by (simp_all add: mask_eq_exp_minus_1)
  have lt: "(1::nat) < 32" "(9::nat) < 32" "(31::nat) < 32" by simp_all
  show "bit (0x202 :: u32) n \<longleftrightarrow> n = 1 \<or> n = 9"
    unfolding reserved bit_or_iff by (simp only: bit_push_1(5) lt)
  show "bit (0x0F000000 :: u32) n \<longleftrightarrow> 24 \<le> n \<and> n < 28"
    unfolding nzcv bit_push_bit_iff bit_mask_iff by auto
  show "bit (0x80000000 :: u32) n \<longleftrightarrow> n = 31"
    unfolding top by (simp only: bit_push_1(5) lt)
qed

subsection \<open>Properties\<close>

text \<open>
  C16: reading back an EFLAGS value that was written (outside the JIT) gives the value with the two fixed
  bits set (reserved bit 1, IF) and the four bits whose bytes hold the packed NZCV word cleared, and
  with bit 31 set whenever OF was set: the loop over the plain flags also adds the packed NZCV bytes,
  and the OF bit of the last one lands in bit 31.
\<close>

theorem EFLAGS_written_then_read:
  "fst (ReconstructCompactedEFLAGS (SetFlagsFromCompactedEFLAGS st E) False HostPF HostAF PSTATE) =
     (E AND NOT 0x0F000000) OR 0x202 OR (if bit E 11 then 0x80000000 else 0)"
proof (rule bit_word_eqI)
  fix n :: nat assume "n < LENGTH(32)"
  then have n: "n < 32" by simp
  let ?st = "SetFlagsFromCompactedEFLAGS st E"
  have four: "[24..<24 + 4] = [24..<28::nat]" by simp
  have "bit (fst (ReconstructCompactedEFLAGS ?st False HostPF HostAF PSTATE)) n \<longleftrightarrow>
      bit (assemble_EFLAGS (read_plain_flags (flags ?st)) (pack_NZCV E) ?st) n"
    unfolding ReconstructCompactedEFLAGS_def Let_def four SetFlags_NZCV by simp
  also have "\<dots> \<longleftrightarrow> n = 1 \<or> n = 9 \<or> (n < 24 \<or> 28 \<le> n) \<and> bit E n \<or> n = 31 \<and> bit E 11"
  proof -
    have af: "bit ((if bit E 4 then 16 else 0) XOR ((if bit E 2 then 0 else 1 :: u32) AND 0xff)) 4 \<longleftrightarrow> bit E 4"
      by simp
    have tf: "bit (flags ?st 8) 0 \<longleftrightarrow> bit E 8" and df: "bit (flags ?st 10) 7 \<longleftrightarrow> bit E 10"
      by (simp_all add: SetFlags_plain no_byte_def flag_byte_def bit_1_iff)
    show ?thesis
      unfolding bit_assemble_EFLAGS bit_read_SetFlags SetFlags_raw popcount_pf af tf df bit_pack_NZCV
      using n by (auto simp: compacted_elsewhere_def)
  qed
  also have "\<dots> \<longleftrightarrow> bit ((E AND NOT 0x0F000000) OR 0x202 OR (if bit E 11 then 0x80000000 else 0)) n"
    by (cases "bit E 11"; simp only: if_True if_False bit_or_iff bit_and_iff bit_not_iff eflags_masks; use n in auto)
  finally show "bit (fst (ReconstructCompactedEFLAGS ?st False HostPF HostAF PSTATE)) n \<longleftrightarrow>
      bit ((E AND NOT 0x0F000000) OR 0x202 OR (if bit E 11 then 0x80000000 else 0)) n" .
qed

text \<open>
  C17: a signal that arrives in JIT code sees the arithmetic flags of the host state: CF (inverted), ZF,
  SF and OF come from the packed NZCV of the processor state, AF and PF from the two host registers that
  hold their raw values, provided the single-bit flags below hold 0 or 1; the raw PF and AF are saved
  to the frame.
\<close>

theorem EFLAGS_in_JIT:
  assumes "\<forall>i < 12. i \<notin> set compacted_elsewhere \<longrightarrow> flags st i = 0 \<or> flags st i = 1"
    and "ReconstructCompactedEFLAGS st True HostPF HostAF PSTATE = (E, st')"
  shows "(bit E 0 \<longleftrightarrow> \<not> bit PSTATE 29) \<and> (bit E 6 \<longleftrightarrow> bit PSTATE 30) \<and> (bit E 7 \<longleftrightarrow> bit PSTATE 31) \<and>
    (bit E 11 \<longleftrightarrow> bit PSTATE 28) \<and> (bit E 4 \<longleftrightarrow> (bit HostAF 4 \<noteq> bit HostPF 4)) \<and>
    (bit E 2 \<longleftrightarrow> odd (popcount ((ucast HostPF :: u32) AND 0xff XOR 1))) \<and>
    pf_raw st' = ucast HostPF \<and> af_raw st' = ucast HostAF \<and> flags st' = flags st"
proof -
  let ?s = "st\<lparr>pf_raw := ucast HostPF, af_raw := ucast HostAF\<rparr>"
  have E: "E = assemble_EFLAGS (read_plain_flags (flags st)) (ucast PSTATE) ?s" and st': "st' = ?s"
    using assms(2) unfolding ReconstructCompactedEFLAGS_def Let_def by auto
  have plain: "\<not> bit (read_plain_flags (flags st)) n" if "n < 12" "n \<in> set compacted_elsewhere" for n
  proof
    assume "bit (read_plain_flags (flags st)) n"
    then obtain i where i: "i \<notin> set compacted_elsewhere" "i \<le> n" "bit (flags st i) (n - i)"
      by (auto simp: bit_read_plain_flags)
    moreover have "flags st i = 0 \<or> flags st i = 1"
      using assms(1) i that(1) by (meson order_le_less_trans)
    ultimately have "flags st i = 1" by auto
    with i have "n = i" by (simp add: bit_1_iff)
    with i that(2) show False by simp
  qed
  have p: "\<not> bit (read_plain_flags (flags st)) 0" "\<not> bit (read_plain_flags (flags st)) 2"
      "\<not> bit (read_plain_flags (flags st)) 4" "\<not> bit (read_plain_flags (flags st)) 6"
      "\<not> bit (read_plain_flags (flags st)) 7" "\<not> bit (read_plain_flags (flags st)) 11"
    by (rule plain; simp add: compacted_elsewhere_def)+
  have mask: "(0xff :: u32) = mask 8" by (simp add: mask_eq_exp_minus_1)
  show ?thesis
    unfolding E st' bit_assemble_EFLAGS
    by (simp add: p bit_unsigned_iff bit_xor_iff bit_and_iff mask bit_mask_iff)
qed

theorem EFLAGS_in_JIT_witness:
  "\<exists>E st'. ReconstructCompactedEFLAGS \<lparr>flags = (\<lambda>i. 0), pf_raw = 1, af_raw = 0\<rparr> True 1 0 0x40000000 = (E, st') \<and>
     bit E 0 \<and> bit E 6 \<and> pf_raw st' = 1"
proof -
  let ?s = "\<lparr>flags = (\<lambda>i. 0), pf_raw = 1, af_raw = 0\<rparr>"
  obtain E st' where e: "ReconstructCompactedEFLAGS ?s True 1 0 0x40000000 = (E, st')" by fastforce
  have "\<forall>i < 12. i \<notin> set compacted_elsewhere \<longrightarrow> flags ?s i = 0 \<or> flags ?s i = 1" by simp
  from EFLAGS_in_JIT [OF this e] e show ?thesis by simp
qed

end
