(* ===== verification/Ppc_Forms.thy ===== *)
theory Ppc_Forms
  imports Fex_Prelude
begin

text \<open>
  Instruction words of \<open>CodeEmitter/PPC64LE/Emitter.h\<close>: the form helpers at the end of the class
  (\<open>EmitXO\<close>, \<open>EmitX\<close>, \<open>EmitD\<close>, \<open>EmitM\<close>, \<open>EmitMD\<close>) and the integer mnemonics the constant loader and the
  lowering of the arithmetic IR operations are built from.  A helper is modelled by what it hands to
  \<open>Emit32\<close>: \<open>Some w\<close> for the 32-bit word \<open>w\<close>, \<open>None\<close> when an assertion of a build with \<open>ASSERTIONS_ENABLED\<close>
  (\<open>LOGMAN_THROW_A_FMT\<close>, \<open>LOGMAN_MSG_A_FMT\<close>) stops the emission.  Code that is shown to run contains no \<open>None\<close>, so
  the assertions hold there and a build without them emits the same words.  The operands are the \<open>uint32_t\<close> values of the C++ signature, and
  a register is a 5-bit word whose \<open>idx\<close> is its 32-bit value.  \<open>assert\<close> is inert in the release build and
  is not modelled.  A trailing underscore of a C++ name is spelt \<open>_r\<close> where it only avoids a keyword and
  \<open>_rc\<close> where it marks the record form.
\<close>

type_synonym GPR = "5 word"
type_synonym insn = "u32 option"

definition idx :: "GPR \<Rightarrow> u32" where "idx r = ucast r"

subsection \<open>Form helpers\<close>

definition EmitXO :: "u32 \<Rightarrow> u32 \<Rightarrow> u32 \<Rightarrow> u32 \<Rightarrow> u32 \<Rightarrow> u32 \<Rightarrow> u32 \<Rightarrow> insn" where
  "EmitXO opc rt ra rb oe xo rc =
     Some (push_bit 26 opc OR push_bit 21 rt OR push_bit 16 ra OR push_bit 11 rb OR push_bit 10 oe OR push_bit 1 xo OR rc)"

definition EmitX :: "u32 \<Rightarrow> u32 \<Rightarrow> u32 \<Rightarrow> u32 \<Rightarrow> u32 \<Rightarrow> u32 \<Rightarrow> insn" where
  "EmitX opc rs ra rb xo rc =
     Some (push_bit 26 opc OR push_bit 21 rs OR push_bit 16 ra OR push_bit 11 rb OR push_bit 1 xo OR rc)"

definition EmitD :: "u32 \<Rightarrow> u32 \<Rightarrow> u32 \<Rightarrow> u16 \<Rightarrow> insn" where
  "EmitD opc rt ra d = Some (push_bit 26 opc OR push_bit 21 rt OR push_bit 16 ra OR ucast d)"

definition EmitM :: "u32 \<Rightarrow> u32 \<Rightarrow> u32 \<Rightarrow> u32 \<Rightarrow> u32 \<Rightarrow> u32 \<Rightarrow> u32 \<Rightarrow> insn" where
  "EmitM opc rs ra sh mb me rc =
     (if sh < 32 \<and> mb < 32 \<and> me < 32 then
        Some (push_bit 26 opc OR push_bit 21 rs OR push_bit 16 ra OR push_bit 11 sh OR push_bit 6 mb OR push_bit 1 me OR rc)
      else None)"

definition EmitMD :: "u32 \<Rightarrow> u32 \<Rightarrow> u32 \<Rightarrow> u32 \<Rightarrow> u32 \<Rightarrow> u32 \<Rightarrow> insn" where
  "EmitMD rs ra sh mb_or_me xo rc =
     (let sh_low = sh AND 0x1F; sh_high = drop_bit 5 sh AND 1;
          mb_low = mb_or_me AND 0x1F; mb_high = drop_bit 5 mb_or_me AND 1
      in Some (push_bit 26 30 OR push_bit 21 rs OR push_bit 16 ra OR push_bit 11 sh_low OR
         push_bit 6 mb_low OR push_bit 5 mb_high OR push_bit 2 xo OR push_bit 1 sh_high OR rc))"

subsection \<open>Mnemonics\<close>

definition add :: "GPR \<Rightarrow> GPR \<Rightarrow> GPR \<Rightarrow> insn" where "add rt ra rb = EmitXO 31 (idx rt) (idx ra) (idx rb) 0 266 0"
definition addi :: "GPR \<Rightarrow> GPR \<Rightarrow> u16 \<Rightarrow> insn" where "addi rt ra si = EmitD 14 (idx rt) (idx ra) si"
definition li :: "GPR \<Rightarrow> u16 \<Rightarrow> insn" where "li rt si = addi rt 0 si"
definition addis :: "GPR \<Rightarrow> GPR \<Rightarrow> u16 \<Rightarrow> insn" where "addis rt ra si = EmitD 15 (idx rt) (idx ra) si"
definition lis :: "GPR \<Rightarrow> u16 \<Rightarrow> insn" where "lis rt si = addis rt 0 si"
definition addco :: "GPR \<Rightarrow> GPR \<Rightarrow> GPR \<Rightarrow> insn" where "addco rt ra rb = EmitXO 31 (idx rt) (idx ra) (idx rb) 1 10 0"
definition addco_rc :: "GPR \<Rightarrow> GPR \<Rightarrow> GPR \<Rightarrow> insn" where "addco_rc rt ra rb = EmitXO 31 (idx rt) (idx ra) (idx rb) 1 10 1"
definition adde :: "GPR \<Rightarrow> GPR \<Rightarrow> GPR \<Rightarrow> insn" where "adde rt ra rb = EmitXO 31 (idx rt) (idx ra) (idx rb) 0 138 0"
definition addeo_rc :: "GPR \<Rightarrow> GPR \<Rightarrow> GPR \<Rightarrow> insn" where "addeo_rc rt ra rb = EmitXO 31 (idx rt) (idx ra) (idx rb) 1 138 1"
definition subf :: "GPR \<Rightarrow> GPR \<Rightarrow> GPR \<Rightarrow> insn" where "subf rt ra rb = EmitXO 31 (idx rt) (idx ra) (idx rb) 0 40 0"
definition subfc :: "GPR \<Rightarrow> GPR \<Rightarrow> GPR \<Rightarrow> insn" where "subfc rt ra rb = EmitXO 31 (idx rt) (idx ra) (idx rb) 0 8 0"
definition subfco_rc :: "GPR \<Rightarrow> GPR \<Rightarrow> GPR \<Rightarrow> insn" where "subfco_rc rt ra rb = EmitXO 31 (idx rt) (idx ra) (idx rb) 1 8 1"
definition subfe :: "GPR \<Rightarrow> GPR \<Rightarrow> GPR \<Rightarrow> insn" where "subfe rt ra rb = EmitXO 31 (idx rt) (idx ra) (idx rb) 0 136 0"
definition subfeo_rc :: "GPR \<Rightarrow> GPR \<Rightarrow> GPR \<Rightarrow> insn" where "subfeo_rc rt ra rb = EmitXO 31 (idx rt) (idx ra) (idx rb) 1 136 1"
definition neg :: "GPR \<Rightarrow> GPR \<Rightarrow> insn" where "neg rt ra = EmitXO 31 (idx rt) (idx ra) 0 0 104 0"
definition mulli :: "GPR \<Rightarrow> GPR \<Rightarrow> u16 \<Rightarrow> insn" where "mulli rt ra si = EmitD 7 (idx rt) (idx ra) si"
definition mullw :: "GPR \<Rightarrow> GPR \<Rightarrow> GPR \<Rightarrow> insn" where "mullw rt ra rb = EmitXO 31 (idx rt) (idx ra) (idx rb) 0 235 0"
definition mulld :: "GPR \<Rightarrow> GPR \<Rightarrow> GPR \<Rightarrow> insn" where "mulld rt ra rb = EmitXO 31 (idx rt) (idx ra) (idx rb) 0 233 0"
definition mulhd :: "GPR \<Rightarrow> GPR \<Rightarrow> GPR \<Rightarrow> insn" where "mulhd rt ra rb = EmitXO 31 (idx rt) (idx ra) (idx rb) 0 73 0"
definition mulhdu :: "GPR \<Rightarrow> GPR \<Rightarrow> GPR \<Rightarrow> insn" where "mulhdu rt ra rb = EmitXO 31 (idx rt) (idx ra) (idx rb) 0 9 0"
definition mulhw :: "GPR \<Rightarrow> GPR \<Rightarrow> GPR \<Rightarrow> insn" where "mulhw rt ra rb = EmitXO 31 (idx rt) (idx ra) (idx rb) 0 75 0"
definition mulhwu :: "GPR \<Rightarrow> GPR \<Rightarrow> GPR \<Rightarrow> insn" where "mulhwu rt ra rb = EmitXO 31 (idx rt) (idx ra) (idx rb) 0 11 0"
definition divd :: "GPR \<Rightarrow> GPR \<Rightarrow> GPR \<Rightarrow> insn" where "divd rt ra rb = EmitXO 31 (idx rt) (idx ra) (idx rb) 0 489 0"
definition divdu :: "GPR \<Rightarrow> GPR \<Rightarrow> GPR \<Rightarrow> insn" where "divdu rt ra rb = EmitXO 31 (idx rt) (idx ra) (idx rb) 0 457 0"
definition divw :: "GPR \<Rightarrow> GPR \<Rightarrow> GPR \<Rightarrow> insn" where "divw rt ra rb = EmitXO 31 (idx rt) (idx ra) (idx rb) 0 491 0"
definition divwu :: "GPR \<Rightarrow> GPR \<Rightarrow> GPR \<Rightarrow> insn" where "divwu rt ra rb = EmitXO 31 (idx rt) (idx ra) (idx rb) 0 459 0"
definition and_r :: "GPR \<Rightarrow> GPR \<Rightarrow> GPR \<Rightarrow> insn" where "and_r ra rs rb = EmitX 31 (idx rs) (idx ra) (idx rb) 28 0"
definition and_rc :: "GPR \<Rightarrow> GPR \<Rightarrow> GPR \<Rightarrow> insn" where "and_rc ra rs rb = EmitX 31 (idx rs) (idx ra) (idx rb) 28 1"
definition andc :: "GPR \<Rightarrow> GPR \<Rightarrow> GPR \<Rightarrow> insn" where "andc ra rs rb = EmitX 31 (idx rs) (idx ra) (idx rb) 60 0"
definition or_r :: "GPR \<Rightarrow> GPR \<Rightarrow> GPR \<Rightarrow> insn" where "or_r ra rs rb = EmitX 31 (idx rs) (idx ra) (idx rb) 444 0"
definition orc :: "GPR \<Rightarrow> GPR \<Rightarrow> GPR \<Rightarrow> insn" where "orc ra rs rb = EmitX 31 (idx rs) (idx ra) (idx rb) 412 0"
definition mr :: "GPR \<Rightarrow> GPR \<Rightarrow> insn" where "mr ra rs = or_r ra rs rs"
definition xor_r :: "GPR \<Rightarrow> GPR \<Rightarrow> GPR \<Rightarrow> insn" where "xor_r ra rs rb = EmitX 31 (idx rs) (idx ra) (idx rb) 316 0"
definition nor :: "GPR \<Rightarrow> GPR \<Rightarrow> GPR \<Rightarrow> insn" where "nor ra rs rb = EmitX 31 (idx rs) (idx ra) (idx rb) 124 0"
definition not_r :: "GPR \<Rightarrow> GPR \<Rightarrow> insn" where "not_r ra rs = nor ra rs rs"
definition ori :: "GPR \<Rightarrow> GPR \<Rightarrow> u16 \<Rightarrow> insn" where "ori ra rs ui = EmitD 24 (idx rs) (idx ra) ui"
definition oris :: "GPR \<Rightarrow> GPR \<Rightarrow> u16 \<Rightarrow> insn" where "oris ra rs ui = EmitD 25 (idx rs) (idx ra) ui"
definition xori :: "GPR \<Rightarrow> GPR \<Rightarrow> u16 \<Rightarrow> insn" where "xori ra rs ui = EmitD 26 (idx rs) (idx ra) ui"
definition xoris :: "GPR \<Rightarrow> GPR \<Rightarrow> u16 \<Rightarrow> insn" where "xoris ra rs ui = EmitD 27 (idx rs) (idx ra) ui"
definition andi_rc :: "GPR \<Rightarrow> GPR \<Rightarrow> u16 \<Rightarrow> insn" where "andi_rc ra rs ui = EmitD 28 (idx rs) (idx ra) ui"
definition andis_rc :: "GPR \<Rightarrow> GPR \<Rightarrow> u16 \<Rightarrow> insn" where "andis_rc ra rs ui = EmitD 29 (idx rs) (idx ra) ui"
definition slw :: "GPR \<Rightarrow> GPR \<Rightarrow> GPR \<Rightarrow> insn" where "slw ra rs rb = EmitX 31 (idx rs) (idx ra) (idx rb) 24 0"
definition srw :: "GPR \<Rightarrow> GPR \<Rightarrow> GPR \<Rightarrow> insn" where "srw ra rs rb = EmitX 31 (idx rs) (idx ra) (idx rb) 536 0"
definition sld :: "GPR \<Rightarrow> GPR \<Rightarrow> GPR \<Rightarrow> insn" where "sld ra rs rb = EmitX 31 (idx rs) (idx ra) (idx rb) 27 0"
definition srd :: "GPR \<Rightarrow> GPR \<Rightarrow> GPR \<Rightarrow> insn" where "srd ra rs rb = EmitX 31 (idx rs) (idx ra) (idx rb) 539 0"
definition rlwinm :: "GPR \<Rightarrow> GPR \<Rightarrow> u32 \<Rightarrow> u32 \<Rightarrow> u32 \<Rightarrow> insn" where "rlwinm ra rs sh mb me = EmitM 21 (idx rs) (idx ra) sh mb me 0"
definition rlwinm_rc :: "GPR \<Rightarrow> GPR \<Rightarrow> u32 \<Rightarrow> u32 \<Rightarrow> u32 \<Rightarrow> insn" where "rlwinm_rc ra rs sh mb me = EmitM 21 (idx rs) (idx ra) sh mb me 1"
definition rlwimi :: "GPR \<Rightarrow> GPR \<Rightarrow> u32 \<Rightarrow> u32 \<Rightarrow> u32 \<Rightarrow> insn" where "rlwimi ra rs sh mb me = EmitM 20 (idx rs) (idx ra) sh mb me 0"

definition rlwnm :: "GPR \<Rightarrow> GPR \<Rightarrow> GPR \<Rightarrow> u32 \<Rightarrow> u32 \<Rightarrow> insn" where
  "rlwnm ra rs rb mb me =
     (if mb < 32 \<and> me < 32 then
        Some (push_bit 26 23 OR push_bit 21 (idx rs) OR push_bit 16 (idx ra) OR push_bit 11 (idx rb) OR
              push_bit 6 (mb AND 0x1F) OR push_bit 1 (me AND 0x1F) OR 0)
      else None)"

definition rldicl :: "GPR \<Rightarrow> GPR \<Rightarrow> u32 \<Rightarrow> u32 \<Rightarrow> insn" where "rldicl ra rs sh mb = EmitMD (idx rs) (idx ra) sh mb 0 0"
definition rldicl_rc :: "GPR \<Rightarrow> GPR \<Rightarrow> u32 \<Rightarrow> u32 \<Rightarrow> insn" where "rldicl_rc ra rs sh mb = EmitMD (idx rs) (idx ra) sh mb 0 1"
definition rldicr :: "GPR \<Rightarrow> GPR \<Rightarrow> u32 \<Rightarrow> u32 \<Rightarrow> insn" where "rldicr ra rs sh me = EmitMD (idx rs) (idx ra) sh me 1 0"
definition rldic :: "GPR \<Rightarrow> GPR \<Rightarrow> u32 \<Rightarrow> u32 \<Rightarrow> insn" where "rldic ra rs sh mb = EmitMD (idx rs) (idx ra) sh mb 2 0"
definition rldimi :: "GPR \<Rightarrow> GPR \<Rightarrow> u32 \<Rightarrow> u32 \<Rightarrow> insn" where "rldimi ra rs sh mb = EmitMD (idx rs) (idx ra) sh mb 3 0"

definition rldcl :: "GPR \<Rightarrow> GPR \<Rightarrow> GPR \<Rightarrow> u32 \<Rightarrow> insn" where
  "rldcl ra rs rb mb =
     (let mb_high = drop_bit 5 mb AND 1; mb_low = mb AND 0x1F
      in Some (push_bit 26 30 OR push_bit 21 (idx rs) OR push_bit 16 (idx ra) OR push_bit 11 (idx rb) OR
         push_bit 6 mb_low OR push_bit 5 mb_high OR push_bit 1 8 OR 0))"

definition sldi :: "GPR \<Rightarrow> GPR \<Rightarrow> u32 \<Rightarrow> insn" where "sldi ra rs n = rldicr ra rs n (63 - n)"
definition srdi :: "GPR \<Rightarrow> GPR \<Rightarrow> u32 \<Rightarrow> insn" where "srdi ra rs n = rldicl ra rs (64 - n) n"
definition clrldi :: "GPR \<Rightarrow> GPR \<Rightarrow> u32 \<Rightarrow> insn" where "clrldi ra rs n = rldicl ra rs 0 n"
definition extsb :: "GPR \<Rightarrow> GPR \<Rightarrow> insn" where "extsb ra rs = EmitX 31 (idx rs) (idx ra) 0 954 0"
definition extsh :: "GPR \<Rightarrow> GPR \<Rightarrow> insn" where "extsh ra rs = EmitX 31 (idx rs) (idx ra) 0 922 0"
definition extsw :: "GPR \<Rightarrow> GPR \<Rightarrow> insn" where "extsw ra rs = EmitX 31 (idx rs) (idx ra) 0 986 0"
definition extsb_rc :: "GPR \<Rightarrow> GPR \<Rightarrow> insn" where "extsb_rc ra rs = EmitX 31 (idx rs) (idx ra) 0 954 1"
definition extsh_rc :: "GPR \<Rightarrow> GPR \<Rightarrow> insn" where "extsh_rc ra rs = EmitX 31 (idx rs) (idx ra) 0 922 1"
definition extsw_rc :: "GPR \<Rightarrow> GPR \<Rightarrow> insn" where "extsw_rc ra rs = EmitX 31 (idx rs) (idx ra) 0 986 1"
definition cntlzw :: "GPR \<Rightarrow> GPR \<Rightarrow> insn" where "cntlzw ra rs = EmitX 31 (idx rs) (idx ra) 0 26 0"
definition cntlzd :: "GPR \<Rightarrow> GPR \<Rightarrow> insn" where "cntlzd ra rs = EmitX 31 (idx rs) (idx ra) 0 58 0"
definition popcntd :: "GPR \<Rightarrow> GPR \<Rightarrow> insn" where "popcntd ra rs = EmitX 31 (idx rs) (idx ra) 0 506 0"

definition addic :: "GPR \<Rightarrow> GPR \<Rightarrow> u16 \<Rightarrow> insn" where "addic rt ra si = EmitD 12 (idx rt) (idx ra) si"
definition addo :: "GPR \<Rightarrow> GPR \<Rightarrow> GPR \<Rightarrow> insn" where "addo rt ra rb = EmitXO 31 (idx rt) (idx ra) (idx rb) 1 266 0"

definition cmpdi :: "u32 \<Rightarrow> GPR \<Rightarrow> u16 \<Rightarrow> insn" where
  "cmpdi bf ra si = Some (push_bit 26 11 OR push_bit 23 bf OR push_bit 21 1 OR push_bit 16 (idx ra) OR ucast si)"
definition cmpwi :: "u32 \<Rightarrow> GPR \<Rightarrow> u16 \<Rightarrow> insn" where
  "cmpwi bf ra si = Some (push_bit 26 11 OR push_bit 23 bf OR push_bit 21 0 OR push_bit 16 (idx ra) OR ucast si)"
definition cmpldi :: "u32 \<Rightarrow> GPR \<Rightarrow> u16 \<Rightarrow> insn" where
  "cmpldi bf ra ui = Some (push_bit 26 10 OR push_bit 23 bf OR push_bit 21 1 OR push_bit 16 (idx ra) OR ucast ui)"
definition cmplwi :: "u32 \<Rightarrow> GPR \<Rightarrow> u16 \<Rightarrow> insn" where
  "cmplwi bf ra ui = Some (push_bit 26 10 OR push_bit 23 bf OR push_bit 21 0 OR push_bit 16 (idx ra) OR ucast ui)"
definition cmpd :: "u32 \<Rightarrow> GPR \<Rightarrow> GPR \<Rightarrow> insn" where
  "cmpd bf ra rb = Some (push_bit 26 31 OR push_bit 23 bf OR push_bit 21 1 OR push_bit 16 (idx ra) OR push_bit 11 (idx rb) OR push_bit 1 0)"
definition cmpw :: "u32 \<Rightarrow> GPR \<Rightarrow> GPR \<Rightarrow> insn" where
  "cmpw bf ra rb = Some (push_bit 26 31 OR push_bit 23 bf OR push_bit 21 0 OR push_bit 16 (idx ra) OR push_bit 11 (idx rb) OR push_bit 1 0)"
definition cmpld :: "u32 \<Rightarrow> GPR \<Rightarrow> GPR \<Rightarrow> insn" where
  "cmpld bf ra rb = Some (push_bit 26 31 OR push_bit 23 bf OR push_bit 21 1 OR push_bit 16 (idx ra) OR push_bit 11 (idx rb) OR push_bit 1 32)"
definition cmplw :: "u32 \<Rightarrow> GPR \<Rightarrow> GPR \<Rightarrow> insn" where
  "cmplw bf ra rb = Some (push_bit 26 31 OR push_bit 23 bf OR push_bit 21 0 OR push_bit 16 (idx ra) OR push_bit 11 (idx rb) OR push_bit 1 32)"

definition isel :: "GPR \<Rightarrow> GPR \<Rightarrow> GPR \<Rightarrow> u32 \<Rightarrow> insn" where
  "isel rt ra rb bc =
     Some (push_bit 26 31 OR push_bit 21 (idx rt) OR push_bit 16 (idx ra) OR push_bit 11 (idx rb) OR push_bit 6 bc OR push_bit 1 15)"

record Cond =
  BO :: u32
  BI :: u32

definition iselcc :: "GPR \<Rightarrow> Cond \<Rightarrow> GPR \<Rightarrow> GPR \<Rightarrow> insn" where
  "iselcc rt cond vtrue vfalse =
     (if BO cond AND 8 \<noteq> 0 then isel rt vtrue vfalse (BI cond) else isel rt vfalse vtrue (BI cond))"

definition mfspr :: "GPR \<Rightarrow> u32 \<Rightarrow> insn" where
  "mfspr rt spr =
     (let lo = spr AND 0x1F; hi = drop_bit 5 spr AND 0x1F
      in Some (push_bit 26 31 OR push_bit 21 (idx rt) OR push_bit 16 lo OR push_bit 11 hi OR push_bit 1 339))"
definition mtspr :: "u32 \<Rightarrow> GPR \<Rightarrow> insn" where
  "mtspr spr rs =
     (let lo = spr AND 0x1F; hi = drop_bit 5 spr AND 0x1F
      in Some (push_bit 26 31 OR push_bit 21 (idx rs) OR push_bit 16 lo OR push_bit 11 hi OR push_bit 1 467))"

definition crand :: "u32 \<Rightarrow> u32 \<Rightarrow> u32 \<Rightarrow> insn" where
  "crand bt ba bb = Some (push_bit 26 19 OR push_bit 21 bt OR push_bit 16 ba OR push_bit 11 bb OR push_bit 1 257)"
definition cror :: "u32 \<Rightarrow> u32 \<Rightarrow> u32 \<Rightarrow> insn" where
  "cror bt ba bb = Some (push_bit 26 19 OR push_bit 21 bt OR push_bit 16 ba OR push_bit 11 bb OR push_bit 1 449)"
definition crxor :: "u32 \<Rightarrow> u32 \<Rightarrow> u32 \<Rightarrow> insn" where
  "crxor bt ba bb = Some (push_bit 26 19 OR push_bit 21 bt OR push_bit 16 ba OR push_bit 11 bb OR push_bit 1 193)"
definition creqv :: "u32 \<Rightarrow> u32 \<Rightarrow> u32 \<Rightarrow> insn" where
  "creqv bt ba bb = Some (push_bit 26 19 OR push_bit 21 bt OR push_bit 16 ba OR push_bit 11 bb OR push_bit 1 289)"
definition crnand :: "u32 \<Rightarrow> u32 \<Rightarrow> u32 \<Rightarrow> insn" where
  "crnand bt ba bb = Some (push_bit 26 19 OR push_bit 21 bt OR push_bit 16 ba OR push_bit 11 bb OR push_bit 1 225)"
definition crandc :: "u32 \<Rightarrow> u32 \<Rightarrow> u32 \<Rightarrow> insn" where
  "crandc bt ba bb = Some (push_bit 26 19 OR push_bit 21 bt OR push_bit 16 ba OR push_bit 11 bb OR push_bit 1 129)"
definition crnor :: "u32 \<Rightarrow> u32 \<Rightarrow> u32 \<Rightarrow> insn" where
  "crnor bt ba bb = Some (push_bit 26 19 OR push_bit 21 bt OR push_bit 16 ba OR push_bit 11 bb OR push_bit 1 33)"
definition mfocrf :: "GPR \<Rightarrow> u32 \<Rightarrow> insn" where
  "mfocrf rt fxm = Some (push_bit 26 31 OR push_bit 21 (idx rt) OR push_bit 20 1 OR push_bit 12 fxm OR push_bit 1 19)"
definition mtocrf :: "u32 \<Rightarrow> GPR \<Rightarrow> insn" where
  "mtocrf fxm rs = Some (push_bit 26 31 OR push_bit 21 (idx rs) OR push_bit 20 1 OR push_bit 12 fxm OR push_bit 1 144)"
definition mcrxrx :: "u32 \<Rightarrow> insn" where
  "mcrxrx bf = Some (push_bit 26 31 OR push_bit 23 bf OR push_bit 1 576)"

text \<open>Loads, stores and barriers.  The displacement of \<open>ld\<close> and \<open>std\<close> shares its low bits with the extended opcode.\<close>

definition lbz :: "GPR \<Rightarrow> u16 \<Rightarrow> GPR \<Rightarrow> insn" where "lbz rt d ra = EmitD 34 (idx rt) (idx ra) d"
definition lhz :: "GPR \<Rightarrow> u16 \<Rightarrow> GPR \<Rightarrow> insn" where "lhz rt d ra = EmitD 40 (idx rt) (idx ra) d"
definition lwz :: "GPR \<Rightarrow> u16 \<Rightarrow> GPR \<Rightarrow> insn" where "lwz rt d ra = EmitD 32 (idx rt) (idx ra) d"
definition ld :: "GPR \<Rightarrow> u16 \<Rightarrow> GPR \<Rightarrow> insn" where
  "ld rt ds ra = Some (push_bit 26 58 OR push_bit 21 (idx rt) OR push_bit 16 (idx ra) OR (ucast ds AND 0xFFFC) OR 0)"
definition stb :: "GPR \<Rightarrow> u16 \<Rightarrow> GPR \<Rightarrow> insn" where "stb rs d ra = EmitD 38 (idx rs) (idx ra) d"
definition sth :: "GPR \<Rightarrow> u16 \<Rightarrow> GPR \<Rightarrow> insn" where "sth rs d ra = EmitD 44 (idx rs) (idx ra) d"
definition stw :: "GPR \<Rightarrow> u16 \<Rightarrow> GPR \<Rightarrow> insn" where "stw rs d ra = EmitD 36 (idx rs) (idx ra) d"
definition std :: "GPR \<Rightarrow> u16 \<Rightarrow> GPR \<Rightarrow> insn" where
  "std rs ds ra = Some (push_bit 26 62 OR push_bit 21 (idx rs) OR push_bit 16 (idx ra) OR (ucast ds AND 0xFFFC) OR 0)"
definition lbzx :: "GPR \<Rightarrow> GPR \<Rightarrow> GPR \<Rightarrow> insn" where "lbzx rt ra rb = EmitX 31 (idx rt) (idx ra) (idx rb) 87 0"
definition lhzx :: "GPR \<Rightarrow> GPR \<Rightarrow> GPR \<Rightarrow> insn" where "lhzx rt ra rb = EmitX 31 (idx rt) (idx ra) (idx rb) 279 0"
definition lwzx :: "GPR \<Rightarrow> GPR \<Rightarrow> GPR \<Rightarrow> insn" where "lwzx rt ra rb = EmitX 31 (idx rt) (idx ra) (idx rb) 23 0"
definition ldx :: "GPR \<Rightarrow> GPR \<Rightarrow> GPR \<Rightarrow> insn" where "ldx rt ra rb = EmitX 31 (idx rt) (idx ra) (idx rb) 21 0"
definition stbx :: "GPR \<Rightarrow> GPR \<Rightarrow> GPR \<Rightarrow> insn" where "stbx rs ra rb = EmitX 31 (idx rs) (idx ra) (idx rb) 215 0"
definition sthx :: "GPR \<Rightarrow> GPR \<Rightarrow> GPR \<Rightarrow> insn" where "sthx rs ra rb = EmitX 31 (idx rs) (idx ra) (idx rb) 407 0"
definition stwx :: "GPR \<Rightarrow> GPR \<Rightarrow> GPR \<Rightarrow> insn" where "stwx rs ra rb = EmitX 31 (idx rs) (idx ra) (idx rb) 151 0"
definition stdx :: "GPR \<Rightarrow> GPR \<Rightarrow> GPR \<Rightarrow> insn" where "stdx rs ra rb = EmitX 31 (idx rs) (idx ra) (idx rb) 149 0"
definition lhbrx :: "GPR \<Rightarrow> GPR \<Rightarrow> GPR \<Rightarrow> insn" where "lhbrx rt ra rb = EmitX 31 (idx rt) (idx ra) (idx rb) 790 0"
definition lwbrx :: "GPR \<Rightarrow> GPR \<Rightarrow> GPR \<Rightarrow> insn" where "lwbrx rt ra rb = EmitX 31 (idx rt) (idx ra) (idx rb) 534 0"
definition ldbrx :: "GPR \<Rightarrow> GPR \<Rightarrow> GPR \<Rightarrow> insn" where "ldbrx rt ra rb = EmitX 31 (idx rt) (idx ra) (idx rb) 532 0"
definition sthbrx :: "GPR \<Rightarrow> GPR \<Rightarrow> GPR \<Rightarrow> insn" where "sthbrx rs ra rb = EmitX 31 (idx rs) (idx ra) (idx rb) 918 0"
definition stwbrx :: "GPR \<Rightarrow> GPR \<Rightarrow> GPR \<Rightarrow> insn" where "stwbrx rs ra rb = EmitX 31 (idx rs) (idx ra) (idx rb) 662 0"
definition stdbrx :: "GPR \<Rightarrow> GPR \<Rightarrow> GPR \<Rightarrow> insn" where "stdbrx rs ra rb = EmitX 31 (idx rs) (idx ra) (idx rb) 660 0"
definition sync :: "u32 \<Rightarrow> insn" where "sync l = Some (push_bit 26 31 OR push_bit 21 l OR push_bit 1 598)"
definition hwsync :: insn where "hwsync = sync 0"
definition lwsync :: insn where "lwsync = sync 1"

subsection \<open>Reading the fields of a word\<close>

definition fld :: "nat \<Rightarrow> nat \<Rightarrow> u32 \<Rightarrow> u32" where
  "fld k l w = take_bit l (drop_bit k w)"

named_theorems insn_field

lemma fld_or [insn_field]: "fld k l (a OR b) = fld k l a OR fld k l b"
  by (simp add: fld_def)

lemma fld_push_same [insn_field]:
  assumes "k + l \<le> 32" and "unat v < 2 ^ l"
  shows "fld k l (push_bit k v) = v"
proof (rule bit_word_eqI)
  fix n :: nat assume "n < LENGTH(32)"
  then show "bit (fld k l (push_bit k v)) n \<longleftrightarrow> bit v n"
    using bit_less_exp [OF assms(2), of n] assms(1)
    by (auto simp: fld_def bit_take_bit_iff bit_drop_bit_eq bit_push_bit_iff)
qed

lemma fld_push_above [insn_field]: "k + l \<le> k' \<Longrightarrow> fld k l (push_bit k' v) = 0"
  by (rule bit_word_eqI) (auto simp: fld_def bit_take_bit_iff bit_drop_bit_eq bit_push_bit_iff)

lemma fld_push_below [insn_field]:
  assumes "k' \<le> k" and "unat v < 2 ^ (k - k')"
  shows "fld k l (push_bit k' v) = 0"
proof (rule bit_word_eqI)
  fix n :: nat
  show "bit (fld k l (push_bit k' v)) n \<longleftrightarrow> bit (0 :: u32) n"
    using bit_less_exp [OF assms(2), of "k + n - k'"] assms(1)
    by (auto simp: fld_def bit_take_bit_iff bit_drop_bit_eq bit_push_bit_iff)
qed

lemma fld_low [insn_field]: "unat v < 2 ^ l \<Longrightarrow> l \<le> 32 \<Longrightarrow> fld 0 l v = v" "unat v < 2 ^ k \<Longrightarrow> fld k l v = 0"
  using fld_push_same [of 0 l v] fld_push_below [of 0 k v l] by simp_all

lemma unat_idx [insn_field]: "32 \<le> m \<Longrightarrow> unat (idx r) < m"
  using unat_less_exp [of r] by (simp add: idx_def unat_ucast_mod)

lemma unat_ucast_16 [insn_field]: "65536 \<le> m \<Longrightarrow> unat (ucast (d :: u16) :: u32) < m"
  using unat_less_exp [of d] by (simp add: unat_ucast_mod)

lemma ucast_idx [simp]: "ucast (idx r) = r"
  by (rule bit_word_eqI) (simp add: idx_def bit_unsigned_iff)

lemma ucast_ucast_16 [simp]: "ucast (ucast (d :: u16) :: u32) = d"
  by (rule bit_word_eqI) (simp add: bit_unsigned_iff)

lemma unat_and_mask: "unat (w AND mask k :: u32) < 2 ^ k"
proof -
  have "unat (w AND mask k) = take_bit k (unat w)"
    by (simp add: unsigned_take_bit_eq flip: take_bit_eq_mask)
  then show ?thesis by (simp add: take_bit_nat_less_exp)
qed

lemma unat_and_less:
  "unat (w AND 0x1F :: u32) < 32" "unat (w AND 1 :: u32) < 2"
  using unat_and_mask [of w 5] unat_and_mask [of w 1] by (simp_all add: mask_eq_exp_minus_1)

lemma and_31_small: "unat (v :: u32) < 32 \<Longrightarrow> v AND 0x1F = v"
proof -
  assume v: "unat v < 32"
  have "v AND 0x1F = take_bit 5 v" by (simp add: take_bit_eq_mask mask_eq_exp_minus_1)
  also have "\<dots> = v" using bit_less_exp [of v 5] v by (auto intro!: bit_word_eqI simp: bit_take_bit_iff)
  finally show ?thesis .
qed

lemma MD_fields:
  fixes opc rs ra shl ml mh xo shh rc :: u32
  assumes "unat opc < 64" "unat rs < 32" "unat ra < 32" "unat shl < 32" "unat ml < 32" "unat mh < 2" "unat xo < 8"
    "unat shh < 2" "unat rc < 2"
  defines "w \<equiv> push_bit 26 opc OR push_bit 21 rs OR push_bit 16 ra OR push_bit 11 shl OR push_bit 6 ml OR
    push_bit 5 mh OR push_bit 2 xo OR push_bit 1 shh OR rc"
  shows "fld 26 6 w = opc" "fld 21 5 w = rs" "fld 16 5 w = ra" "fld 11 5 w = shl" "fld 6 5 w = ml" "fld 5 1 w = mh"
    "fld 2 3 w = xo" "fld 1 1 w = shh" "fld 0 1 w = rc"
  using assms(1-9) by (simp_all add: w_def insn_field del: One_nat_def push_bit_Suc)

lemma D_fields:
  fixes opc rt ra d :: u32
  assumes "unat opc < 64" "unat rt < 32" "unat ra < 32" "unat d < 65536"
  defines "w \<equiv> push_bit 26 opc OR push_bit 21 rt OR push_bit 16 ra OR d"
  shows "fld 26 6 w = opc" "fld 21 5 w = rt" "fld 16 5 w = ra" "fld 0 16 w = d"
  using assms(1-4) by (simp_all add: w_def insn_field)

lemma X_fields:
  fixes opc rs ra rb xo rc :: u32
  assumes "unat opc < 64" "unat rs < 32" "unat ra < 32" "unat rb < 32" "unat xo < 1024" "unat rc < 2"
  defines "w \<equiv> push_bit 26 opc OR push_bit 21 rs OR push_bit 16 ra OR push_bit 11 rb OR push_bit 1 xo OR rc"
  shows "fld 26 6 w = opc" "fld 21 5 w = rs" "fld 16 5 w = ra" "fld 11 5 w = rb" "fld 1 10 w = xo" "fld 0 1 w = rc"
  using assms(1-6) by (simp_all add: w_def insn_field del: One_nat_def push_bit_Suc)

lemma M_fields:
  fixes opc rs ra sh mb me rc :: u32
  assumes "unat opc < 64" "unat rs < 32" "unat ra < 32" "unat sh < 32" "unat mb < 32" "unat me < 32" "unat rc < 2"
  defines "w \<equiv> push_bit 26 opc OR push_bit 21 rs OR push_bit 16 ra OR push_bit 11 sh OR push_bit 6 mb OR push_bit 1 me OR rc"
  shows "fld 26 6 w = opc" "fld 21 5 w = rs" "fld 16 5 w = ra" "fld 11 5 w = sh" "fld 6 5 w = mb" "fld 1 5 w = me"
    "fld 0 1 w = rc"
  using assms(1-7) by (simp_all add: w_def insn_field del: One_nat_def push_bit_Suc)

text \<open>The \<open>OE\<close> bit of the \<open>XO\<close> form is the top bit of the ten-bit extended opcode of the \<open>X\<close> form.\<close>

lemma EmitXO_X: "EmitXO opc rt ra rb oe xo rc = EmitX opc rt ra rb (push_bit 9 oe OR xo) rc"
  by (simp add: EmitXO_def EmitX_def push_bit_or push_bit_push_bit or.assoc del: One_nat_def push_bit_Suc)

definition split6 :: "u32 \<Rightarrow> u32 \<Rightarrow> nat" where
  "split6 lo hi = unat lo + 32 * unat hi"

lemma split6_field: "split6 (v AND 0x1F) (drop_bit 5 v AND 1) = unat v mod 64"
proof -
  have "v AND 0x1F = take_bit 5 v" "drop_bit 5 v AND 1 = take_bit 1 (drop_bit 5 v)"
    by (simp_all add: take_bit_eq_mask mask_eq_exp_minus_1)
  then have "unat (v AND 0x1F) = unat v mod 32" "unat (drop_bit 5 v AND 1) = unat v div 32 mod 2"
    by (simp_all only: unsigned_take_bit_eq unat_drop_bit_eq) (simp_all add: take_bit_eq_mod drop_bit_eq_div)
  moreover have "unat v mod 64 = unat v mod 32 + 32 * (unat v div 32 mod 2)"
    using mod_mult2_eq [of "unat v" 32 2] by simp
  ultimately show ?thesis by (simp add: split6_def)
qed

end
