(* ===== verification/Ppc_Isa.thy ===== *)
theory Ppc_Isa
  imports Ppc_Forms "HOL-Library.Signed_Division"
begin

text \<open>
  The processor the emitted words run on.  It is not part of the repository, so it enters the development
  as the parameter \<open>step\<close> of the locale \<open>ppc_isa\<close>, one law per instruction (Power ISA 2.07 Book I).  Where the
  manual leaves a result undefined (the upper half after a word multiply-high, every divide by zero) the
  law leaves it open too.  The locale is interpreted by \<open>isa_step\<close>, which decodes the 32-bit word
  field by field: the interpretation proves that the encodings of \<open>Emitter.h\<close> mean what their mnemonics say.
\<close>

subsection \<open>State and semantic functions\<close>

record PPC =
  gpr :: "GPR \<Rightarrow> u64"
  cr :: "nat \<Rightarrow> bool"
  ca :: bool
  ov :: bool
  so :: bool
  xer :: u64
  mem :: "u64 \<Rightarrow> u8"

definition setr :: "GPR \<Rightarrow> u64 \<Rightarrow> PPC \<Rightarrow> PPC" where
  "setr r v s = s\<lparr>gpr := (gpr s)(r := v)\<rparr>"

definition set_cr0 :: "u64 \<Rightarrow> PPC \<Rightarrow> PPC" where
  "set_cr0 v s = s\<lparr>cr := (cr s)(0 := sint v < 0, 1 := 0 < sint v, 2 := v = 0, 3 := so s)\<rparr>"

definition set_crf :: "nat \<Rightarrow> bool \<Rightarrow> bool \<Rightarrow> bool \<Rightarrow> PPC \<Rightarrow> PPC" where
  "set_crf f lt gt eq s = s\<lparr>cr := (cr s)(4 * f := lt, 4 * f + 1 := gt, 4 * f + 2 := eq, 4 * f + 3 := so s)\<rparr>"

definition set_cr_bit :: "nat \<Rightarrow> bool \<Rightarrow> PPC \<Rightarrow> PPC" where
  "set_cr_bit n b s = s\<lparr>cr := (cr s)(n := b)\<rparr>"

text \<open>Bit \<open>n\<close> of CR is bit \<open>31 - n\<close> of a register, and a field is selected by one bit of the eight-bit mask FXM.\<close>

definition set_cr_fields :: "u8 \<Rightarrow> u64 \<Rightarrow> PPC \<Rightarrow> PPC" where
  "set_cr_fields fxm v s = s\<lparr>cr := \<lambda>n. if n < 32 \<and> bit fxm (7 - n div 4) then bit v (31 - n) else cr s n\<rparr>"

definition cr_fields :: "u8 \<Rightarrow> PPC \<Rightarrow> u64" where
  "cr_fields fxm s = horner_sum of_bool 2 (map (\<lambda>i. bit fxm (7 - (31 - i) div 4) \<and> cr s (31 - i)) [0..<32])"

definition compare_signed :: "nat \<Rightarrow> int \<Rightarrow> int \<Rightarrow> PPC \<Rightarrow> PPC" where
  "compare_signed f a b s = set_crf f (a < b) (b < a) (a = b) s"

text \<open>The field \<open>xer\<close> holds the bits of XER other than SO, OV and CA.\<close>

definition xer_value :: "PPC \<Rightarrow> u64" where
  "xer_value s = (xer s AND NOT 0xE0000000) OR push_bit 31 (of_bool (so s)) OR push_bit 30 (of_bool (ov s)) OR push_bit 29 (of_bool (ca s))"

definition set_xer :: "u64 \<Rightarrow> PPC \<Rightarrow> PPC" where
  "set_xer v s = s\<lparr>xer := v AND NOT 0xE0000000, so := bit v 31, ov := bit v 30, ca := bit v 29\<rparr>"

definition put :: "GPR \<Rightarrow> u64 \<Rightarrow> bool \<Rightarrow> PPC \<Rightarrow> PPC" where
  "put r v rc s = (if rc then set_cr0 v (setr r v s) else setr r v s)"

definition adc_carry :: "u64 \<Rightarrow> u64 \<Rightarrow> bool \<Rightarrow> bool" where
  "adc_carry a b c \<longleftrightarrow> 2 ^ 64 \<le> uint a + uint b + of_bool c"

definition adc_over :: "u64 \<Rightarrow> u64 \<Rightarrow> bool \<Rightarrow> bool" where
  "adc_over a b c \<longleftrightarrow> \<not> (- (2 ^ 63) \<le> sint a + sint b + of_bool c \<and> sint a + sint b + of_bool c < 2 ^ 63)"

definition adc :: "GPR \<Rightarrow> u64 \<Rightarrow> u64 \<Rightarrow> bool \<Rightarrow> bool \<Rightarrow> bool \<Rightarrow> PPC \<Rightarrow> PPC" where
  "adc r a b c oe rc s =
     (let s1 = s\<lparr>ca := adc_carry a b c\<rparr>;
          s2 = (if oe then s1\<lparr>ov := adc_over a b c, so := so s \<or> adc_over a b c\<rparr> else s1)
      in put r (a + b + of_bool c) rc s2)"

text \<open>Memory is little-endian and flat; the access of \<open>n\<close> bytes at an address never traps.\<close>

definition load_bytes :: "nat \<Rightarrow> PPC \<Rightarrow> u64 \<Rightarrow> u8 list" where
  "load_bytes n s ea = map (\<lambda>i. mem s (ea + of_nat i)) [0..<n]"

definition load_le :: "nat \<Rightarrow> PPC \<Rightarrow> u64 \<Rightarrow> u64" where
  "load_le n s ea = le_word (load_bytes n s ea)"

definition load_be :: "nat \<Rightarrow> PPC \<Rightarrow> u64 \<Rightarrow> u64" where
  "load_be n s ea = le_word (rev (load_bytes n s ea))"

definition store_bytes :: "u8 list \<Rightarrow> u64 \<Rightarrow> PPC \<Rightarrow> PPC" where
  "store_bytes bs ea s = s\<lparr>mem := \<lambda>a. if unat (a - ea) < length bs then bs ! unat (a - ea) else mem s a\<rparr>"

definition store_le :: "nat \<Rightarrow> u64 \<Rightarrow> u64 \<Rightarrow> PPC \<Rightarrow> PPC" where
  "store_le n v ea s = store_bytes (le_bytes n v) ea s"

definition store_be :: "nat \<Rightarrow> u64 \<Rightarrow> u64 \<Rightarrow> PPC \<Rightarrow> PPC" where
  "store_be n v ea s = store_bytes (rev (le_bytes n v)) ea s"

definition or_zero :: "PPC \<Rightarrow> GPR \<Rightarrow> u64" where
  "or_zero s ra = (if ra = 0 then 0 else gpr s ra)"

definition mask64 :: "nat \<Rightarrow> nat \<Rightarrow> u64" where
  "mask64 mb me =
     (if mb \<le> me then take_bit (64 - mb) (NOT (mask (63 - me)))
      else take_bit (64 - mb) (- 1) OR NOT (mask (63 - me)))"

definition rotl32 :: "nat \<Rightarrow> u64 \<Rightarrow> u64" where
  "rotl32 n x = (let w = word_rotl n (ucast x :: u32) in ucast w OR push_bit 32 (ucast w))"

definition insert_mask :: "u64 \<Rightarrow> u64 \<Rightarrow> u64 \<Rightarrow> u64" where
  "insert_mask m x old = (x AND m) OR (old AND NOT m)"

lemma setr_simps [simp]:
  "gpr (setr r v s) = (gpr s)(r := v)" "cr (setr r v s) = cr s" "ca (setr r v s) = ca s" "ov (setr r v s) = ov s"
  "so (setr r v s) = so s" "xer (setr r v s) = xer s" "mem (setr r v s) = mem s" "setr r v (setr r w s) = setr r v s"
  by (simp_all add: setr_def)

lemma setr_same: "setr r (gpr s r) s = s"
  by (simp add: setr_def)

lemma set_cr0_simps [simp]:
  "gpr (set_cr0 v s) = gpr s" "ca (set_cr0 v s) = ca s" "ov (set_cr0 v s) = ov s" "so (set_cr0 v s) = so s"
  "xer (set_cr0 v s) = xer s" "mem (set_cr0 v s) = mem s"
  by (simp_all add: set_cr0_def)

subsection \<open>An instruction-word decoder\<close>

definition isa_31_mem :: "GPR \<Rightarrow> GPR \<Rightarrow> GPR \<Rightarrow> u32 \<Rightarrow> PPC \<Rightarrow> PPC option" where
  "isa_31_mem rt ra rb xo s =
     (let ea = or_zero s ra + gpr s rb; v = gpr s rt in
      if xo = 87 then Some (setr rt (load_le 1 s ea) s)
      else if xo = 279 then Some (setr rt (load_le 2 s ea) s)
      else if xo = 23 then Some (setr rt (load_le 4 s ea) s)
      else if xo = 21 then Some (setr rt (load_le 8 s ea) s)
      else if xo = 215 then Some (store_le 1 v ea s)
      else if xo = 407 then Some (store_le 2 v ea s)
      else if xo = 151 then Some (store_le 4 v ea s)
      else if xo = 149 then Some (store_le 8 v ea s)
      else if xo = 790 then Some (setr rt (load_be 2 s ea) s)
      else if xo = 534 then Some (setr rt (load_be 4 s ea) s)
      else if xo = 532 then Some (setr rt (load_be 8 s ea) s)
      else if xo = 918 then Some (store_be 2 v ea s)
      else if xo = 662 then Some (store_be 4 v ea s)
      else if xo = 660 then Some (store_be 8 v ea s)
      else if xo = 598 then Some s
      else None)"

definition isa_D_mem :: "u32 \<Rightarrow> GPR \<Rightarrow> GPR \<Rightarrow> u16 \<Rightarrow> PPC \<Rightarrow> PPC option" where
  "isa_D_mem opc rt ra d s =
     (let ea = or_zero s ra + scast d; v = gpr s rt in
      if opc = 34 then Some (setr rt (load_le 1 s ea) s)
      else if opc = 40 then Some (setr rt (load_le 2 s ea) s)
      else if opc = 32 then Some (setr rt (load_le 4 s ea) s)
      else if opc = 58 \<and> d AND 3 = 0 then Some (setr rt (load_le 8 s ea) s)
      else if opc = 38 then Some (store_le 1 v ea s)
      else if opc = 44 then Some (store_le 2 v ea s)
      else if opc = 36 then Some (store_le 4 v ea s)
      else if opc = 62 \<and> d AND 3 = 0 then Some (store_le 8 v ea s)
      else None)"

definition isa_31 :: "GPR \<Rightarrow> GPR \<Rightarrow> GPR \<Rightarrow> u32 \<Rightarrow> bool \<Rightarrow> PPC \<Rightarrow> PPC option" where
  "isa_31 rs ra rb xo rc s =
     (let t = gpr s rs; a = gpr s ra; b = gpr s rb; t32 = (ucast t :: u32); a32 = (ucast a :: u32); b32 = (ucast b :: u32) in
      if xo AND 0x1F = 15 then
        Some (setr rs (if cr s (unat (drop_bit 5 xo)) then (if ra = 0 then 0 else a) else b) s)
      else if xo = 0 then
        Some (if bit rs 0 then compare_signed (unat rs div 4) (sint a) (sint b) s
              else compare_signed (unat rs div 4) (sint a32) (sint b32) s)
      else if xo = 32 then
        Some (if bit rs 0 then compare_signed (unat rs div 4) (uint a) (uint b) s
              else compare_signed (unat rs div 4) (uint a32) (uint b32) s)
      else if xo = 339 \<and> ra = 1 \<and> rb = 0 then Some (setr rs (xer_value s) s)
      else if xo = 467 \<and> ra = 1 \<and> rb = 0 then Some (set_xer t s)
      else if xo = 144 \<and> bit ra 4 then Some (set_cr_fields (push_bit 4 (ucast ra) OR drop_bit 1 (ucast rb)) t s)
      else if xo = 19 \<and> bit ra 4 then Some (setr rs (cr_fields (push_bit 4 (ucast ra) OR drop_bit 1 (ucast rb)) s) s)
      else if xo = 778 then
        Some (put rs (a + b) rc (s\<lparr>ov := adc_over a b False, so := so s \<or> adc_over a b False\<rparr>))
      else if xo = 266 then Some (put rs (a + b) rc s)
      else if xo = 522 then Some (adc rs a b False True rc s)
      else if xo = 138 then Some (adc rs a b (ca s) False rc s)
      else if xo = 650 then Some (adc rs a b (ca s) True rc s)
      else if xo = 40 then Some (put rs (b - a) rc s)
      else if xo = 8 then Some (adc rs (NOT a) b True False rc s)
      else if xo = 520 then Some (adc rs (NOT a) b True True rc s)
      else if xo = 136 then Some (adc rs (NOT a) b (ca s) False rc s)
      else if xo = 648 then Some (adc rs (NOT a) b (ca s) True rc s)
      else if xo = 104 then Some (put rs (- a) rc s)
      else if xo = 235 then Some (put rs (word_of_int (sint a32 * sint b32)) rc s)
      else if xo = 233 then Some (put rs (a * b) rc s)
      else if xo = 73 then Some (put rs (word_of_int (sint a * sint b div 2 ^ 64)) rc s)
      else if xo = 9 then Some (put rs (word_of_int (uint a * uint b div 2 ^ 64)) rc s)
      else if xo = 75 then Some (put rs (word_of_int (sint a32 * sint b32 div 2 ^ 32)) rc s)
      else if xo = 11 then Some (put rs (word_of_int (uint a32 * uint b32 div 2 ^ 32)) rc s)
      else if xo = 489 then Some (put rs (word_of_int (sint a sdiv sint b)) rc s)
      else if xo = 457 then Some (put rs (a div b) rc s)
      else if xo = 491 then Some (put rs (word_of_int (sint a32 sdiv sint b32)) rc s)
      else if xo = 459 then Some (put rs (ucast (a32 div b32)) rc s)
      else if xo = 28 then Some (put ra (t AND b) rc s)
      else if xo = 60 then Some (put ra (t AND NOT b) rc s)
      else if xo = 444 then Some (put ra (t OR b) rc s)
      else if xo = 412 then Some (put ra (t OR NOT b) rc s)
      else if xo = 316 then Some (put ra (t XOR b) rc s)
      else if xo = 124 then Some (put ra (NOT (t OR b)) rc s)
      else if xo = 24 then Some (put ra (ucast (push_bit (unat b mod 64) t32)) rc s)
      else if xo = 536 then Some (put ra (ucast (drop_bit (unat b mod 64) t32)) rc s)
      else if xo = 27 then Some (put ra (push_bit (unat b mod 128) t) rc s)
      else if xo = 539 then Some (put ra (drop_bit (unat b mod 128) t) rc s)
      else if xo = 954 then Some (put ra (scast (ucast t :: u8)) rc s)
      else if xo = 922 then Some (put ra (scast (ucast t :: u16)) rc s)
      else if xo = 986 then Some (put ra (scast t32) rc s)
      else if xo = 26 then Some (put ra (of_nat (countl_zero t32)) rc s)
      else if xo = 58 then Some (put ra (of_nat (countl_zero t)) rc s)
      else if xo = 506 then Some (put ra (of_nat (popcount t)) rc s)
      else isa_31_mem rs ra rb xo s)"

definition isa_19 :: "GPR \<Rightarrow> GPR \<Rightarrow> GPR \<Rightarrow> u32 \<Rightarrow> PPC \<Rightarrow> PPC option" where
  "isa_19 bt ba bb xo s =
     (let a = cr s (unat ba); b = cr s (unat bb) in
      if xo = 257 then Some (set_cr_bit (unat bt) (a \<and> b) s)
      else if xo = 449 then Some (set_cr_bit (unat bt) (a \<or> b) s)
      else if xo = 193 then Some (set_cr_bit (unat bt) (a \<noteq> b) s)
      else if xo = 289 then Some (set_cr_bit (unat bt) (a = b) s)
      else if xo = 225 then Some (set_cr_bit (unat bt) (\<not> (a \<and> b)) s)
      else if xo = 129 then Some (set_cr_bit (unat bt) (a \<and> \<not> b) s)
      else if xo = 33 then Some (set_cr_bit (unat bt) (\<not> (a \<or> b)) s)
      else None)"

definition isa_30 :: "GPR \<Rightarrow> GPR \<Rightarrow> GPR \<Rightarrow> nat \<Rightarrow> nat \<Rightarrow> u32 \<Rightarrow> bool \<Rightarrow> PPC \<Rightarrow> PPC option" where
  "isa_30 rs ra rb sh m xo rc s =
     (let x = word_rotl sh (gpr s rs) in
      if xo = 0 then Some (put ra (x AND mask64 m 63) rc s)
      else if xo = 1 then Some (put ra (x AND mask64 0 m) rc s)
      else if xo = 2 then Some (put ra (x AND mask64 m (63 - sh)) rc s)
      else if xo = 3 then Some (put ra (insert_mask (mask64 m (63 - sh)) x (gpr s ra)) rc s)
      else if xo = 4 \<and> sh < 32 then Some (put ra (word_rotl (unat (gpr s rb) mod 64) (gpr s rs) AND mask64 m 63) rc s)
      else None)"

definition isa_M :: "u32 \<Rightarrow> GPR \<Rightarrow> GPR \<Rightarrow> GPR \<Rightarrow> nat \<Rightarrow> nat \<Rightarrow> nat \<Rightarrow> bool \<Rightarrow> PPC \<Rightarrow> PPC option" where
  "isa_M opc rs ra rb sh mb me rc s =
     (let m = mask64 (mb + 32) (me + 32) in
      if opc = 21 then Some (put ra (rotl32 sh (gpr s rs) AND m) rc s)
      else if opc = 20 then Some (put ra (insert_mask m (rotl32 sh (gpr s rs)) (gpr s ra)) rc s)
      else if opc = 23 then Some (put ra (rotl32 (unat (gpr s rb) mod 32) (gpr s rs) AND m) rc s)
      else None)"

definition isa_D :: "u32 \<Rightarrow> GPR \<Rightarrow> GPR \<Rightarrow> u16 \<Rightarrow> PPC \<Rightarrow> PPC option" where
  "isa_D opc rt ra d s =
     (let a0 = (if ra = 0 then 0 else gpr s ra) in
      if opc = 11 then
        Some (if bit rt 0 then compare_signed (unat rt div 4) (sint (gpr s ra)) (sint d) s
              else compare_signed (unat rt div 4) (sint (ucast (gpr s ra) :: u32)) (sint d) s)
      else if opc = 10 then
        Some (if bit rt 0 then compare_signed (unat rt div 4) (uint (gpr s ra)) (uint d) s
              else compare_signed (unat rt div 4) (uint (ucast (gpr s ra) :: u32)) (uint d) s)
      else if opc = 12 then Some (adc rt (gpr s ra) (scast d) False False False s)
      else if opc = 14 then Some (setr rt (a0 + scast d) s)
      else if opc = 15 then Some (setr rt (a0 + push_bit 16 (scast d)) s)
      else if opc = 7 then Some (setr rt (gpr s ra * scast d) s)
      else if opc = 24 then Some (setr ra (gpr s rt OR ucast d) s)
      else if opc = 25 then Some (setr ra (gpr s rt OR push_bit 16 (ucast d)) s)
      else if opc = 26 then Some (setr ra (gpr s rt XOR ucast d) s)
      else if opc = 27 then Some (setr ra (gpr s rt XOR push_bit 16 (ucast d)) s)
      else if opc = 28 then Some (put ra (gpr s rt AND ucast d) True s)
      else if opc = 29 then Some (put ra (gpr s rt AND push_bit 16 (ucast d)) True s)
      else isa_D_mem opc rt ra d s)"

definition isa_step :: "u32 \<Rightarrow> PPC \<Rightarrow> PPC option" where
  "isa_step w s =
     (let opc = fld 26 6 w; rs = ucast (fld 21 5 w); ra = ucast (fld 16 5 w); rb = ucast (fld 11 5 w); rc = (fld 0 1 w = 1) in
      if opc = 31 then isa_31 rs ra rb (fld 1 10 w) rc s
      else if opc = 19 then isa_19 rs ra rb (fld 1 10 w) s
      else if opc = 30 then isa_30 rs ra rb (split6 (fld 11 5 w) (fld 1 1 w)) (split6 (fld 6 5 w) (fld 5 1 w)) (fld 2 3 w) rc s
      else if opc = 20 \<or> opc = 21 \<or> opc = 23 then
        isa_M opc rs ra rb (unat (fld 11 5 w)) (unat (fld 6 5 w)) (unat (fld 1 5 w)) rc s
      else isa_D opc rs ra (ucast (fld 0 16 w)) s)"

subsection \<open>Running emitted code\<close>

definition exec :: "(u32 \<Rightarrow> PPC \<Rightarrow> PPC option) \<Rightarrow> insn \<Rightarrow> PPC \<Rightarrow> PPC option" where
  "exec step i s = (case i of None \<Rightarrow> None | Some w \<Rightarrow> step w s)"

primrec run :: "(u32 \<Rightarrow> PPC \<Rightarrow> PPC option) \<Rightarrow> insn list \<Rightarrow> PPC \<Rightarrow> PPC option" where
  "run step [] s = Some s"
| "run step (i # is) s = (case exec step i s of None \<Rightarrow> None | Some s' \<Rightarrow> run step is s')"

lemma run_append: "run step (xs @ ys) s = (case run step xs s of None \<Rightarrow> None | Some s' \<Rightarrow> run step ys s')"
  by (induction xs arbitrary: s) (auto split: option.splits)

locale ppc_isa =
  fixes step :: "u32 \<Rightarrow> PPC \<Rightarrow> PPC option"
  assumes step_add: "exec step (add rt ra rb) s = Some (setr rt (gpr s ra + gpr s rb) s)"
    and step_addi: "exec step (addi rt ra si) s = Some (setr rt ((if ra = 0 then 0 else gpr s ra) + scast si) s)"
    and step_addis: "exec step (addis rt ra si) s = Some (setr rt ((if ra = 0 then 0 else gpr s ra) + push_bit 16 (scast si)) s)"
    and step_addco: "exec step (addco rt ra rb) s = Some (adc rt (gpr s ra) (gpr s rb) False True False s)"
    and step_addco_rc: "exec step (addco_rc rt ra rb) s = Some (adc rt (gpr s ra) (gpr s rb) False True True s)"
    and step_adde: "exec step (adde rt ra rb) s = Some (adc rt (gpr s ra) (gpr s rb) (ca s) False False s)"
    and step_addeo_rc: "exec step (addeo_rc rt ra rb) s = Some (adc rt (gpr s ra) (gpr s rb) (ca s) True True s)"
    and step_subf: "exec step (subf rt ra rb) s = Some (setr rt (gpr s rb - gpr s ra) s)"
    and step_subfc: "exec step (subfc rt ra rb) s = Some (adc rt (NOT (gpr s ra)) (gpr s rb) True False False s)"
    and step_subfco_rc: "exec step (subfco_rc rt ra rb) s = Some (adc rt (NOT (gpr s ra)) (gpr s rb) True True True s)"
    and step_subfe: "exec step (subfe rt ra rb) s = Some (adc rt (NOT (gpr s ra)) (gpr s rb) (ca s) False False s)"
    and step_subfeo_rc: "exec step (subfeo_rc rt ra rb) s = Some (adc rt (NOT (gpr s ra)) (gpr s rb) (ca s) True True s)"
    and step_neg: "exec step (neg rt ra) s = Some (setr rt (- gpr s ra) s)"
    and step_mulli: "exec step (mulli rt ra si) s = Some (setr rt (gpr s ra * scast si) s)"
    and step_mullw: "exec step (mullw rt ra rb) s =
      Some (setr rt (word_of_int (sint (ucast (gpr s ra) :: u32) * sint (ucast (gpr s rb) :: u32))) s)"
    and step_mulld: "exec step (mulld rt ra rb) s = Some (setr rt (gpr s ra * gpr s rb) s)"
    and step_mulhd: "exec step (mulhd rt ra rb) s = Some (setr rt (word_of_int (sint (gpr s ra) * sint (gpr s rb) div 2 ^ 64)) s)"
    and step_mulhdu: "exec step (mulhdu rt ra rb) s = Some (setr rt (word_of_int (uint (gpr s ra) * uint (gpr s rb) div 2 ^ 64)) s)"
    and step_mulhw: "\<exists>v. exec step (mulhw rt ra rb) s = Some (setr rt v s) \<and>
      (ucast v :: u32) = word_of_int (sint (ucast (gpr s ra) :: u32) * sint (ucast (gpr s rb) :: u32) div 2 ^ 32)"
    and step_mulhwu: "\<exists>v. exec step (mulhwu rt ra rb) s = Some (setr rt v s) \<and>
      (ucast v :: u32) = word_of_int (uint (ucast (gpr s ra) :: u32) * uint (ucast (gpr s rb) :: u32) div 2 ^ 32)"
    and step_divd: "\<exists>v. exec step (divd rt ra rb) s = Some (setr rt v s) \<and>
      (gpr s rb \<noteq> 0 \<longrightarrow> v = word_of_int (sint (gpr s ra) sdiv sint (gpr s rb)) \<or>
        sint (gpr s ra) = - (2 ^ 63) \<and> sint (gpr s rb) = - 1)"
    and step_divdu: "\<exists>v. exec step (divdu rt ra rb) s = Some (setr rt v s) \<and>
      (gpr s rb \<noteq> 0 \<longrightarrow> v = gpr s ra div gpr s rb)"
    and step_divw: "\<exists>v. exec step (divw rt ra rb) s = Some (setr rt v s) \<and>
      ((ucast (gpr s rb) :: u32) \<noteq> 0 \<longrightarrow>
        (ucast v :: u32) = word_of_int (sint (ucast (gpr s ra) :: u32) sdiv sint (ucast (gpr s rb) :: u32)) \<or>
        sint (ucast (gpr s ra) :: u32) = - (2 ^ 31) \<and> sint (ucast (gpr s rb) :: u32) = - 1)"
    and step_divwu: "\<exists>v. exec step (divwu rt ra rb) s = Some (setr rt v s) \<and>
      ((ucast (gpr s rb) :: u32) \<noteq> 0 \<longrightarrow> (ucast v :: u32) = ucast (gpr s ra) div ucast (gpr s rb))"
    and step_and: "exec step (and_r ra rs rb) s = Some (setr ra (gpr s rs AND gpr s rb) s)"
    and step_and_rc: "exec step (and_rc ra rs rb) s = Some (put ra (gpr s rs AND gpr s rb) True s)"
    and step_andc: "exec step (andc ra rs rb) s = Some (setr ra (gpr s rs AND NOT (gpr s rb)) s)"
    and step_or: "exec step (or_r ra rs rb) s = Some (setr ra (gpr s rs OR gpr s rb) s)"
    and step_orc: "exec step (orc ra rs rb) s = Some (setr ra (gpr s rs OR NOT (gpr s rb)) s)"
    and step_xor: "exec step (xor_r ra rs rb) s = Some (setr ra (gpr s rs XOR gpr s rb) s)"
    and step_nor: "exec step (nor ra rs rb) s = Some (setr ra (NOT (gpr s rs OR gpr s rb)) s)"
    and step_ori: "exec step (ori ra rs ui) s = Some (setr ra (gpr s rs OR ucast ui) s)"
    and step_oris: "exec step (oris ra rs ui) s = Some (setr ra (gpr s rs OR push_bit 16 (ucast ui)) s)"
    and step_xori: "exec step (xori ra rs ui) s = Some (setr ra (gpr s rs XOR ucast ui) s)"
    and step_xoris: "exec step (xoris ra rs ui) s = Some (setr ra (gpr s rs XOR push_bit 16 (ucast ui)) s)"
    and step_andi_rc: "exec step (andi_rc ra rs ui) s = Some (put ra (gpr s rs AND ucast ui) True s)"
    and step_andis_rc: "exec step (andis_rc ra rs ui) s = Some (put ra (gpr s rs AND push_bit 16 (ucast ui)) True s)"
    and step_slw: "exec step (slw ra rs rb) s = Some (setr ra (ucast (push_bit (unat (gpr s rb) mod 64) (ucast (gpr s rs) :: u32))) s)"
    and step_srw: "exec step (srw ra rs rb) s = Some (setr ra (ucast (drop_bit (unat (gpr s rb) mod 64) (ucast (gpr s rs) :: u32))) s)"
    and step_sld: "exec step (sld ra rs rb) s = Some (setr ra (push_bit (unat (gpr s rb) mod 128) (gpr s rs)) s)"
    and step_srd: "exec step (srd ra rs rb) s = Some (setr ra (drop_bit (unat (gpr s rb) mod 128) (gpr s rs)) s)"
    and step_rlwinm: "sh < 32 \<Longrightarrow> mb < 32 \<Longrightarrow> me < 32 \<Longrightarrow>
      exec step (rlwinm ra rs sh mb me) s = Some (setr ra (rotl32 (unat sh) (gpr s rs) AND mask64 (unat mb + 32) (unat me + 32)) s)"
    and step_rlwinm_rc: "sh < 32 \<Longrightarrow> mb < 32 \<Longrightarrow> me < 32 \<Longrightarrow>
      exec step (rlwinm_rc ra rs sh mb me) s =
        Some (put ra (rotl32 (unat sh) (gpr s rs) AND mask64 (unat mb + 32) (unat me + 32)) True s)"
    and step_rlwimi: "sh < 32 \<Longrightarrow> mb < 32 \<Longrightarrow> me < 32 \<Longrightarrow>
      exec step (rlwimi ra rs sh mb me) s =
        Some (setr ra (insert_mask (mask64 (unat mb + 32) (unat me + 32)) (rotl32 (unat sh) (gpr s rs)) (gpr s ra)) s)"
    and step_rlwnm: "mb < 32 \<Longrightarrow> me < 32 \<Longrightarrow>
      exec step (rlwnm ra rs rb mb me) s =
        Some (setr ra (rotl32 (unat (gpr s rb) mod 32) (gpr s rs) AND mask64 (unat mb + 32) (unat me + 32)) s)"
    and step_rldicl: "exec step (rldicl ra rs sh mb) s =
      Some (setr ra (word_rotl (unat sh mod 64) (gpr s rs) AND mask64 (unat mb mod 64) 63) s)"
    and step_rldicl_rc: "exec step (rldicl_rc ra rs sh mb) s =
      Some (put ra (word_rotl (unat sh mod 64) (gpr s rs) AND mask64 (unat mb mod 64) 63) True s)"
    and step_rldicr: "exec step (rldicr ra rs sh me) s =
      Some (setr ra (word_rotl (unat sh mod 64) (gpr s rs) AND mask64 0 (unat me mod 64)) s)"
    and step_rldic: "exec step (rldic ra rs sh mb) s =
      Some (setr ra (word_rotl (unat sh mod 64) (gpr s rs) AND mask64 (unat mb mod 64) (63 - unat sh mod 64)) s)"
    and step_rldimi: "exec step (rldimi ra rs sh mb) s =
      Some (setr ra (insert_mask (mask64 (unat mb mod 64) (63 - unat sh mod 64)) (word_rotl (unat sh mod 64) (gpr s rs)) (gpr s ra)) s)"
    and step_rldcl: "exec step (rldcl ra rs rb mb) s =
      Some (setr ra (word_rotl (unat (gpr s rb) mod 64) (gpr s rs) AND mask64 (unat mb mod 64) 63) s)"
    and step_extsb: "exec step (extsb ra rs) s = Some (setr ra (scast (ucast (gpr s rs) :: u8)) s)"
    and step_extsh: "exec step (extsh ra rs) s = Some (setr ra (scast (ucast (gpr s rs) :: u16)) s)"
    and step_extsw: "exec step (extsw ra rs) s = Some (setr ra (scast (ucast (gpr s rs) :: u32)) s)"
    and step_extsb_rc: "exec step (extsb_rc ra rs) s = Some (put ra (scast (ucast (gpr s rs) :: u8)) True s)"
    and step_extsh_rc: "exec step (extsh_rc ra rs) s = Some (put ra (scast (ucast (gpr s rs) :: u16)) True s)"
    and step_extsw_rc: "exec step (extsw_rc ra rs) s = Some (put ra (scast (ucast (gpr s rs) :: u32)) True s)"
    and step_cntlzw: "exec step (cntlzw ra rs) s = Some (setr ra (of_nat (countl_zero (ucast (gpr s rs) :: u32))) s)"
    and step_cntlzd: "exec step (cntlzd ra rs) s = Some (setr ra (of_nat (countl_zero (gpr s rs))) s)"
    and step_popcntd: "exec step (popcntd ra rs) s = Some (setr ra (of_nat (popcount (gpr s rs))) s)"
    and step_addic: "exec step (addic rt ra si) s = Some (adc rt (gpr s ra) (scast si) False False False s)"
    and step_addo: "exec step (addo rt ra rb) s = Some (setr rt (gpr s ra + gpr s rb)
      (s\<lparr>ov := adc_over (gpr s ra) (gpr s rb) False, so := so s \<or> adc_over (gpr s ra) (gpr s rb) False\<rparr>))"
    and step_cmpdi: "unat bf < 8 \<Longrightarrow> exec step (cmpdi bf ra si) s = Some (compare_signed (unat bf) (sint (gpr s ra)) (sint si) s)"
    and step_cmpwi: "unat bf < 8 \<Longrightarrow>
      exec step (cmpwi bf ra si) s = Some (compare_signed (unat bf) (sint (ucast (gpr s ra) :: u32)) (sint si) s)"
    and step_cmpldi: "unat bf < 8 \<Longrightarrow> exec step (cmpldi bf ra ui) s = Some (compare_signed (unat bf) (uint (gpr s ra)) (uint ui) s)"
    and step_cmplwi: "unat bf < 8 \<Longrightarrow>
      exec step (cmplwi bf ra ui) s = Some (compare_signed (unat bf) (uint (ucast (gpr s ra) :: u32)) (uint ui) s)"
    and step_cmpd: "unat bf < 8 \<Longrightarrow> exec step (cmpd bf ra rb) s = Some (compare_signed (unat bf) (sint (gpr s ra)) (sint (gpr s rb)) s)"
    and step_cmpw: "unat bf < 8 \<Longrightarrow> exec step (cmpw bf ra rb) s =
      Some (compare_signed (unat bf) (sint (ucast (gpr s ra) :: u32)) (sint (ucast (gpr s rb) :: u32)) s)"
    and step_cmpld: "unat bf < 8 \<Longrightarrow> exec step (cmpld bf ra rb) s = Some (compare_signed (unat bf) (uint (gpr s ra)) (uint (gpr s rb)) s)"
    and step_cmplw: "unat bf < 8 \<Longrightarrow> exec step (cmplw bf ra rb) s =
      Some (compare_signed (unat bf) (uint (ucast (gpr s ra) :: u32)) (uint (ucast (gpr s rb) :: u32)) s)"
    and step_isel: "unat bc < 32 \<Longrightarrow> exec step (isel rt ra rb bc) s =
      Some (setr rt (if cr s (unat bc) then (if ra = 0 then 0 else gpr s ra) else gpr s rb) s)"
    and step_mfxer: "exec step (mfspr rt 1) s = Some (setr rt (xer_value s) s)"
    and step_mtxer: "exec step (mtspr 1 rs) s = Some (set_xer (gpr s rs) s)"
    and step_crand: "bt < 32 \<Longrightarrow> ba < 32 \<Longrightarrow> bb < 32 \<Longrightarrow> exec step (crand bt ba bb) s = Some (set_cr_bit (unat bt) (cr s (unat ba) \<and> cr s (unat bb)) s)"
    and step_cror: "bt < 32 \<Longrightarrow> ba < 32 \<Longrightarrow> bb < 32 \<Longrightarrow> exec step (cror bt ba bb) s = Some (set_cr_bit (unat bt) (cr s (unat ba) \<or> cr s (unat bb)) s)"
    and step_crxor: "bt < 32 \<Longrightarrow> ba < 32 \<Longrightarrow> bb < 32 \<Longrightarrow> exec step (crxor bt ba bb) s = Some (set_cr_bit (unat bt) (cr s (unat ba) \<noteq> cr s (unat bb)) s)"
    and step_creqv: "bt < 32 \<Longrightarrow> ba < 32 \<Longrightarrow> bb < 32 \<Longrightarrow> exec step (creqv bt ba bb) s = Some (set_cr_bit (unat bt) (cr s (unat ba) = cr s (unat bb)) s)"
    and step_crnand: "bt < 32 \<Longrightarrow> ba < 32 \<Longrightarrow> bb < 32 \<Longrightarrow> exec step (crnand bt ba bb) s = Some (set_cr_bit (unat bt) (\<not> (cr s (unat ba) \<and> cr s (unat bb))) s)"
    and step_crandc: "bt < 32 \<Longrightarrow> ba < 32 \<Longrightarrow> bb < 32 \<Longrightarrow> exec step (crandc bt ba bb) s = Some (set_cr_bit (unat bt) (cr s (unat ba) \<and> \<not> cr s (unat bb)) s)"
    and step_crnor: "bt < 32 \<Longrightarrow> ba < 32 \<Longrightarrow> bb < 32 \<Longrightarrow> exec step (crnor bt ba bb) s = Some (set_cr_bit (unat bt) (\<not> (cr s (unat ba) \<or> cr s (unat bb))) s)"
    and step_mtocrf: "fxm = 0x80 \<or> fxm = 0x40 \<Longrightarrow> exec step (mtocrf fxm rs) s = Some (set_cr_fields (ucast fxm) (gpr s rs) s)"
    and step_mfocrf: "fxm = 0x80 \<or> fxm = 0x40 \<Longrightarrow> \<exists>v. exec step (mfocrf rt fxm) s = Some (setr rt v s) \<and>
      (\<forall>n < 32. bit fxm (7 - n div 4) \<longrightarrow> bit v (31 - n) = cr s n)"

subsection \<open>The decoder is such a processor\<close>

lemma exec_X:
  assumes "unat rb < 32" "unat xo < 1024" "unat rc < 2"
  shows "exec isa_step (EmitX 31 (idx rs) (idx ra) rb xo rc) s = isa_31 rs ra (ucast rb) xo (rc = 1) s"
proof -
  define w where "w = push_bit 26 31 OR push_bit 21 (idx rs) OR push_bit 16 (idx ra) OR push_bit 11 rb OR push_bit 1 xo OR rc"
  note f = X_fields [OF _ _ _ assms, of 31 "idx rs" "idx ra", folded w_def]
  have "EmitX 31 (idx rs) (idx ra) rb xo rc = Some w" by (simp only: EmitX_def w_def)
  then show ?thesis by (simp add: exec_def isa_step_def f insn_field del: One_nat_def)
qed

lemma exec_XO:
  assumes "unat rb < 32" "unat (push_bit 9 oe OR xo :: u32) < 1024" "unat rc < 2"
  shows "exec isa_step (EmitXO 31 (idx rs) (idx ra) rb oe xo rc) s = isa_31 rs ra (ucast rb) (push_bit 9 oe OR xo) (rc = 1) s"
  unfolding EmitXO_X by (rule exec_X [OF assms])

lemma exec_D:
  assumes "unat opc < 64" "opc \<noteq> 31" "opc \<noteq> 30" "opc \<noteq> 19" "opc \<noteq> 20" "opc \<noteq> 21" "opc \<noteq> 23"
  shows "exec isa_step (EmitD opc (idx rt) (idx ra) d) s = isa_D opc rt ra d s"
proof -
  define w where "w = push_bit 26 opc OR push_bit 21 (idx rt) OR push_bit 16 (idx ra) OR ucast d"
  note f = D_fields [OF assms(1), of "idx rt" "idx ra" "ucast d", folded w_def]
  have "EmitD opc (idx rt) (idx ra) d = Some w" by (simp only: EmitD_def w_def)
  then show ?thesis using assms by (simp add: exec_def isa_step_def f insn_field del: One_nat_def)
qed

lemma exec_M:
  assumes "opc = 20 \<or> opc = 21" "sh < 32" "mb < 32" "me < 32" "unat rc < 2"
  shows "exec isa_step (EmitM opc (idx rs) (idx ra) sh mb me rc) s =
    isa_M opc rs ra (ucast sh) (unat sh) (unat mb) (unat me) (rc = 1) s"
proof -
  define w where "w = push_bit 26 opc OR push_bit 21 (idx rs) OR push_bit 16 (idx ra) OR push_bit 11 sh OR push_bit 6 mb OR
    push_bit 1 me OR rc"
  have "unat opc < 64" "unat sh < 32" "unat mb < 32" "unat me < 32" using assms by (auto simp: word_less_nat_alt)
  note f = M_fields [OF this(1) _ _ this(2-4) assms(5), of "idx rs" "idx ra", folded w_def]
  have "EmitM opc (idx rs) (idx ra) sh mb me rc = Some w" using assms by (simp only: EmitM_def w_def simp_thms if_True)
  then show ?thesis using assms(1) by (auto simp: exec_def isa_step_def f insn_field simp del: One_nat_def)
qed

lemma exec_rlwnm:
  assumes "mb < 32" "me < 32"
  shows "exec isa_step (rlwnm ra rs rb mb me) s = isa_M 23 rs ra rb (unat (idx rb)) (unat mb) (unat me) False s"
proof -
  define w where "w = push_bit 26 23 OR push_bit 21 (idx rs) OR push_bit 16 (idx ra) OR push_bit 11 (idx rb) OR push_bit 6 mb OR
    push_bit 1 me OR 0"
  have m: "unat mb < 2 ^ 5" "unat me < 2 ^ 5" using assms by (simp_all add: word_less_nat_alt)
  have "mb AND 0x1F = mb" "me AND 0x1F = me" using m by (simp_all add: and_31_small)
  then have "rlwnm ra rs rb mb me = Some w" using assms by (simp only: rlwnm_def w_def simp_thms if_True)
  note f = M_fields [of 23 "idx rs" "idx ra" "idx rb" mb me 0, folded w_def]
  show ?thesis using m by (simp add: \<open>rlwnm ra rs rb mb me = Some w\<close> exec_def isa_step_def f insn_field del: One_nat_def)
qed

lemma exec_MD:
  assumes "unat xo < 8" "unat rc < 2"
  shows "exec isa_step (EmitMD (idx rs) (idx ra) sh m xo rc) s =
    isa_30 rs ra (ucast (sh AND 0x1F)) (unat sh mod 64) (unat m mod 64) xo (rc = 1) s"
proof -
  define w where "w = push_bit 26 30 OR push_bit 21 (idx rs) OR push_bit 16 (idx ra) OR push_bit 11 (sh AND 0x1F) OR
    push_bit 6 (m AND 0x1F) OR push_bit 5 (drop_bit 5 m AND 1) OR push_bit 2 xo OR push_bit 1 (drop_bit 5 sh AND 1) OR rc"
  note f = MD_fields [of 30 "idx rs" "idx ra" "sh AND 0x1F" "m AND 0x1F" "drop_bit 5 m AND 1" xo "drop_bit 5 sh AND 1" rc,
      folded w_def]
  have "EmitMD (idx rs) (idx ra) sh m xo rc = Some w" by (simp only: EmitMD_def w_def Let_def)
  then show ?thesis using assms by (simp add: exec_def isa_step_def f insn_field unat_and_less split6_field del: One_nat_def)
qed

lemma exec_rldcl:
  "exec isa_step (rldcl ra rs rb mb) s = isa_30 rs ra rb (unat (idx rb)) (unat mb mod 64) 4 False s"
proof -
  define w where "w = push_bit 26 30 OR push_bit 21 (idx rs) OR push_bit 16 (idx ra) OR push_bit 11 (idx rb) OR
    push_bit 6 (mb AND 0x1F) OR push_bit 5 (drop_bit 5 mb AND 1) OR push_bit 2 4 OR push_bit 1 0 OR 0"
  note f = MD_fields [of 30 "idx rs" "idx ra" "idx rb" "mb AND 0x1F" "drop_bit 5 mb AND 1" 4 0 0, folded w_def]
  have "rldcl ra rs rb mb = Some w" by (simp add: rldcl_def w_def Let_def)
  then show ?thesis by (simp add: exec_def isa_step_def f insn_field unat_and_less split6_field split6_def [of _ 0] del: One_nat_def)
qed

text \<open>A compare keeps its field number and operand length where other forms have the target register.\<close>

definition cmp_field :: "u32 \<Rightarrow> u32 \<Rightarrow> GPR" where
  "cmp_field bf l = ucast (push_bit 2 bf OR l)"

lemma cmp_field:
  assumes "unat bf < 8" "l = 0 \<or> l = 1"
  shows "push_bit 23 bf OR push_bit 21 l = push_bit 21 (idx (cmp_field bf l))"
    and "unat (cmp_field bf l) div 4 = unat bf" and "bit (cmp_field bf l) 0 \<longleftrightarrow> l = 1"
proof -
  define n where "n = unat bf"
  then have n: "bf = of_nat n" "n < 8" using assms(1) by simp_all
  then have "n \<in> {0, 1, 2, 3, 4, 5, 6, 7}" by auto
  then show "push_bit 23 bf OR push_bit 21 l = push_bit 21 (idx (cmp_field bf l))"
    and "unat (cmp_field bf l) div 4 = unat bf" and "bit (cmp_field bf l) 0 \<longleftrightarrow> l = 1"
    using assms(2) by (auto simp: n(1) cmp_field_def idx_def)
qed

lemma cmp_forms:
  assumes "unat bf < 8"
  shows "cmpdi bf ra si = EmitD 11 (idx (cmp_field bf 1)) (idx ra) si" "cmpwi bf ra si = EmitD 11 (idx (cmp_field bf 0)) (idx ra) si"
    "cmpldi bf ra si = EmitD 10 (idx (cmp_field bf 1)) (idx ra) si" "cmplwi bf ra si = EmitD 10 (idx (cmp_field bf 0)) (idx ra) si"
    "cmpd bf ra rb = EmitX 31 (idx (cmp_field bf 1)) (idx ra) (idx rb) 0 0"
    "cmpw bf ra rb = EmitX 31 (idx (cmp_field bf 0)) (idx ra) (idx rb) 0 0"
    "cmpld bf ra rb = EmitX 31 (idx (cmp_field bf 1)) (idx ra) (idx rb) 32 0"
    "cmplw bf ra rb = EmitX 31 (idx (cmp_field bf 0)) (idx ra) (idx rb) 32 0"
proof -
  have "push_bit 23 bf OR push_bit 21 l OR rest = push_bit 21 (idx (cmp_field bf l)) OR rest" if "l = 0 \<or> l = 1" for l rest
    using cmp_field(1) [OF assms that] by (simp only: flip: or.assoc)
  note join = this [OF disjI1 [OF refl]] this [OF disjI2 [OF refl]]
  show "cmpdi bf ra si = EmitD 11 (idx (cmp_field bf 1)) (idx ra) si" "cmpwi bf ra si = EmitD 11 (idx (cmp_field bf 0)) (idx ra) si"
    "cmpldi bf ra si = EmitD 10 (idx (cmp_field bf 1)) (idx ra) si" "cmplwi bf ra si = EmitD 10 (idx (cmp_field bf 0)) (idx ra) si"
    by (simp_all only: cmpdi_def cmpwi_def cmpldi_def cmplwi_def EmitD_def join)
  show "cmpd bf ra rb = EmitX 31 (idx (cmp_field bf 1)) (idx ra) (idx rb) 0 0"
    "cmpw bf ra rb = EmitX 31 (idx (cmp_field bf 0)) (idx ra) (idx rb) 0 0"
    "cmpld bf ra rb = EmitX 31 (idx (cmp_field bf 1)) (idx ra) (idx rb) 32 0"
    "cmplw bf ra rb = EmitX 31 (idx (cmp_field bf 0)) (idx ra) (idx rb) 32 0"
    by (simp_all only: cmpd_def cmpw_def cmpld_def cmplw_def EmitX_def join or.right_neutral)
qed

lemma isel_form:
  assumes "unat bc < 32"
  shows "isel rt ra rb bc = EmitX 31 (idx rt) (idx ra) (idx rb) (push_bit 5 bc OR 15) 0"
    and "unat (push_bit 5 bc OR 15) < 1024" and "(push_bit 5 bc OR 15) AND 0x1F = 15" and "drop_bit 5 (push_bit 5 bc) = bc"
proof -
  show "isel rt ra rb bc = EmitX 31 (idx rt) (idx ra) (idx rb) (push_bit 5 bc OR 15) 0"
    by (simp add: isel_def EmitX_def push_bit_or push_bit_push_bit or.assoc del: One_nat_def push_bit_Suc)
  have small: "bit bc n \<Longrightarrow> n < 5" for n using bit_less_exp [of bc 5 n] assms by simp
  have m: "(15 :: u32) = mask 4" "(0x1F :: u32) = mask 5" by (simp_all add: mask_eq_exp_minus_1)
  show "drop_bit 5 (push_bit 5 bc) = bc" using small
    by (intro bit_word_eqI) (force simp: bit_drop_bit_eq bit_push_bit_iff)
  show "(push_bit 5 bc OR 15) AND 0x1F = 15" unfolding m
    by (rule bit_word_eqI) (auto simp: bit_and_iff bit_or_iff bit_push_bit_iff bit_mask_iff)
  have "take_bit 10 (push_bit 5 bc OR 15) = push_bit 5 bc OR 15" unfolding m using small
    by (intro bit_word_eqI) (fastforce simp: bit_take_bit_iff bit_or_iff bit_push_bit_iff bit_mask_iff)
  then have "unat (push_bit 5 bc OR 15) = take_bit 10 (unat (push_bit 5 bc OR 15))"
    by (metis unsigned_take_bit_eq)
  also have "\<dots> < 2 ^ 10" by (rule take_bit_nat_less_exp)
  finally show "unat (push_bit 5 bc OR 15) < 1024" by simp
qed

lemma spr_forms:
  "mfspr rt 1 = EmitX 31 (idx rt) (idx 1) (idx 0) 339 0" "mtspr 1 rt = EmitX 31 (idx rt) (idx 1) (idx 0) 467 0"
  by (simp_all add: mfspr_def mtspr_def EmitX_def idx_def)

lemma exec_19:
  fixes bt ba bb xo :: u32
  assumes "bt < 32" "ba < 32" "bb < 32" "unat xo < 1024"
  shows "exec isa_step (Some (push_bit 26 19 OR push_bit 21 bt OR push_bit 16 ba OR push_bit 11 bb OR push_bit 1 xo)) s =
    isa_19 (ucast bt) (ucast ba) (ucast bb) xo s"
    and "unat (ucast bt :: GPR) = unat bt" "unat (ucast ba :: GPR) = unat ba" "unat (ucast bb :: GPR) = unat bb"
proof -
  define w where "w = push_bit 26 19 OR push_bit 21 bt OR push_bit 16 ba OR push_bit 11 bb OR push_bit 1 xo OR 0"
  have small: "unat bt < 32" "unat ba < 32" "unat bb < 32" using assms by (simp_all add: word_less_nat_alt)
  note f = X_fields [OF _ small assms(4), of 19 0, folded w_def]
  have "push_bit 26 19 OR push_bit 21 bt OR push_bit 16 ba OR push_bit 11 bb OR push_bit 1 xo = w" by (simp add: w_def)
  then show "exec isa_step (Some (push_bit 26 19 OR push_bit 21 bt OR push_bit 16 ba OR push_bit 11 bb OR push_bit 1 xo)) s =
    isa_19 (ucast bt) (ucast ba) (ucast bb) xo s"
    by (simp only: exec_def option.case) (simp add: isa_step_def f del: One_nat_def)
  show "unat (ucast bt :: GPR) = unat bt" "unat (ucast ba :: GPR) = unat ba" "unat (ucast bb :: GPR) = unat bb"
    using small by (simp_all add: unat_ucast_mod)
qed

lemma crf_forms:
  "mtocrf 0x80 rs = EmitX 31 (idx rs) (idx 24) (idx 0) 144 0" "mtocrf 0x40 rs = EmitX 31 (idx rs) (idx 20) (idx 0) 144 0"
  "mfocrf rs 0x80 = EmitX 31 (idx rs) (idx 24) (idx 0) 19 0" "mfocrf rs 0x40 = EmitX 31 (idx rs) (idx 20) (idx 0) 19 0"
  by (simp_all add: mtocrf_def mfocrf_def EmitX_def idx_def or.assoc)

lemma bit_cr_fields: "n < 32 \<Longrightarrow> bit fxm (7 - n div 4) \<Longrightarrow> bit (cr_fields fxm s) (31 - n) = cr s n"
proof -
  assume n: "n < 32" "bit fxm (7 - n div 4)"
  have "[0..<32] ! (31 - n) = 31 - n" by (subst nth_upt) auto
  moreover have "31 - (31 - n) = n" using n(1) by simp
  moreover have "31 - n < 32" by simp
  ultimately show ?thesis using n by (simp add: cr_fields_def bit_horner_sum_bit_iff less_imp_diff_less)
qed

lemma ex_setr: "P v \<Longrightarrow> \<exists>v'. Some (setr r v s) = Some (setr r v' s) \<and> P v'"
  by blast

lemma ucast_low32: "(ucast (word_of_int k :: u64) :: u32) = word_of_int k" "(ucast (ucast (w :: u32) :: u64) :: u32) = w"
  by (rule bit_word_eqI, simp add: bit_unsigned_iff bit_of_int_iff)+

lemmas mnemonic_defs = add_def addi_def addis_def addco_def addco_rc_def adde_def addeo_rc_def subf_def subfc_def subfco_rc_def
    subfe_def subfeo_rc_def neg_def mulli_def mullw_def mulld_def mulhd_def mulhdu_def mulhw_def mulhwu_def divd_def divdu_def
    divw_def divwu_def and_r_def and_rc_def andc_def or_r_def orc_def xor_r_def nor_def ori_def oris_def xori_def xoris_def
    andi_rc_def andis_rc_def slw_def srw_def sld_def srd_def rlwinm_def rlwinm_rc_def rlwimi_def rldicl_def rldicl_rc_def
    addic_def addo_def spr_forms rldicr_def rldic_def rldimi_def extsb_def extsh_def extsw_def extsb_rc_def extsh_rc_def extsw_rc_def cntlzw_def
    cntlzd_def popcntd_def

lemma exec_cr:
  assumes "bt < 32" "ba < 32" "bb < 32"
  shows "exec isa_step (crand bt ba bb) s = Some (set_cr_bit (unat bt) (cr s (unat ba) \<and> cr s (unat bb)) s)"
    "exec isa_step (cror bt ba bb) s = Some (set_cr_bit (unat bt) (cr s (unat ba) \<or> cr s (unat bb)) s)"
    "exec isa_step (crxor bt ba bb) s = Some (set_cr_bit (unat bt) (cr s (unat ba) \<noteq> cr s (unat bb)) s)"
    "exec isa_step (creqv bt ba bb) s = Some (set_cr_bit (unat bt) (cr s (unat ba) = cr s (unat bb)) s)"
    "exec isa_step (crnand bt ba bb) s = Some (set_cr_bit (unat bt) (\<not> (cr s (unat ba) \<and> cr s (unat bb))) s)"
    "exec isa_step (crandc bt ba bb) s = Some (set_cr_bit (unat bt) (cr s (unat ba) \<and> \<not> cr s (unat bb)) s)"
    "exec isa_step (crnor bt ba bb) s = Some (set_cr_bit (unat bt) (\<not> (cr s (unat ba) \<or> cr s (unat bb))) s)"
proof -
  have p: "unat (257 :: u32) < 1024" "unat (449 :: u32) < 1024" "unat (193 :: u32) < 1024" "unat (289 :: u32) < 1024"
    "unat (225 :: u32) < 1024" "unat (129 :: u32) < 1024" "unat (33 :: u32) < 1024" by simp_all
  note e = p [THEN exec_19(1) [OF assms]]
  show "exec isa_step (crand bt ba bb) s = Some (set_cr_bit (unat bt) (cr s (unat ba) \<and> cr s (unat bb)) s)"
    "exec isa_step (cror bt ba bb) s = Some (set_cr_bit (unat bt) (cr s (unat ba) \<or> cr s (unat bb)) s)"
    "exec isa_step (crxor bt ba bb) s = Some (set_cr_bit (unat bt) (cr s (unat ba) \<noteq> cr s (unat bb)) s)"
    "exec isa_step (creqv bt ba bb) s = Some (set_cr_bit (unat bt) (cr s (unat ba) = cr s (unat bb)) s)"
    "exec isa_step (crnand bt ba bb) s = Some (set_cr_bit (unat bt) (\<not> (cr s (unat ba) \<and> cr s (unat bb))) s)"
    "exec isa_step (crandc bt ba bb) s = Some (set_cr_bit (unat bt) (cr s (unat ba) \<and> \<not> cr s (unat bb)) s)"
    "exec isa_step (crnor bt ba bb) s = Some (set_cr_bit (unat bt) (\<not> (cr s (unat ba) \<or> cr s (unat bb))) s)"
    unfolding crand_def cror_def crxor_def creqv_def crnand_def crandc_def crnor_def e
    by (simp_all add: isa_19_def exec_19(2-4) [OF assms p(1)])
qed

lemma exec_crf:
  assumes "fxm = 0x80 \<or> fxm = 0x40"
  shows "exec isa_step (mtocrf fxm rs) s = Some (set_cr_fields (ucast fxm) (gpr s rs) s)"
    "\<exists>v. exec isa_step (mfocrf rs fxm) s = Some (setr rs v s) \<and> (\<forall>n < 32. bit fxm (7 - n div 4) \<longrightarrow> bit v (31 - n) = cr s n)"
proof -
  have wrap: "set_cr_fields 384 = set_cr_fields 128" "set_cr_fields 320 = set_cr_fields 64"
    "cr_fields 384 = cr_fields 128" "cr_fields 320 = cr_fields 64" by (rule arg_cong, simp)+
  have f: "exec isa_step (mtocrf fxm rs) s = Some (set_cr_fields (ucast fxm) (gpr s rs) s)"
    "exec isa_step (mfocrf rs fxm) s = Some (setr rs (cr_fields (ucast fxm) s) s)"
    using assms by (auto simp: crf_forms exec_X isa_31_def insn_field Let_def wrap)
  then show "exec isa_step (mtocrf fxm rs) s = Some (set_cr_fields (ucast fxm) (gpr s rs) s)" by simp
  have "bit (cr_fields (ucast fxm) s) (31 - n) = cr s n" if "n < 32" "bit fxm (7 - n div 4)" for n
    using that by (intro bit_cr_fields) (simp_all add: bit_unsigned_iff)
  then show "\<exists>v. exec isa_step (mfocrf rs fxm) s = Some (setr rs v s) \<and> (\<forall>n < 32. bit fxm (7 - n div 4) \<longrightarrow> bit v (31 - n) = cr s n)"
    using f(2) by blast
qed

lemmas exec_forms = exec_rlwnm exec_rldcl exec_X exec_XO exec_D exec_M exec_MD isa_31_def isa_30_def isa_M_def isa_D_def

lemma exec_open:
  "exec isa_step (mulhw rt ra rb) s = Some (setr rt (word_of_int (sint (ucast (gpr s ra) :: u32) * sint (ucast (gpr s rb) :: u32) div 2 ^ 32)) s)"
  "exec isa_step (mulhwu rt ra rb) s = Some (setr rt (word_of_int (uint (ucast (gpr s ra) :: u32) * uint (ucast (gpr s rb) :: u32) div 2 ^ 32)) s)"
  "exec isa_step (divd rt ra rb) s = Some (setr rt (word_of_int (sint (gpr s ra) sdiv sint (gpr s rb))) s)"
  "exec isa_step (divdu rt ra rb) s = Some (setr rt (gpr s ra div gpr s rb) s)"
  "exec isa_step (divw rt ra rb) s = Some (setr rt (word_of_int (sint (ucast (gpr s ra) :: u32) sdiv sint (ucast (gpr s rb) :: u32))) s)"
  "exec isa_step (divwu rt ra rb) s = Some (setr rt (ucast ((ucast (gpr s ra) :: u32) div ucast (gpr s rb))) s)"
  by (simp_all add: mnemonic_defs exec_forms put_def insn_field Let_def)

interpretation ppc: ppc_isa isa_step
proof (unfold_locales, goal_cases)
  case 19 show ?case unfolding exec_open by (rule ex_setr) (rule ucast_low32)
next
  case 20 show ?case unfolding exec_open by (rule ex_setr) (rule ucast_low32)
next
  case 21 show ?case unfolding exec_open by (rule ex_setr) simp
next
  case 22 show ?case unfolding exec_open by (rule ex_setr) simp
next
  case 23 show ?case unfolding exec_open by (rule ex_setr) (simp only: ucast_low32 simp_thms)
next
  case 24 show ?case unfolding exec_open by (rule ex_setr) (simp only: ucast_low32 simp_thms)
qed (fact exec_cr exec_crf | simp add: mnemonic_defs exec_forms put_def insn_field Let_def cmp_forms cmp_field isel_form)+

end
