(* ===== verification/Ppc_Words.thy ===== *)
theory Ppc_Words
  imports Ppc_Isa
begin

text \<open>
  Facts about the word operations of the rotate instructions (masks, rotations, runs of ones) and about the
  halves a constant is assembled from.
\<close>

subsection \<open>Facts about rotation masks and bit counts\<close>

lemma bit_mask64: "mb \<le> me \<Longrightarrow> me < 64 \<Longrightarrow> bit (mask64 mb me) n \<longleftrightarrow> 63 - me \<le> n \<and> n < 64 - mb"
  by (auto simp: mask64_def bit_take_bit_iff bit_not_iff bit_mask_iff)

lemma rotl_mask_push:
  assumes "n < 64"
  shows "word_rotl n (x :: u64) AND mask64 0 (63 - n) = push_bit n x"
proof (rule bit_word_eqI)
  fix i :: nat assume "i < LENGTH(64)"
  then have "i < 64" by simp
  then show "bit (word_rotl n x AND mask64 0 (63 - n)) i \<longleftrightarrow> bit (push_bit n x) i"
    using assms by (cases "n \<le> i") (auto simp: bit_and_iff bit_word_rotl_iff bit_mask64 bit_push_bit_iff mod_if)
qed

lemma mask64_low: "n < 64 \<Longrightarrow> x AND mask64 n 63 = take_bit (64 - n) x"
  by (rule bit_word_eqI) (auto simp: bit_and_iff bit_mask64 bit_take_bit_iff)

lemma rotl_zero: "word_rotl 0 (x :: u64) = x"
  by (rule bit_word_eqI) (simp add: bit_word_rotl_iff)

lemma rotl_minus_one: "word_rotl n (- 1 :: u64) = - 1"
  by (rule bit_word_eqI) (simp add: bit_word_rotl_iff)

lemma first_hit:
  fixes P :: "nat \<Rightarrow> bool"
  assumes "\<exists>j < length xs. P (xs ! j)" and "n = length (takeWhile (\<lambda>i. \<not> P i) xs)"
  shows "n < length xs" and "P (xs ! n)" and "\<forall>j < n. \<not> P (xs ! j)"
proof -
  from assms(1) have "takeWhile (\<lambda>i. \<not> P i) xs \<noteq> xs"
    by (metis nth_mem set_takeWhileD)
  then show n: "n < length xs"
    using assms(2) by (metis length_takeWhile_le nat_less_le take_all takeWhile_eq_take order_refl)
  show "P (xs ! n)" using nth_length_takeWhile [of "\<lambda>i. \<not> P i" xs] n assms(2) by simp
  show "\<forall>j < n. \<not> P (xs ! j)"
    using assms(2) by (metis nth_mem set_takeWhileD takeWhile_nth)
qed

lemma word_has_bit: "w \<noteq> 0 \<Longrightarrow> \<exists>k < LENGTH('a). bit (w :: 'a::len word) k"
  by (metis bit_imp_le_length bit_word_eqI bit_0_eq bot_apply bot_bool_def)

lemma countr_zero_spec:
  fixes w :: "'a::len word"
  assumes "w \<noteq> 0"
  shows "countr_zero w < LENGTH('a)" and "bit w (countr_zero w)" and "\<forall>i < countr_zero w. \<not> bit w i"
proof -
  have "\<exists>j < length [0..<LENGTH('a)]. bit w ([0..<LENGTH('a)] ! j)"
    using word_has_bit [OF assms] by auto
  note hit = first_hit [OF this countr_zero_def]
  then show "countr_zero w < LENGTH('a)" by simp
  then show "bit w (countr_zero w)" "\<forall>i < countr_zero w. \<not> bit w i" using hit by simp_all
qed

lemma countl_zero_spec:
  fixes w :: "'a::len word"
  assumes "w \<noteq> 0"
  shows "countl_zero w < LENGTH('a)" and "bit w (LENGTH('a) - 1 - countl_zero w)"
    and "\<forall>i. LENGTH('a) - 1 - countl_zero w < i \<longrightarrow> \<not> bit w i"
proof -
  let ?xs = "rev [0..<LENGTH('a)]"
  have nth: "?xs ! j = LENGTH('a) - 1 - j" if "j < LENGTH('a)" for j
    using that by (simp add: rev_nth)
  obtain k where k: "k < LENGTH('a)" "bit w k" using word_has_bit [OF assms] by blast
  then have "\<exists>j < length ?xs. bit w (?xs ! j)"
    by (intro exI [of _ "LENGTH('a) - 1 - k"]) (simp add: nth)
  note hit = first_hit [OF this countl_zero_def]
  then show lt: "countl_zero w < LENGTH('a)" by simp
  show "bit w (LENGTH('a) - 1 - countl_zero w)" using hit(2) lt by (simp add: nth)
  show "\<forall>i. LENGTH('a) - 1 - countl_zero w < i \<longrightarrow> \<not> bit w i"
  proof (intro allI impI notI)
    fix i assume i: "LENGTH('a) - 1 - countl_zero w < i" "bit w i"
    then have "i < LENGTH('a)" by (auto dest: bit_imp_le_length)
    then have "LENGTH('a) - 1 - i < countl_zero w" "?xs ! (LENGTH('a) - 1 - i) = i" using i(1) lt by (simp_all add: nth)
    with hit(3) i(2) show False by metis
  qed
qed

lemma contiguous_ones_gen:
  fixes w :: "'a::len word"
  assumes "w \<noteq> 0" and "popcount w + countl_zero w + countr_zero w = LENGTH('a)"
  shows "bit w i \<longleftrightarrow> countr_zero w \<le> i \<and> i \<le> LENGTH('a) - 1 - countl_zero w"
proof -
  let ?S = "{i. i < LENGTH('a) \<and> bit w i}" and ?T = "{countr_zero w .. LENGTH('a) - 1 - countl_zero w}"
  note r = countr_zero_spec [OF assms(1)] and l = countl_zero_spec [OF assms(1)]
  have "popcount w = card ?S"
    by (simp add: popcount_def length_filter_conv_card cong: conj_cong)
  moreover have "countr_zero w \<le> LENGTH('a) - 1 - countl_zero w"
    using r(2) l(3) by (force simp: not_le [symmetric])
  ultimately have "card ?S = card ?T" using assms(2) l(1) by simp
  moreover have sub: "?S \<subseteq> ?T"
    using r(3) l(3) by (auto simp: not_less [symmetric])
  ultimately have "?S = ?T" by (intro card_subset_eq) simp_all
  moreover have "bit w i \<longleftrightarrow> i \<in> ?S" by (auto dest: bit_imp_le_length)
  ultimately show ?thesis by simp
qed

lemma contiguous_ones:
  fixes w :: u64
  assumes "w \<noteq> 0" and "popcount w + countl_zero w + countr_zero w = 64"
  shows "bit w i \<longleftrightarrow> countr_zero w \<le> i \<and> i \<le> 63 - countl_zero w"
  using contiguous_ones_gen [of w i] assms by simp

subsection \<open>Recombining halves\<close>

lemma low16: "(ucast (ucast (w AND 0xFFFF :: u32) :: u16) :: u64) = ucast (take_bit 16 w)"
proof -
  have "w AND 0xFFFF = take_bit 16 w" by (simp add: take_bit_eq_mask mask_eq_exp_minus_1)
  then show ?thesis by (intro bit_word_eqI) (auto simp: bit_unsigned_iff bit_take_bit_iff)
qed

lemma low16_zero: "w AND 0xFFFF = (0 :: u32) \<Longrightarrow> take_bit 16 w = 0"
  by (simp add: take_bit_eq_mask mask_eq_exp_minus_1)

lemma sext_halves: "push_bit 16 (scast (ucast (drop_bit 16 w) :: u16)) OR ucast (take_bit 16 w) = (scast (w :: u32) :: u64)"
proof (rule bit_word_eqI)
  fix n :: nat assume "n < LENGTH(64)"
  then consider "n < 16" | "16 \<le> n" "n < 31" | "31 \<le> n" "n < 64" by fastforce
  then show "bit (push_bit 16 (scast (ucast (drop_bit 16 w) :: u16)) OR ucast (take_bit 16 w) :: u64) n \<longleftrightarrow> bit (scast w :: u64) n"
    by cases (auto simp: bit_or_iff bit_push_bit_iff bit_signed_iff bit_unsigned_iff bit_take_bit_iff bit_drop_bit_eq min_def)
qed

lemma scast_16_32: "(scast (scast (x :: u16) :: u32) :: u64) = scast x"
proof (rule bit_word_eqI)
  fix n :: nat assume "n < LENGTH(64)"
  then show "bit (scast (scast x :: u32) :: u64) n \<longleftrightarrow> bit (scast x :: u64) n"
    by (auto simp: bit_signed_iff min_def)
qed

lemma take_scast_32: "take_bit 32 (scast (w :: u32) :: u64) = ucast w"
proof (rule bit_word_eqI)
  fix n :: nat assume "n < LENGTH(64)"
  then consider "n < 31" | "n = 31" | "32 \<le> n" "n < 64" by fastforce
  then show "bit (take_bit 32 (scast w :: u64)) n \<longleftrightarrow> bit (ucast w :: u64) n"
    by cases (auto simp: bit_take_bit_iff bit_signed_iff bit_unsigned_iff min_def dest: bit_imp_le_length)
qed

lemma scast_small:
  assumes "unat (w :: u32) < 2 ^ 31"
  shows "(scast w :: u64) = ucast w"
proof (rule bit_word_eqI)
  fix n :: nat assume "n < LENGTH(64)"
  then show "bit (scast w :: u64) n \<longleftrightarrow> bit (ucast w :: u64) n"
    using bit_less_exp [OF assms, of n] bit_less_exp [OF assms, of 31]
    by (auto simp: bit_signed_iff bit_unsigned_iff min_def)
qed

lemma sint_near_zero:
  assumes "imm \<le> 0x7FFFFFFF \<or> 0xFFFFFFFF80000000 \<le> (imm :: u64)"
  shows "- (2 ^ 31) \<le> sint imm \<and> sint imm < 2 ^ 31"
proof -
  define k where "k = (if imm \<le> 0x7FFFFFFF then uint imm else uint imm - 2 ^ 64)"
  have "imm = word_of_int k" by (simp add: k_def)
  then have "sint imm = signed_take_bit 63 k" by (simp add: sint_uint unsigned_of_int signed_take_bit_take_bit)
  moreover have "- (2 ^ 31) \<le> k" "k < 2 ^ 31"
    using assms uint_lt2p [of imm]
    by (auto simp: k_def word_le_def intro: order_trans [OF _ uint_ge_0])
  ultimately show ?thesis by (simp add: signed_take_bit_int_eq_self)
qed

lemma recombine_64:
  fixes imm x :: u64
  defines "hi \<equiv> (ucast (drop_bit 32 imm) :: u32)" and "lo \<equiv> (ucast imm :: u32)"
  assumes "take_bit 32 x = ucast hi"
  shows "push_bit 32 x OR push_bit 16 (ucast (ucast (drop_bit 16 lo) :: u16)) OR ucast (take_bit 16 lo) = imm"
proof (rule bit_word_eqI)
  fix n :: nat assume "n < LENGTH(64)"
  then consider "n < 16" | "16 \<le> n" "n < 32" | "32 \<le> n" "n < 64" by fastforce
  then show "bit (push_bit 32 x OR push_bit 16 (ucast (ucast (drop_bit 16 lo) :: u16)) OR ucast (take_bit 16 lo)) n \<longleftrightarrow> bit imm n"
  proof cases
    case 3
    have "bit x (n - 32) \<longleftrightarrow> bit (take_bit 32 x) (n - 32)" using 3 by (auto simp: bit_take_bit_iff)
    also have "\<dots> \<longleftrightarrow> bit imm n" using 3 by (auto simp: assms(3) hi_def bit_unsigned_iff bit_drop_bit_eq)
    finally show ?thesis
      using 3 by (auto simp: bit_or_iff bit_push_bit_iff bit_unsigned_iff bit_take_bit_iff dest: bit_imp_le_length)
  qed (auto simp: lo_def bit_or_iff bit_push_bit_iff bit_unsigned_iff bit_take_bit_iff bit_drop_bit_eq)
qed

lemma push_drop_countr:
  fixes imm :: u64
  assumes "imm \<noteq> 0"
  shows "push_bit (countr_zero imm) (drop_bit (countr_zero imm) imm) = imm"
proof (rule bit_word_eqI)
  fix n :: nat assume "n < LENGTH(64)"
  then show "bit (push_bit (countr_zero imm) (drop_bit (countr_zero imm) imm)) n \<longleftrightarrow> bit imm n"
    using countr_zero_spec(3) [OF assms]
    by (cases "n < countr_zero imm") (simp_all add: bit_push_bit_iff bit_drop_bit_eq)
qed

end
