(* ===== verification/Ppc_LoadImm.thy ===== *)
theory Ppc_LoadImm
  imports Ppc_Words
begin

text \<open>
  Materialisation of constants: \<open>LoadImm32\<close>, \<open>LoadImm64\<close> and \<open>LoadImm64Fixed\<close> of
  \<open>CodeEmitter/PPC64LE/Emitter.h\<close>, as the list of instructions they emit.  The results are proved on any
  processor with the laws of \<open>ppc_isa\<close> and then stated for the decoder \<open>isa_step\<close>.
\<close>

subsection \<open>The emitted words\<close>

definition LoadImm32 :: "GPR \<Rightarrow> u32 \<Rightarrow> insn list" where
  "LoadImm32 rt imm =
     (let simm = sint imm in
      if - 32768 \<le> simm \<and> simm < 32768 then [li rt (ucast imm)]
      else lis rt (ucast (drop_bit 16 imm)) #
        (if imm AND 0xFFFF \<noteq> 0 then [ori rt rt (ucast (imm AND 0xFFFF))] else []))"

definition LoadImm64_full :: "GPR \<Rightarrow> u64 \<Rightarrow> insn list" where
  "LoadImm64_full rt imm =
     (let hi = (ucast (drop_bit 32 imm) :: u32); lo = (ucast imm :: u32) in
      (if hi \<noteq> 0 then
         if hi \<le> 0x7FFF then [li rt (ucast hi)]
         else lis rt (ucast (drop_bit 16 hi)) # (if hi AND 0xFFFF \<noteq> 0 then [ori rt rt (ucast (hi AND 0xFFFF))] else [])
       else [li rt 0]) @
      sldi rt rt 32 #
      (if drop_bit 16 lo \<noteq> 0 then [oris rt rt (ucast (drop_bit 16 lo))] else []) @
      (if lo AND 0xFFFF \<noteq> 0 then [ori rt rt (ucast (lo AND 0xFFFF))] else []))"

definition LoadImm64 :: "bool \<Rightarrow> GPR \<Rightarrow> u64 \<Rightarrow> insn list" where
  "LoadImm64 DisableShiftedImm32 rt imm =
     (if imm = 0 then [li rt 0]
      else if imm \<le> 0x7FFFFFFF \<or> 0xFFFFFFFF80000000 \<le> imm then LoadImm32 rt (ucast imm)
      else if imm \<le> 0xFFFFFFFF then LoadImm32 rt (ucast imm) @ [clrldi rt rt 32]
      else
        let tz = countr_zero imm; v = signed_drop_bit tz imm in
        if - 32768 \<le> sint v \<and> sint v \<le> 32767 \<and> push_bit tz v = imm then
          [li rt (ucast v), sldi rt rt (of_nat tz)]
        else if popcount imm + countl_zero imm + countr_zero imm = 64 then
          let lo = countr_zero imm; hi = 63 - countl_zero imm in
          [li rt (- 1), rldic rt rt (of_nat lo) (of_nat (63 - hi))]
        else
          let u = drop_bit tz imm in
          if \<not> DisableShiftedImm32 \<and> 0 < tz \<and> u \<le> 0x7FFFFFFF then
            LoadImm32 rt (ucast u) @ [sldi rt rt (of_nat tz)]
          else LoadImm64_full rt imm)"

definition LoadImm64Fixed :: "GPR \<Rightarrow> u64 \<Rightarrow> insn list" where
  "LoadImm64Fixed rt imm =
     (let hi = (ucast (drop_bit 32 imm) :: u32); lo = (ucast imm :: u32) in
      [lis rt (ucast (drop_bit 16 hi)), ori rt rt (ucast (hi AND 0xFFFF)), sldi rt rt 32,
       oris rt rt (ucast (drop_bit 16 lo)), ori rt rt (ucast (lo AND 0xFFFF))])"

subsection \<open>The loaders, on any processor with those instructions\<close>

context ppc_isa
begin

lemma step_li: "exec step (li rt si) s = Some (setr rt (scast si) s)"
  by (simp add: li_def step_addi)

lemma step_lis: "exec step (lis rt si) s = Some (setr rt (push_bit 16 (scast si)) s)"
  by (simp add: lis_def step_addis)

lemma step_sldi: "n < 64 \<Longrightarrow> exec step (sldi ra rs (of_nat n)) s = Some (setr ra (push_bit n (gpr s rs)) s)"
proof -
  assume n: "n < 64"
  then have u: "unat (of_nat n :: u32) = n" by (simp add: unat_of_nat)
  have "(63 - of_nat n :: u32) = of_nat (63 - n)" using n by (simp add: of_nat_diff)
  then have m: "unat (63 - of_nat n :: u32) = 63 - n" by (simp only: unat_of_nat) (use n in simp)
  show ?thesis using n by (simp add: sldi_def step_rldicr u m rotl_mask_push)
qed

lemmas step_sldi_32 = step_sldi [of 32, simplified]

lemma step_clrldi_32: "exec step (clrldi ra rs 32) s = Some (setr ra (take_bit 32 (gpr s rs)) s)"
  by (simp add: clrldi_def step_rldicl mask64_low rotl_zero)

lemma run_LoadImm32: "run step (LoadImm32 rt imm) s = Some (setr rt (scast imm) s)"
proof (cases "- 32768 \<le> sint imm \<and> sint imm < 32768")
  case True
  then have "scast (ucast imm :: u16) = imm" by (intro scast_ucast_id) simp_all
  then have "(scast (ucast imm :: u16) :: u64) = scast imm" using scast_16_32 [of "ucast imm"] by simp
  with True show ?thesis by (simp add: LoadImm32_def Let_def step_li)
next
  case False
  then show ?thesis
    using sext_halves [of imm] low16_zero [of imm]
    by (auto simp: LoadImm32_def Let_def step_lis step_ori low16)
qed

lemma run_LoadImm64_full: "run step (LoadImm64_full rt imm) s = Some (setr rt imm s)"
proof -
  define hi where "hi = (ucast (drop_bit 32 imm) :: u32)"
  define lo where "lo = (ucast imm :: u32)"
  define first where "first = (if hi \<noteq> 0 then
      if hi \<le> 0x7FFF then [li rt (ucast hi)]
      else lis rt (ucast (drop_bit 16 hi)) # (if hi AND 0xFFFF \<noteq> 0 then [ori rt rt (ucast (hi AND 0xFFFF))] else [])
    else [li rt 0])"
  obtain x where x: "run step first s = Some (setr rt x s)" "take_bit 32 x = ucast hi"
  proof (cases "hi \<le> 0x7FFF")
    case True
    then have "unat hi < 2 ^ 15" by (simp add: word_le_nat_alt)
    then have small: "bit hi n \<Longrightarrow> n < 15" for n by (rule bit_less_exp)
    have "take_bit 32 (scast (ucast hi :: u16) :: u64) = ucast hi"
    proof (rule bit_word_eqI)
      fix n :: nat assume "n < LENGTH(64)"
      then show "bit (take_bit 32 (scast (ucast hi :: u16) :: u64)) n \<longleftrightarrow> bit (ucast hi :: u64) n"
        using small [of n] small [of 15] by (auto simp: bit_take_bit_iff bit_signed_iff bit_unsigned_iff min_def)
    qed
    with True that show thesis by (cases "hi = 0") (simp_all add: first_def step_li)
  next
    case False
    then have "hi \<noteq> 0" by auto
    have "run step first s = Some (setr rt (scast hi) s)"
      using False \<open>hi \<noteq> 0\<close> sext_halves [of hi] low16_zero [of hi]
      by (cases "hi AND 0xFFFF = 0") (simp_all add: first_def step_lis step_ori low16)
    then show thesis using take_scast_32 [of hi] by (rule that)
  qed
  have "LoadImm64_full rt imm = first @ sldi rt rt 32 #
      (if drop_bit 16 lo \<noteq> 0 then [oris rt rt (ucast (drop_bit 16 lo))] else []) @
      (if lo AND 0xFFFF \<noteq> 0 then [ori rt rt (ucast (lo AND 0xFFFF))] else [])"
    by (simp add: LoadImm64_full_def first_def Let_def flip: hi_def lo_def)
  moreover have "push_bit 32 x OR push_bit 16 (ucast (ucast (drop_bit 16 lo) :: u16)) OR ucast (take_bit 16 lo) = imm"
    using recombine_64 [of x imm] x(2) by (simp add: hi_def lo_def)
  ultimately show ?thesis
    using low16_zero [of lo]
    by (cases "drop_bit 16 lo = 0"; cases "lo AND 0xFFFF = 0")
      (simp_all add: run_append x(1) step_sldi_32 step_oris step_ori low16 or.assoc)
qed

lemma step_rldic_contiguous:
  assumes "imm \<noteq> 0" and "popcount imm + countl_zero imm + countr_zero imm = 64" and "gpr s rt = - 1"
  shows "exec step (rldic rt rt (of_nat (countr_zero imm)) (of_nat (63 - (63 - countl_zero imm)))) s = Some (setr rt imm s)"
proof -
  note r = countr_zero_spec [OF assms(1)] and l = countl_zero_spec [OF assms(1)]
  have le: "countr_zero imm \<le> 63 - countl_zero imm"
    using r(2) by (simp add: contiguous_ones [OF assms(1,2)])
  have u: "unat (of_nat (countr_zero imm) :: u32) = countr_zero imm"
      "unat (of_nat (63 - (63 - countl_zero imm)) :: u32) = 63 - (63 - countl_zero imm)"
    using r(1) by (simp_all only: unat_of_nat) simp_all
  moreover have "63 - (63 - countl_zero imm) = countl_zero imm" using l(1) by simp
  ultimately have u': "unat (of_nat (countl_zero imm) :: u32) = countl_zero imm" by simp
  have "word_rotl (countr_zero imm) (- 1) AND mask64 (63 - (63 - countl_zero imm)) (63 - countr_zero imm) = imm"
  proof (rule bit_word_eqI)
    fix n :: nat assume "n < LENGTH(64)"
    then show "bit (word_rotl (countr_zero imm) (- 1) AND mask64 (63 - (63 - countl_zero imm)) (63 - countr_zero imm)) n \<longleftrightarrow> bit imm n"
      using le l(1) r(1) by (auto simp: rotl_minus_one bit_and_iff bit_mask64 contiguous_ones [OF assms(1,2)])
  qed
  then show ?thesis using r(1) l(1) by (simp add: step_rldic u(1) u' assms(3))
qed

lemma run_LoadImm64: "run step (LoadImm64 dis rt imm) s = Some (setr rt imm s)"
proof -
  define tz where "tz = countr_zero imm"
  consider (zero) "imm = 0"
    | (sext) "imm \<noteq> 0" "imm \<le> 0x7FFFFFFF \<or> 0xFFFFFFFF80000000 \<le> imm"
    | (zext) "imm \<noteq> 0" "\<not> (imm \<le> 0x7FFFFFFF \<or> 0xFFFFFFFF80000000 \<le> imm)" "imm \<le> 0xFFFFFFFF"
    | (wide) "imm \<noteq> 0" "\<not> (imm \<le> 0x7FFFFFFF \<or> 0xFFFFFFFF80000000 \<le> imm)" "\<not> imm \<le> 0xFFFFFFFF"
    by blast
  then show ?thesis
  proof cases
    case zero
    then show ?thesis by (simp add: LoadImm64_def step_li)
  next
    case sext
    then have "- (2 ^ 31) \<le> sint imm \<and> sint imm < 2 ^ 31" by (intro sint_near_zero)
    then have "scast (ucast imm :: u32) = imm" by (intro scast_ucast_id) simp_all
    with sext show ?thesis by (simp add: LoadImm64_def run_LoadImm32)
  next
    case zext
    have "take_bit 32 (scast (ucast imm :: u32) :: u64) = imm"
      using zext(3) ucast_ucast_small [of imm, where 'b = 32] by (simp add: take_scast_32 word_le_nat_alt)
    with zext show ?thesis by (simp add: LoadImm64_def run_append run_LoadImm32 step_clrldi_32)
  next
    case wide
    define v where "v = signed_drop_bit tz imm"
    define u where "u = drop_bit tz imm"
    have tz: "tz < 64" using countr_zero_spec(1) [OF wide(1)] by (simp add: tz_def)
    consider (shift16) "- 32768 \<le> sint v \<and> sint v \<le> 32767 \<and> push_bit tz v = imm"
      | (ones) "\<not> (- 32768 \<le> sint v \<and> sint v \<le> 32767 \<and> push_bit tz v = imm)" "popcount imm + countl_zero imm + countr_zero imm = 64"
      | (shift32) "\<not> (- 32768 \<le> sint v \<and> sint v \<le> 32767 \<and> push_bit tz v = imm)" "popcount imm + countl_zero imm + countr_zero imm \<noteq> 64"
          "\<not> dis \<and> 0 < tz \<and> u \<le> 0x7FFFFFFF"
      | (full) "\<not> (- 32768 \<le> sint v \<and> sint v \<le> 32767 \<and> push_bit tz v = imm)" "popcount imm + countl_zero imm + countr_zero imm \<noteq> 64"
          "\<not> (\<not> dis \<and> 0 < tz \<and> u \<le> 0x7FFFFFFF)"
      by blast
    then show ?thesis
    proof cases
      case shift16
      then have "scast (ucast v :: u16) = v" by (intro scast_ucast_id) simp_all
      with shift16 wide tz show ?thesis
        by (simp add: LoadImm64_def Let_def step_li step_sldi flip: tz_def v_def)
    next
      case ones
      have "LoadImm64 dis rt imm = [li rt (- 1), rldic rt rt (of_nat (countr_zero imm)) (of_nat (63 - (63 - countl_zero imm)))]"
        using ones wide unfolding LoadImm64_def Let_def v_def tz_def by (simp only: if_False if_True simp_thms)
      then show ?thesis
        using step_rldic_contiguous [OF wide(1) ones(2), of "setr rt (- 1) s" rt] by (simp add: step_li)
    next
      case shift32
      then have "unat u < 2 ^ 31" by (simp add: word_le_nat_alt)
      then have "(scast (ucast u :: u32) :: u64) = u"
        using scast_small [of "ucast u"] ucast_ucast_small [of u, where 'b = 32] by (simp add: unat_ucast_mod)
      moreover have "LoadImm64 dis rt imm = LoadImm32 rt (ucast u) @ [sldi rt rt (of_nat tz)]"
        using shift32 wide unfolding LoadImm64_def Let_def v_def tz_def u_def by (simp only: if_False if_True simp_thms)
      ultimately show ?thesis
        using tz push_drop_countr [OF wide(1)] by (simp add: run_append run_LoadImm32 step_sldi u_def tz_def)
    next
      case full
      have "LoadImm64 dis rt imm = LoadImm64_full rt imm"
        using full wide unfolding LoadImm64_def Let_def v_def tz_def u_def by (simp only: if_False)
      then show ?thesis by (simp add: run_LoadImm64_full)
    qed
  qed
qed

lemma run_LoadImm64Fixed: "run step (LoadImm64Fixed rt imm) s = Some (setr rt imm s)"
proof -
  define hi where "hi = (ucast (drop_bit 32 imm) :: u32)"
  define lo where "lo = (ucast imm :: u32)"
  have "LoadImm64Fixed rt imm = [lis rt (ucast (drop_bit 16 hi)), ori rt rt (ucast (hi AND 0xFFFF)),
      sldi rt rt 32, oris rt rt (ucast (drop_bit 16 lo)), ori rt rt (ucast (lo AND 0xFFFF))]"
    by (simp add: LoadImm64Fixed_def Let_def flip: hi_def lo_def)
  then show ?thesis
    using recombine_64 [of "scast hi" imm] sext_halves [of hi]
    by (simp add: step_lis step_ori step_oris step_sldi_32 low16 take_scast_32 hi_def lo_def or.assoc)
qed

end

subsection \<open>Properties\<close>

lemma length_LoadImm32: "length (LoadImm32 rt imm) \<le> 2"
  by (simp add: LoadImm32_def Let_def)

text \<open>
  C12: whatever the constant and whichever of its arms \<open>LoadImm64\<close> chooses (with the shifted 32-bit rule
  enabled or disabled), executing the emitted words leaves exactly the constant in the target register
  and changes no other register, in at most five instructions.
\<close>

theorem LoadImm64_correct:
  "run isa_step (LoadImm64 DisableShiftedImm32 rt imm) s = Some (setr rt imm s) \<and>
   length (LoadImm64 DisableShiftedImm32 rt imm) \<le> 5"
proof
  show "run isa_step (LoadImm64 DisableShiftedImm32 rt imm) s = Some (setr rt imm s)"
    by (rule ppc.run_LoadImm64)
  show "length (LoadImm64 DisableShiftedImm32 rt imm) \<le> 5"
    using length_LoadImm32 [of rt "ucast imm"] length_LoadImm32 [of rt "ucast (drop_bit (countr_zero imm) imm)"]
    by (simp add: LoadImm64_def LoadImm64_full_def Let_def)
qed

text \<open>
  \<open>LoadImm64Fixed\<close>, the form the code cache patches in place, always emits exactly the five
  words of its fixed window and loads the same constant as \<open>LoadImm64\<close>.
\<close>

lemma LoadImm64Fixed_correct:
  "length (LoadImm64Fixed rt imm) = 5 \<and> run isa_step (LoadImm64Fixed rt imm) s = Some (setr rt imm s) \<and>
   run isa_step (LoadImm64Fixed rt imm) s = run isa_step (LoadImm64 DisableShiftedImm32 rt imm) s"
  by (simp add: ppc.run_LoadImm64Fixed ppc.run_LoadImm64) (simp add: LoadImm64Fixed_def Let_def)

end
