(* ===== verification/Ppc_Immediates.thy ===== *)
theory Ppc_Immediates
  imports Ppc_LoadImm
begin

text \<open>
  Classification of constants for the instruction selector: \<open>FEXCore/Source/Interface/IR/PPC64Immediates.h\<close>,
  and \<open>EmitAndMask\<close> / \<open>EmitAndMaskRc\<close> of \<open>JIT/PPC64LE/ALUOps.cpp\<close>, which turn a classified AND mask into
  rotate-and-mask instructions.  \<open>countr_one\<close> is \<open>std::countr_one\<close>.
\<close>

datatype OpSize = iUnsized | i8Bit | i16Bit | i32Bit | i64Bit | f80Bit | i128Bit | i256Bit | iInvalid

primrec OpSizeToSize :: "OpSize \<Rightarrow> nat" where
  "OpSizeToSize iUnsized = 0" | "OpSizeToSize i8Bit = 1" | "OpSizeToSize i16Bit = 2" | "OpSizeToSize i32Bit = 4"
| "OpSizeToSize i64Bit = 8" | "OpSizeToSize f80Bit = 10" | "OpSizeToSize i128Bit = 16" | "OpSizeToSize i256Bit = 32"
| "OpSizeToSize iInvalid = 255"

definition countr_one :: "'a::len word \<Rightarrow> nat" where
  "countr_one w = countr_zero (NOT w)"

definition IsSImm16 :: "u64 \<Rightarrow> bool" where
  "IsSImm16 X = (let V = sint X in - 32768 \<le> V \<and> V \<le> 32767)"

definition IsSImm32 :: "u64 \<Rightarrow> bool" where
  "IsSImm32 X = (let V = sint X in - 2147483648 \<le> V \<and> V \<le> 2147483647)"

definition IsOneInsnConstant :: "u64 \<Rightarrow> bool" where
  "IsOneInsnConstant X = (IsSImm16 X \<or> IsSImm32 X \<and> X AND 0xFFFF = 0)"

definition IsRun64 :: "u64 \<Rightarrow> bool" where
  "IsRun64 V = (V \<noteq> 0 \<and> popcount V + countl_zero V + countr_zero V = 64)"

definition IsRun32 :: "u32 \<Rightarrow> bool" where
  "IsRun32 V = (V \<noteq> 0 \<and> popcount V + countl_zero V + countr_zero V = 32)"

datatype AndMaskKind = None_Kind | Zero | Move | ClearLeft | ClearRight | Word | InsertZeroField | ClearBoth

record AndMaskForm =
  Kind :: AndMaskKind
  MB :: u8
  ME :: u8
  SH :: u8

definition and_form :: "AndMaskKind \<Rightarrow> nat \<Rightarrow> nat \<Rightarrow> nat \<Rightarrow> AndMaskForm" where
  "and_form k mb me sh = \<lparr>Kind = k, MB = of_nat mb, ME = of_nat me, SH = of_nat sh\<rparr>"

definition ClassifyAndMask64 :: "u64 \<Rightarrow> bool \<Rightarrow> AndMaskForm" where
  "ClassifyAndMask64 M AllowWord =
     (if M = 0 then and_form Zero 0 0 0
      else if M = NOT 0 then and_form Move 0 0 0
      else if M AND (M + 1) = 0 then and_form ClearLeft (64 - countr_one M) 0 0
      else if NOT M AND (NOT M + 1) = 0 then and_form ClearRight 0 (63 - countr_one (NOT M)) 0
      else
        let W = (ucast M :: u32) in
        if AllowWord \<and> M \<le> 0xFFFFFFFF \<and> IsRun32 W then
          let lo = countr_zero W; hi = 31 - countl_zero W in and_form Word (31 - hi) (31 - lo) 0
        else
          let Z = NOT M in
          if IsRun64 Z then
            let lo = countr_zero Z; hi = 63 - countl_zero Z in and_form InsertZeroField (63 - hi) 0 lo
          else if IsRun64 M then
            let lo = countr_zero M; hi = 63 - countl_zero M in and_form ClearBoth (63 - hi) (63 - lo) 0
          else and_form None_Kind 0 0 0)"

fun AndMaskCost :: "AndMaskKind \<Rightarrow> nat" where
  "AndMaskCost None_Kind = 99"
| "AndMaskCost InsertZeroField = 2"
| "AndMaskCost ClearBoth = 2"
| "AndMaskCost K = 1"

definition ClassifyAndMask :: "u64 \<Rightarrow> bool \<Rightarrow> AndMaskForm" where
  "ClassifyAndMask M Is32Bit =
     (if \<not> Is32Bit then ClassifyAndMask64 M False
      else
        let Clear = ClassifyAndMask64 (M AND 0xFFFFFFFF) True;
            Keep = ClassifyAndMask64 (M OR 0xFFFFFFFF00000000) False
        in if AndMaskCost (Kind Keep) < AndMaskCost (Kind Clear) then Keep else Clear)"

definition IsAddSubImm :: "u64 \<Rightarrow> bool" where
  "IsAddSubImm X = (IsSImm16 X \<or> X \<le> 0xFFFF \<or> IsSImm32 X \<and> X AND 0xFFFF = 0)"

definition IsLargeAddSubImm :: "OpSize \<Rightarrow> u64 \<Rightarrow> bool" where
  "IsLargeAddSubImm Size X = (IsOneInsnConstant X \<and> OpSizeToSize i32Bit \<le> OpSizeToSize Size)"

definition IsLogicalImm :: "OpSize \<Rightarrow> u64 \<Rightarrow> bool" where
  "IsLogicalImm Size X =
     (if X \<le> 0xFFFF \<or> X AND 0xFFFF0000 = X \<or> IsSImm16 X then True
      else Kind (ClassifyAndMask X (Size = i32Bit)) \<noteq> None_Kind)"

subsection \<open>Emission of a classified mask\<close>

definition r0 :: GPR where "r0 = 0"

definition mr_unless_same :: "GPR \<Rightarrow> GPR \<Rightarrow> insn list" where
  "mr_unless_same Dst S1 = (if Dst \<noteq> S1 then [mr Dst S1] else [])"

definition EmitAndMask :: "bool \<Rightarrow> GPR \<Rightarrow> GPR \<Rightarrow> u64 \<Rightarrow> bool \<Rightarrow> insn list option" where
  "EmitAndMask LogicalImmEnabled Dst S1 Mask Is32Bit =
     (if \<not> LogicalImmEnabled then None
      else
        let Form = ClassifyAndMask Mask Is32Bit; mb = ucast (MB Form); me = ucast (ME Form); sh = ucast (SH Form) in
        case Kind Form of
          None_Kind \<Rightarrow> None
        | Zero \<Rightarrow> Some [li Dst 0]
        | Move \<Rightarrow> Some (mr_unless_same Dst S1)
        | ClearLeft \<Rightarrow> Some [rldicl Dst S1 0 mb]
        | ClearRight \<Rightarrow> Some [rldicr Dst S1 0 me]
        | Word \<Rightarrow> Some [rlwinm Dst S1 0 mb me]
        | InsertZeroField \<Rightarrow> Some (mr_unless_same Dst S1 @ [rldimi Dst r0 sh mb])
        | ClearBoth \<Rightarrow> Some [rldicl Dst S1 0 mb, rldicr Dst Dst 0 me])"

definition EmitAndMaskRc :: "bool \<Rightarrow> GPR \<Rightarrow> GPR \<Rightarrow> u64 \<Rightarrow> bool \<Rightarrow> insn list option" where
  "EmitAndMaskRc LogicalImmEnabled Dst S1 Mask Is32Bit =
     (if \<not> LogicalImmEnabled then None
      else
        let Form = ClassifyAndMask Mask Is32Bit; mb = ucast (MB Form); me = ucast (ME Form) in
        case Kind Form of
          ClearLeft \<Rightarrow> Some [rldicl_rc Dst S1 0 mb]
        | Word \<Rightarrow> Some [rlwinm_rc Dst S1 0 mb me]
        | _ \<Rightarrow> None)"

subsection \<open>What a form does to a register\<close>

definition form_applied :: "AndMaskForm \<Rightarrow> u64 \<Rightarrow> u64" where
  "form_applied f x =
     (let mb = unat (MB f); me = unat (ME f); sh = unat (SH f) in
      case Kind f of
        None_Kind \<Rightarrow> x
      | Zero \<Rightarrow> 0
      | Move \<Rightarrow> x
      | ClearLeft \<Rightarrow> x AND mask64 mb 63
      | ClearRight \<Rightarrow> x AND mask64 0 me
      | Word \<Rightarrow> rotl32 0 x AND mask64 (mb + 32) (me + 32)
      | InsertZeroField \<Rightarrow> insert_mask (mask64 mb (63 - sh)) 0 x
      | ClearBoth \<Rightarrow> x AND mask64 mb 63 AND mask64 0 me)"

definition form_in_range :: "AndMaskForm \<Rightarrow> bool" where
  "form_in_range f \<longleftrightarrow> MB f < 64 \<and> ME f < 64 \<and> SH f < 64 \<and> (Kind f = Word \<longrightarrow> MB f \<le> ME f \<and> ME f < 32)"

lemma unat_u8: "n < 256 \<Longrightarrow> unat (of_nat n :: u8) = n"
  by (simp add: unat_of_nat)

lemma low_run:
  fixes M :: u64
  assumes "M \<noteq> NOT 0" and "M AND (M + 1) = 0"
  shows "countr_one M < 64" and "M = mask (countr_one M)"
proof -
  define k where "k = countr_one M"
  have nz: "NOT M \<noteq> 0" using assms(1) by (metis bit.double_compl)
  note spec = countr_zero_spec [OF nz, folded countr_one_def, folded k_def]
  have k: "k < 64" using spec(1) by simp
  then show "countr_one M < 64" by (simp add: k_def)
  have nk: "\<not> bit M k" using spec(2) by (simp add: bit_not_iff)
  have low: "bit M i" if "i < k" for i using spec(3) that k by (auto simp: bit_not_iff)
  define H where "H = M AND NOT (mask (Suc k))"
  have bH: "bit H i \<longleftrightarrow> k < i \<and> bit M i" for i
    by (auto simp: H_def bit_and_iff bit_not_iff bit_mask_iff dest: bit_imp_le_length)
  have M: "M = mask k + H"
  proof -
    have "mask k + H = mask k OR H"
      by (rule disjunctive_add) (auto simp: bit_mask_iff bH)
    also have "\<dots> = M"
    proof (rule bit_word_eqI)
      fix i :: nat assume "i < LENGTH(64)"
      then show "bit (mask k OR H) i = bit M i"
        using low [of i] nk by (cases i k rule: linorder_cases) (auto simp: bit_or_iff bit_mask_iff bH)
    qed
    finally show ?thesis by simp
  qed
  have "M + 1 = 2 ^ k + H" by (subst M) (simp add: mask_eq_exp_minus_1)
  also have "\<dots> = 2 ^ k OR H" by (rule disjunctive_add) (auto simp: bit_exp_iff bH)
  finally have "M AND (2 ^ k OR H) = 0" using assms(2) by simp
  then have "\<not> bit M i" if "k < i" for i
    using that by (metis bH bit_0 bit_and_iff bit_or_iff bot_apply bot_bool_def bit_0_eq)
  then show "M = mask (countr_one M)"
    unfolding k_def [symmetric] using low nk k
    by (intro bit_word_eqI) (metis bit_mask_iff linorder_cases possible_bit_word)
qed

lemma run_mask:
  fixes M :: u64
  assumes "IsRun64 M"
  shows "M = mask64 (countl_zero M) (63 - countr_zero M)" and "countl_zero M + countr_zero M \<le> 63"
proof -
  have nz: "M \<noteq> 0" and sum: "popcount M + countl_zero M + countr_zero M = 64" using assms by (auto simp: IsRun64_def)
  note r = countr_zero_spec [OF nz] and l = countl_zero_spec [OF nz] and c = contiguous_ones [OF nz sum]
  show le: "countl_zero M + countr_zero M \<le> 63"
    using c [of "countr_zero M"] r l(1) by simp
  show "M = mask64 (countl_zero M) (63 - countr_zero M)"
  proof (rule bit_word_eqI)
    fix i :: nat assume "i < LENGTH(64)"
    then show "bit M i \<longleftrightarrow> bit (mask64 (countl_zero M) (63 - countr_zero M)) i"
      using le r(1) l(1) by (auto simp: c bit_mask64)
  qed
qed

lemma word_run_mask:
  fixes M :: u64
  assumes "M \<le> 0xFFFFFFFF" and "IsRun32 (ucast M)"
  defines "W \<equiv> (ucast M :: u32)"
  shows "M = mask64 (countl_zero W + 32) (63 - countr_zero W)" and "countl_zero W + countr_zero W \<le> 31"
proof -
  have nz: "W \<noteq> 0" and sum: "popcount W + countl_zero W + countr_zero W = LENGTH(32)"
    using assms by (auto simp: IsRun32_def)
  note r = countr_zero_spec [OF nz] and l = countl_zero_spec [OF nz]
  have c: "bit W i \<longleftrightarrow> countr_zero W \<le> i \<and> i \<le> 31 - countl_zero W" for i
    using contiguous_ones_gen [OF nz sum, of i] by simp
  show le: "countl_zero W + countr_zero W \<le> 31" using c [of "countr_zero W"] r l(1) by simp
  have "unat M < 2 ^ 32" using assms(1) by (simp add: word_le_nat_alt)
  note small = bit_less_exp [OF this]
  show "M = mask64 (countl_zero W + 32) (63 - countr_zero W)"
  proof (rule bit_word_eqI)
    fix i :: nat assume "i < LENGTH(64)"
    moreover have "bit M i \<longleftrightarrow> bit W i" using small [of i] by (auto simp: W_def bit_unsigned_iff dest: bit_imp_le_length)
    ultimately show "bit M i \<longleftrightarrow> bit (mask64 (countl_zero W + 32) (63 - countr_zero W)) i"
      using le r(1) l(1) by (auto simp: c bit_mask64)
  qed
qed

lemma rotl32_low: "mb \<le> me \<Longrightarrow> me < 32 \<Longrightarrow> rotl32 0 x AND mask64 (mb + 32) (me + 32) = x AND mask64 (mb + 32) (me + 32)"
  by (rule bit_word_eqI)
    (auto simp: rotl32_def Let_def bit_and_iff bit_or_iff bit_push_bit_iff bit_unsigned_iff bit_word_rotl_iff bit_mask64)

lemma mask64_low_run: "k < 64 \<Longrightarrow> 0 < k \<Longrightarrow> mask64 (64 - k) 63 = mask k"
  by (rule bit_word_eqI) (auto simp: bit_mask64 bit_mask_iff)

lemma mask64_high_run: "k < 64 \<Longrightarrow> mask64 0 (63 - k) = NOT (mask k)"
  by (rule bit_word_eqI) (auto simp: bit_mask64 bit_mask_iff bit_not_iff)

lemma mask64_middle: "mb + lo \<le> 63 \<Longrightarrow> mask64 mb 63 AND mask64 0 (63 - lo) = mask64 mb (63 - lo)"
  by (rule bit_word_eqI) (auto simp: bit_mask64 bit_and_iff)

lemma ClassifyAndMask64_cases:
  obtains (zero) "M = 0" "ClassifyAndMask64 M w = and_form Zero 0 0 0"
  | (move) "M = NOT 0" "ClassifyAndMask64 M w = and_form Move 0 0 0"
  | (left) k where "0 < k" "k < 64" "M = mask k" "ClassifyAndMask64 M w = and_form ClearLeft (64 - k) 0 0"
  | (right) k where "0 < k" "k < 64" "M = NOT (mask k)" "ClassifyAndMask64 M w = and_form ClearRight 0 (63 - k) 0"
  | (word) mb me where "w" "mb \<le> me" "me < 32" "M = mask64 (mb + 32) (me + 32)"
      "ClassifyAndMask64 M w = and_form Word mb me 0"
  | (punch) mb lo where "mb + lo \<le> 63" "M = NOT (mask64 mb (63 - lo))"
      "ClassifyAndMask64 M w = and_form InsertZeroField mb 0 lo"
  | (both) mb lo where "mb + lo \<le> 63" "M = mask64 mb (63 - lo)" "ClassifyAndMask64 M w = and_form ClearBoth mb (63 - lo) 0"
  | (none) "\<not> IsRun64 M" "\<not> IsRun64 (NOT M)" "ClassifyAndMask64 M w = and_form None_Kind 0 0 0"
proof (cases "M = 0 \<or> M = NOT 0")
  case True
  then show thesis using zero move by (auto simp: ClassifyAndMask64_def)
next
  case nontrivial: False
  then have ne: "M \<noteq> 0" "M \<noteq> NOT 0" "NOT M \<noteq> 0" "NOT M \<noteq> NOT 0" by (auto dest: arg_cong [where f = NOT])
  show thesis
  proof (cases "M AND (M + 1) = 0")
    case True
    define k where "k = countr_one M"
    note run = low_run [OF ne(2) True, folded k_def]
    have "0 < k" using run(2) ne(1) by (cases "k = 0") simp_all
    moreover have "ClassifyAndMask64 M w = and_form ClearLeft (64 - k) 0 0"
      using ne True by (simp only: ClassifyAndMask64_def k_def if_False if_True simp_thms)
    ultimately show thesis using run by (intro left [of k])
  next
    case notlow: False
    show thesis
    proof (cases "NOT M AND (NOT M + 1) = 0")
      case True
      define k where "k = countr_one (NOT M)"
      note run = low_run [OF ne(4) True, folded k_def]
      have "0 < k" using run(2) ne(3) by (cases "k = 0") simp_all
      moreover have "M = NOT (mask k)" using run(2) by (metis bit.double_compl)
      moreover have "ClassifyAndMask64 M w = and_form ClearRight 0 (63 - k) 0"
        using ne notlow True by (simp only: ClassifyAndMask64_def k_def if_False if_True simp_thms)
      ultimately show thesis using run(1) by (intro right [of k])
    next
      case nothigh: False
      have unfolded: "ClassifyAndMask64 M w =
        (if w \<and> M \<le> 0xFFFFFFFF \<and> IsRun32 (ucast M) then
           and_form Word (31 - (31 - countl_zero (ucast M :: u32))) (31 - countr_zero (ucast M :: u32)) 0
         else if IsRun64 (NOT M) then and_form InsertZeroField (63 - (63 - countl_zero (NOT M))) 0 (countr_zero (NOT M))
         else if IsRun64 M then and_form ClearBoth (63 - (63 - countl_zero M)) (63 - countr_zero M) 0
         else and_form None_Kind 0 0 0)"
        using ne notlow nothigh by (simp only: ClassifyAndMask64_def if_False Let_def)
      consider (w) "w \<and> M \<le> 0xFFFFFFFF \<and> IsRun32 (ucast M)"
        | (z) "\<not> (w \<and> M \<le> 0xFFFFFFFF \<and> IsRun32 (ucast M))" "IsRun64 (NOT M)"
        | (m) "\<not> (w \<and> M \<le> 0xFFFFFFFF \<and> IsRun32 (ucast M))" "\<not> IsRun64 (NOT M)" "IsRun64 M"
        | (n) "\<not> (w \<and> M \<le> 0xFFFFFFFF \<and> IsRun32 (ucast M))" "\<not> IsRun64 (NOT M)" "\<not> IsRun64 M"
        by blast
      then show thesis
      proof cases
        case w
        define mb where "mb = countl_zero (ucast M :: u32)"
        define lo where "lo = countr_zero (ucast M :: u32)"
        from w have "M \<le> 0xFFFFFFFF" "IsRun32 (ucast M)" by simp_all
        note run = word_run_mask [OF this, folded mb_def lo_def]
        have "ClassifyAndMask64 M w = and_form Word (31 - (31 - mb)) (31 - lo) 0"
          unfolding unfolded mb_def lo_def using w by (simp only: if_True simp_thms)
        moreover have "31 - (31 - mb) = mb" "31 - lo + 32 = 63 - lo" using run(2) by simp_all
        ultimately show thesis using w run by (intro word [of mb "31 - lo"]) simp_all
      next
        case z
        define mb where "mb = countl_zero (NOT M)"
        define lo where "lo = countr_zero (NOT M)"
        note run = run_mask [OF z(2), folded mb_def lo_def]
        have "ClassifyAndMask64 M w = and_form InsertZeroField (63 - (63 - mb)) 0 lo"
          using z by (simp only: unfolded mb_def lo_def if_True if_False)
        moreover have "M = NOT (mask64 mb (63 - lo))" using run(1) by (metis bit.double_compl)
        moreover have "63 - (63 - mb) = mb" using run(2) by simp
        ultimately show thesis using run(2) by (intro punch [of mb lo]) simp_all
      next
        case m
        define mb where "mb = countl_zero M"
        define lo where "lo = countr_zero M"
        note run = run_mask [OF m(3), folded mb_def lo_def]
        have "ClassifyAndMask64 M w = and_form ClearBoth (63 - (63 - mb)) (63 - lo) 0"
          using m by (simp only: unfolded mb_def lo_def if_True if_False)
        moreover have "63 - (63 - mb) = mb" using run(2) by simp
        ultimately show thesis using run by (intro both [of mb lo]) simp_all
      next
        case n
        then show thesis by (intro none) (simp_all only: unfolded if_False simp_thms)
      qed
    qed
  qed
qed

lemma and_form_sel:
  "Kind (and_form k mb me sh) = k" "mb < 256 \<Longrightarrow> unat (MB (and_form k mb me sh)) = mb"
  "me < 256 \<Longrightarrow> unat (ME (and_form k mb me sh)) = me" "sh < 256 \<Longrightarrow> unat (SH (and_form k mb me sh)) = sh"
  by (simp_all add: and_form_def unat_u8)

lemma ClassifyAndMask64_applied:
  assumes "Kind (ClassifyAndMask64 M w) \<noteq> None_Kind"
  shows "form_applied (ClassifyAndMask64 M w) x = x AND M"
  using assms
  by (cases rule: ClassifyAndMask64_cases [of M w])
    (simp_all add: form_applied_def and_form_sel mask64_low_run rotl32_low mask64_middle insert_mask_def flip: mask64_high_run)

lemma ClassifyAndMask64_in_range: "form_in_range (ClassifyAndMask64 M w)"
  by (cases rule: ClassifyAndMask64_cases [of M w])
    (simp_all add: form_in_range_def word_less_nat_alt word_le_nat_alt and_form_sel)

lemma ClassifyAndMask_applied:
  assumes "Kind (ClassifyAndMask M Is32Bit) \<noteq> None_Kind"
  shows "if Is32Bit then take_bit 32 (form_applied (ClassifyAndMask M Is32Bit) x) = take_bit 32 (x AND M)
    else form_applied (ClassifyAndMask M Is32Bit) x = x AND M"
proof (cases Is32Bit)
  case False
  then show ?thesis using assms ClassifyAndMask64_applied [of M False x] by (simp add: ClassifyAndMask_def)
next
  case True
  have half: "take_bit 32 (x AND (M AND 0xFFFFFFFF)) = take_bit 32 (x AND M)"
    "take_bit 32 (x AND (M OR 0xFFFFFFFF00000000)) = take_bit 32 (x AND M)"
  proof -
    have m: "(0xFFFFFFFF :: u64) = mask 32" "(0xFFFFFFFF00000000 :: u64) = NOT (mask 32)"
      by (simp_all add: mask_eq_exp_minus_1)
    show "take_bit 32 (x AND (M AND 0xFFFFFFFF)) = take_bit 32 (x AND M)"
      unfolding m by (rule bit_word_eqI) (auto simp: bit_take_bit_iff bit_and_iff bit_mask_iff)
    show "take_bit 32 (x AND (M OR 0xFFFFFFFF00000000)) = take_bit 32 (x AND M)"
      unfolding m by (rule bit_word_eqI) (auto simp: bit_take_bit_iff bit_and_iff bit_or_iff bit_not_iff bit_mask_iff)
  qed
  define K where "K = ClassifyAndMask64 (M OR 0xFFFFFFFF00000000) False"
  define C where "C = ClassifyAndMask64 (M AND 0xFFFFFFFF) True"
  have "ClassifyAndMask M Is32Bit = K \<or> ClassifyAndMask M Is32Bit = C"
    using True by (simp add: ClassifyAndMask_def K_def C_def Let_def)
  then show ?thesis
    using True assms half ClassifyAndMask64_applied [of _ _ x] by (auto simp: K_def C_def)
qed

lemma ClassifyAndMask_in_range: "form_in_range (ClassifyAndMask M Is32Bit)"
  by (simp add: ClassifyAndMask_def ClassifyAndMask64_in_range Let_def)

subsection \<open>The emitted instructions\<close>

context ppc_isa
begin

lemma step_mr: "exec step (mr ra rs) s = Some (setr ra (gpr s rs) s)"
  by (simp add: mr_def step_or)

lemma run_mr_unless_same: "run step (mr_unless_same Dst S1) s = Some (setr Dst (gpr s S1) s)"
  by (simp add: mr_unless_same_def step_mr setr_same)

lemma run_EmitAndMask:
  assumes "EmitAndMask LogicalImmEnabled Dst S1 Mask Is32Bit = Some is" and "gpr s r0 = 0" and "Dst \<noteq> r0"
  shows "run step is s = Some (setr Dst (form_applied (ClassifyAndMask Mask Is32Bit) (gpr s S1)) s)"
proof -
  let ?f = "ClassifyAndMask Mask Is32Bit"
  have range: "unat (MB ?f) < 64" "unat (ME ?f) < 64" "unat (SH ?f) < 64"
    "Kind ?f = Word \<Longrightarrow> MB ?f \<le> ME ?f \<and> unat (ME ?f) < 32"
    using ClassifyAndMask_in_range [of Mask Is32Bit] by (simp_all add: form_in_range_def word_less_nat_alt)
  have u: "unat (ucast b :: u32) = unat b" for b :: u8
    using unat_less_exp [of b] by (simp add: unat_ucast_mod)
  show ?thesis
  proof (cases "Kind ?f")
    case Word
    then have "(ucast (MB ?f) :: u32) < 32" "(ucast (ME ?f) :: u32) < 32"
      using range(4) by (auto simp: word_less_nat_alt u word_le_nat_alt)
    then show ?thesis using assms Word
      by (auto simp: EmitAndMask_def form_applied_def step_rlwinm u Let_def split: if_splits)
  qed (use assms range in \<open>auto simp: EmitAndMask_def form_applied_def Let_def u step_li step_rldicl step_rldicr step_rldimi
        run_append run_mr_unless_same rotl_zero ac_simps split: if_splits\<close>)
qed

lemma run_EmitAndMaskRc:
  assumes "EmitAndMaskRc LogicalImmEnabled Dst S1 Mask Is32Bit = Some is"
  shows "run step is s = Some (put Dst (form_applied (ClassifyAndMask Mask Is32Bit) (gpr s S1)) True s)"
    and "Kind (ClassifyAndMask Mask Is32Bit) \<noteq> None_Kind"
proof -
  let ?f = "ClassifyAndMask Mask Is32Bit"
  have range: "unat (MB ?f) < 64" "Kind ?f = Word \<Longrightarrow> MB ?f \<le> ME ?f \<and> unat (ME ?f) < 32"
    using ClassifyAndMask_in_range [of Mask Is32Bit] by (simp_all add: form_in_range_def word_less_nat_alt)
  have u: "unat (ucast b :: u32) = unat b" for b :: u8
    using unat_less_exp [of b] by (simp add: unat_ucast_mod)
  have k: "Kind ?f = ClearLeft \<or> Kind ?f = Word"
    using assms by (simp add: EmitAndMaskRc_def Let_def split: if_splits AndMaskKind.splits)
  then show "Kind ?f \<noteq> None_Kind" by auto
  from k show "run step is s = Some (put Dst (form_applied ?f (gpr s S1)) True s)"
  proof
    assume "Kind ?f = ClearLeft"
    then show ?thesis using assms range(1)
      by (auto simp: EmitAndMaskRc_def form_applied_def Let_def u step_rldicl_rc rotl_zero split: if_splits)
  next
    assume W: "Kind ?f = Word"
    then have "(ucast (MB ?f) :: u32) < 32" "(ucast (ME ?f) :: u32) < 32"
      using range(2) by (auto simp: word_less_nat_alt u word_le_nat_alt)
    then show ?thesis using assms W
      by (auto simp: EmitAndMaskRc_def form_applied_def step_rlwinm_rc u Let_def split: if_splits)
  qed
qed

end

subsection \<open>Properties\<close>

lemma run_as_set: "(\<exists>lo hi. {i. bit (M :: u64) i} = {lo..hi}) \<longleftrightarrow> (\<exists>lo hi. \<forall>i < 64. bit M i \<longleftrightarrow> lo \<le> i \<and> i \<le> hi)"
proof
  assume "\<exists>lo hi. \<forall>i < 64. bit M i \<longleftrightarrow> lo \<le> i \<and> i \<le> hi"
  then obtain lo hi where "\<forall>i < 64. bit M i \<longleftrightarrow> lo \<le> i \<and> i \<le> hi" by blast
  moreover have "bit M i \<Longrightarrow> i < 64" for i by (drule bit_imp_le_length) simp
  ultimately have "{i. bit M i} = {lo..min hi 63}" by (fastforce simp: less_Suc_eq_le [symmetric])
  then show "\<exists>lo hi. {i. bit M i} = {lo..hi}" by blast
qed (metis atLeastAtMost_iff mem_Collect_eq)

text \<open>
  C13: when \<open>EmitAndMask\<close> accepts a mask, the instructions it emits compute the AND of the source with the mask
  in the destination (at 64 bits exactly, at 32 bits in the observable low half), touch no other register
  and no flag, and cost at most what \<open>AndMaskCost\<close> announces.  The zero register must hold zero and not
  be the destination.
\<close>

theorem EmitAndMask_correct:
  assumes "EmitAndMask LogicalImmEnabled Dst S1 Mask Is32Bit = Some is" and "gpr s r0 = 0" and "Dst \<noteq> r0"
  shows "\<exists>v. run isa_step is s = Some (setr Dst v s) \<and>
    (if Is32Bit then take_bit 32 v = take_bit 32 (gpr s S1 AND Mask) else v = gpr s S1 AND Mask) \<and>
    length is \<le> AndMaskCost (Kind (ClassifyAndMask Mask Is32Bit))"
proof -
  have "Kind (ClassifyAndMask Mask Is32Bit) \<noteq> None_Kind"
    using assms(1) by (auto simp: EmitAndMask_def Let_def split: if_splits)
  note ClassifyAndMask_applied [OF this, of "gpr s S1"]
  moreover have "length is \<le> AndMaskCost (Kind (ClassifyAndMask Mask Is32Bit))"
    using assms(1) by (auto simp: EmitAndMask_def Let_def mr_unless_same_def split: if_splits AndMaskKind.splits)
  ultimately show ?thesis using ppc.run_EmitAndMask [OF assms] by (auto split: if_splits)
qed

definition zero_state :: PPC where
  "zero_state = \<lparr>gpr = \<lambda>_. 0, cr = \<lambda>_. False, ca = False, ov = False, so = False, xer = 0, mem = \<lambda>_. 0\<rparr>"

lemma classify_low_nibble: "ClassifyAndMask 0xFFFFFFFFFFFFFF0F False = and_form InsertZeroField 56 0 4"
  by code_simp

theorem EmitAndMask_correct_witness:
  "\<exists>v. run isa_step [mr 8 9, rldimi 8 r0 4 56] (setr 9 0xABCD zero_state) = Some (setr 8 v (setr 9 0xABCD zero_state)) \<and> v = 0xAB0D"
proof -
  have "EmitAndMask True 8 9 0xFFFFFFFFFFFFFF0F False = Some [mr 8 9, rldimi 8 r0 4 56]"
    by (simp add: EmitAndMask_def classify_low_nibble and_form_def mr_unless_same_def Let_def)
  from EmitAndMask_correct [OF this, of "setr 9 0xABCD zero_state"] show ?thesis
    by (simp add: zero_state_def r0_def)
qed

lemma IsRun64_intro:
  assumes "lo \<le> hi" "hi < 64" "\<forall>i < 64. bit M i \<longleftrightarrow> lo \<le> i \<and> i \<le> hi"
  shows "IsRun64 M"
proof -
  have bits: "bit M i \<longleftrightarrow> lo \<le> i \<and> i \<le> hi" for i
    using assms by (cases "i < 64") (auto dest: bit_imp_le_length)
  then have nz: "M \<noteq> 0" using assms(1) by auto
  have "countr_zero M = lo"
    using countr_zero_spec(2) [OF nz] countr_zero_spec(3) [OF nz, rule_format, of lo] assms(1) by (simp add: bits) (meson le_antisym not_le_imp_less)
  moreover have "63 - countl_zero M = hi"
    using countl_zero_spec(2) [OF nz] countl_zero_spec(3) [OF nz, rule_format, of hi] assms(1) by (simp add: bits) (meson le_antisym not_le_imp_less)
  moreover have "popcount M = card {lo..hi}"
  proof -
    have "{i. i < 64 \<and> bit M i} = {lo..hi}" using assms(2) by (auto simp: bits)
    then show ?thesis by (simp add: popcount_def length_filter_conv_card del: upt_rec_numeral cong: conj_cong)
  qed
  ultimately show ?thesis using nz countl_zero_spec(1) [OF nz] assms(1,2) by (simp add: IsRun64_def)
qed

lemma IsRun64_bits: "IsRun64 M \<Longrightarrow> \<exists>lo hi. \<forall>i < 64. bit M i \<longleftrightarrow> lo \<le> i \<and> i \<le> hi"
  using contiguous_ones [of M] by (auto simp: IsRun64_def)

lemma one_run_iff: "(\<exists>lo hi. \<forall>i < 64. bit M i \<longleftrightarrow> lo \<le> i \<and> i \<le> hi) \<longleftrightarrow> M = 0 \<or> IsRun64 M"
proof
  assume "\<exists>lo hi. \<forall>i < 64. bit M i \<longleftrightarrow> lo \<le> i \<and> i \<le> hi"
  then obtain lo hi where b: "\<forall>i < 64. bit M i \<longleftrightarrow> lo \<le> i \<and> i \<le> hi" by blast
  show "M = 0 \<or> IsRun64 M"
  proof (cases "lo \<le> min hi 63")
    case True
    then have "IsRun64 M" using b by (intro IsRun64_intro [of lo "min hi 63"]) auto
    then show ?thesis ..
  next
    case False
    then have "M = 0" using b by (intro bit_word_eqI) auto
    then show ?thesis ..
  qed
next
  assume "M = 0 \<or> IsRun64 M"
  then show "\<exists>lo hi. \<forall>i < 64. bit M i \<longleftrightarrow> lo \<le> i \<and> i \<le> hi"
  proof
    assume "M = 0"
    then show ?thesis by (intro exI [of _ 1] exI [of _ 0]) simp
  qed (rule IsRun64_bits)
qed

text \<open>
  C14: the classifier is complete for 64-bit masks: it gives up exactly when neither the ones nor the
  zeros of the mask form a single (possibly empty) run of bits.
\<close>

theorem ClassifyAndMask_complete:
  "Kind (ClassifyAndMask M False) = None_Kind \<longleftrightarrow>
     \<not> ((\<exists>lo hi. {i. bit M i} = {lo..hi}) \<or> (\<exists>lo hi. {i. bit (NOT M) i} = {lo..hi}))"
  unfolding run_as_set one_run_iff
proof (cases rule: ClassifyAndMask64_cases [of M False])
  case (left k)
  then have "IsRun64 M" by (intro IsRun64_intro [of 0 "k - 1"]) (auto simp: bit_mask_iff)
  with left show "Kind (ClassifyAndMask M False) = None_Kind \<longleftrightarrow> \<not> ((M = 0 \<or> IsRun64 M) \<or> NOT M = 0 \<or> IsRun64 (NOT M))"
    by (simp add: ClassifyAndMask_def and_form_def)
next
  case (right k)
  then have "IsRun64 (NOT M)" by (intro IsRun64_intro [of 0 "k - 1"]) (auto simp: bit_mask_iff)
  with right show "Kind (ClassifyAndMask M False) = None_Kind \<longleftrightarrow> \<not> ((M = 0 \<or> IsRun64 M) \<or> NOT M = 0 \<or> IsRun64 (NOT M))"
    by (simp add: ClassifyAndMask_def and_form_def)
next
  case (punch mb lo)
  then have "IsRun64 (NOT M)" by (intro IsRun64_intro [of lo "63 - mb"]) (auto simp: bit_mask64)
  with punch show "Kind (ClassifyAndMask M False) = None_Kind \<longleftrightarrow> \<not> ((M = 0 \<or> IsRun64 M) \<or> NOT M = 0 \<or> IsRun64 (NOT M))"
    by (simp add: ClassifyAndMask_def and_form_def)
next
  case (both mb lo)
  then have "IsRun64 M" by (intro IsRun64_intro [of lo "63 - mb"]) (auto simp: bit_mask64)
  with both show "Kind (ClassifyAndMask M False) = None_Kind \<longleftrightarrow> \<not> ((M = 0 \<or> IsRun64 M) \<or> NOT M = 0 \<or> IsRun64 (NOT M))"
    by (simp add: ClassifyAndMask_def and_form_def)
next
  case none
  moreover have "M \<noteq> 0"
  proof
    assume "M = 0"
    with none(3) show False by (simp add: ClassifyAndMask64_def and_form_def)
  qed
  moreover have "NOT M \<noteq> 0"
  proof
    assume "NOT M = 0"
    then have "M = NOT 0" by (metis bit.double_compl)
    then have "ClassifyAndMask64 M False = and_form Move 0 0 0" by (simp add: ClassifyAndMask64_def)
    with none(3) show False by (simp add: and_form_def)
  qed
  ultimately show "Kind (ClassifyAndMask M False) = None_Kind \<longleftrightarrow> \<not> ((M = 0 \<or> IsRun64 M) \<or> NOT M = 0 \<or> IsRun64 (NOT M))"
    by (simp add: ClassifyAndMask_def and_form_def)
qed (simp_all add: ClassifyAndMask_def and_form_def)

lemma uint_of_sint: "uint (x :: u64) = (if 0 \<le> sint x then sint x else sint x + 2 ^ 64)"
proof -
  have "uint x = sint x mod 2 ^ 64" using take_bit_eq_mod [of 64 "sint x"] by (simp add: uint_sint)
  moreover have "- (2 ^ 63) \<le> sint x" "sint x < 2 ^ 63" using sint_ge [of x] sint_lt [of x] by simp_all
  moreover have "k mod m = k + m" if "- m \<le> k" "k < 0" for k m :: int
    using that mod_add_self2 [of k m] mod_pos_pos_trivial [of "k + m" m] by simp
  ultimately show ?thesis by (auto simp: mod_pos_pos_trivial)
qed

lemma near_zero_iff: "X \<le> 0x7FFFFFFF \<or> 0xFFFFFFFF80000000 \<le> X \<longleftrightarrow> IsSImm32 X"
  using sint_lt [of X] sint_ge [of X]
  by (auto simp: IsSImm32_def word_le_def uint_of_sint [of X] split: if_splits)

lemma sint_low32:
  assumes "IsSImm32 X"
  shows "sint (ucast X :: u32) = sint X"
proof -
  have "sint (ucast X :: u32) = signed_take_bit 31 (sint X)"
    by (simp add: sint_uint unsigned_ucast_eq signed_take_bit_take_bit signed_take_bit_signed_take_bit)
  also have "\<dots> = sint X" using assms by (simp add: signed_take_bit_int_eq_self IsSImm32_def Let_def)
  finally show ?thesis .
qed

lemma low16_zero_iff: "(ucast (X :: u64) :: u32) AND 0xFFFF = 0 \<longleftrightarrow> X AND 0xFFFF = 0"
proof -
  have m: "(0xFFFF :: u32) = mask 16" "(0xFFFF :: u64) = mask 16" by (simp_all add: mask_eq_exp_minus_1)
  have "(ucast X AND 0xFFFF :: u32) = ucast (X AND 0xFFFF)"
    unfolding m by (rule bit_word_eqI) (auto simp: bit_and_iff bit_unsigned_iff bit_mask_iff)
  moreover have "ucast (ucast (X AND 0xFFFF) :: u32) = X AND 0xFFFF"
    unfolding m by (rule bit_word_eqI) (auto simp: bit_and_iff bit_unsigned_iff bit_mask_iff)
  ultimately show ?thesis by (metis unsigned_0)
qed

text \<open>
  C15: \<open>IsOneInsnConstant\<close>, the predicate that decides whether the frontend may inline an addend, accepts a
  constant exactly when \<open>LoadImm64\<close> materialises it in one instruction.
\<close>

theorem IsOneInsnConstant_exact:
  "IsOneInsnConstant X \<longleftrightarrow> length (LoadImm64 DisableShiftedImm32 rt X) = 1"
proof (cases "IsSImm32 X")
  case True
  then have "length (LoadImm64 DisableShiftedImm32 rt X) = length (LoadImm32 rt (ucast X))"
    by (auto simp: LoadImm64_def near_zero_iff LoadImm32_def)
  also have "\<dots> = 1 \<longleftrightarrow> IsSImm16 X \<or> X AND 0xFFFF = 0"
    by (auto simp: LoadImm32_def sint_low32 [OF True] low16_zero_iff IsSImm16_def Let_def)
  finally show ?thesis using True by (simp add: IsOneInsnConstant_def)
next
  case False
  moreover from this have "X \<noteq> 0" "\<not> IsSImm16 X" by (auto simp: IsSImm32_def IsSImm16_def Let_def)
  moreover have "length (LoadImm32 rt v) \<noteq> 0" for v by (simp add: LoadImm32_def Let_def)
  ultimately show ?thesis
    by (simp add: IsOneInsnConstant_def LoadImm64_def near_zero_iff LoadImm64_full_def Let_def)
qed

end
