(* ===== verification/Alu_Base.thy ===== *)
theory Alu_Base
  imports Ppc_Immediates
begin

text \<open>
  Common ground of the lowering of integer IR operations (\<open>JIT/PPC64LE/ALUOps.cpp\<close>): the host registers
  guest values live in (\<open>ArchHelpers/PPC64Emitter.h\<close>), operands after register allocation, the tail mask
  of 32-bit results, and the contract of a value-only operation.

  A handler \<open>DEF_OP(X)\<close> is modelled by the list of instructions it emits.  Its arguments are what the C++
  reads from the IR node (size, registers, inline constants, immediates), the environment switches that
  change the emitted code (\<open>Config\<close>) and whether the tail mask of the node was elided.  The FEX_ZEXTTRAP
  diagnostic, off by default, is taken to be off.
\<close>

subsection \<open>Registers and operands\<close>

definition TMP1 :: GPR where "TMP1 = 3"
definition TMP2 :: GPR where "TMP2 = 4"
definition TMP3 :: GPR where "TMP3 = 5"
definition TMP4 :: GPR where "TMP4 = 6"
definition REG_PF :: GPR where "REG_PF = 28"
definition REG_AF :: GPR where "REG_AF = 29"

definition x64_SRA :: "GPR list" where
  "x64_SRA = [7, 8, 9, 10, 11, 12, 14, 15, 16, 17, 18, 19, 20, 21, 22, 23, REG_PF, REG_AF]"
definition x64_RA :: "GPR list" where "x64_RA = [24, 25, 26, 30, 31]"
definition x32_SRA :: "GPR list" where "x32_SRA = [7, 8, 9, 10, 11, 12, 14, 15, REG_PF, REG_AF]"
definition x32_RA :: "GPR list" where "x32_RA = [16, 17, 18, 19, 20, 21, 22, 23, 24, 25, 26, 30, 31]"

definition guest_reg :: "GPR \<Rightarrow> bool" where
  "guest_reg r \<longleftrightarrow> r \<in> set (x64_SRA @ x64_RA) \<or> r \<in> set (x32_SRA @ x32_RA)"

lemmas tmp_defs = TMP1_def TMP2_def TMP3_def TMP4_def r0_def

lemma guest_reg_neq [simp]:
  assumes "guest_reg r"
  shows "r \<noteq> r0" "r \<noteq> TMP1" "r \<noteq> TMP2" "r \<noteq> TMP3" "r \<noteq> TMP4" "r0 \<noteq> r" "TMP1 \<noteq> r" "TMP2 \<noteq> r" "TMP3 \<noteq> r" "TMP4 \<noteq> r" "r \<noteq> 0"
  using assms
  by (auto simp: guest_reg_def tmp_defs x64_SRA_def x64_RA_def x32_SRA_def x32_RA_def REG_PF_def REG_AF_def)

lemma tmp_neq [simp]:
  "TMP1 \<noteq> TMP2" "TMP1 \<noteq> TMP3" "TMP1 \<noteq> TMP4" "TMP2 \<noteq> TMP1" "TMP2 \<noteq> TMP3" "TMP2 \<noteq> TMP4" "TMP3 \<noteq> TMP1" "TMP3 \<noteq> TMP2"
  "TMP3 \<noteq> TMP4" "TMP4 \<noteq> TMP1" "TMP4 \<noteq> TMP2" "TMP4 \<noteq> TMP3" "r0 \<noteq> TMP1" "r0 \<noteq> TMP2" "r0 \<noteq> TMP3" "r0 \<noteq> TMP4"
  "TMP1 \<noteq> r0" "TMP2 \<noteq> r0" "TMP3 \<noteq> r0" "TMP4 \<noteq> r0" "TMP1 \<noteq> 0" "TMP2 \<noteq> 0" "TMP3 \<noteq> 0" "TMP4 \<noteq> 0"
  by (simp_all add: tmp_defs)

datatype operand = InlineConstant u64 | Reg GPR

fun value_of :: "PPC \<Rightarrow> operand \<Rightarrow> u64" where
  "value_of s (InlineConstant c) = c"
| "value_of s (Reg r) = gpr s r"

fun guest_operand :: "operand \<Rightarrow> bool" where
  "guest_operand (InlineConstant c) = True"
| "guest_operand (Reg r) = guest_reg r"

subsection \<open>The tail mask\<close>

record Config =
  LogicalImmEnabled :: bool
  DisableShiftedImm32 :: bool
  XERArithDisabled :: bool

definition LoadConstant :: "Config \<Rightarrow> GPR \<Rightarrow> u64 \<Rightarrow> insn list" where
  "LoadConstant cfg rt Constant = LoadImm64 (DisableShiftedImm32 cfg) rt Constant"

definition Mask32Tail :: "bool \<Rightarrow> GPR \<Rightarrow> insn list" where
  "Mask32Tail Elided Dst = (if Elided then [] else [rldicl Dst Dst 0 32])"

definition tail32 :: "OpSize \<Rightarrow> bool \<Rightarrow> GPR \<Rightarrow> insn list" where
  "tail32 Size Elided Dst = (if Size = i32Bit then Mask32Tail Elided Dst else [])"

definition size_le_32 :: "OpSize \<Rightarrow> bool" where
  "size_le_32 Size \<longleftrightarrow> OpSizeToSize Size \<le> OpSizeToSize i32Bit"

subsection \<open>The contract of a value-only operation\<close>

definition scratch :: "GPR set" where
  "scratch = {TMP1, TMP2, TMP3, TMP4}"

definition keeps :: "GPR set \<Rightarrow> PPC \<Rightarrow> PPC \<Rightarrow> bool" where
  "keeps R s s' \<longleftrightarrow> (\<forall>r. r \<notin> R \<longrightarrow> gpr s' r = gpr s r) \<and>
     cr s' = cr s \<and> ca s' = ca s \<and> ov s' = ov s \<and> so s' = so s \<and> xer s' = xer s \<and> mem s' = mem s"

text \<open>
  IR.json admits only the 32- and 64-bit sizes for these operations (\<open>EmitValidation\<close>).  At 32 bits the
  result is the low word, zero-extended unless the tail mask was elided, which the elision passes do only
  when nothing reads the upper half.
\<close>

definition gpr_size :: "OpSize \<Rightarrow> bool" where
  "gpr_size Size \<longleftrightarrow> Size = i32Bit \<or> Size = i64Bit"

definition size_bits :: "OpSize \<Rightarrow> nat" where
  "size_bits Size = (if Size = i32Bit then 32 else 64)"

definition result_is :: "OpSize \<Rightarrow> bool \<Rightarrow> u64 \<Rightarrow> u64 \<Rightarrow> bool" where
  "result_is Size Elided v w \<longleftrightarrow>
     (if Size = i32Bit then (ucast v :: u32) = ucast w \<and> (\<not> Elided \<longrightarrow> v = ucast (ucast w :: u32)) else v = w)"

definition computes :: "(u32 \<Rightarrow> PPC \<Rightarrow> PPC option) \<Rightarrow> insn list \<Rightarrow> PPC \<Rightarrow> GPR \<Rightarrow> (u64 \<Rightarrow> bool) \<Rightarrow> bool" where
  "computes step is s Dst ok \<longleftrightarrow>
     (\<exists>s'. run step is s = Some s' \<and> keeps (insert Dst scratch) s s' \<and> ok (gpr s' Dst))"

lemma keeps_refl [simp]: "keeps R s s"
  by (simp add: keeps_def)

lemma keeps_setr [simp]: "r \<in> R \<Longrightarrow> keeps R s (setr r v s') = keeps R s s'"
  by (auto simp: keeps_def)

lemma size_le_32_iff: "gpr_size Size \<Longrightarrow> size_le_32 Size \<longleftrightarrow> Size = i32Bit"
  by (auto simp: gpr_size_def size_le_32_def)

lemma in_scratch [simp]: "TMP1 \<in> scratch" "TMP2 \<in> scratch" "TMP3 \<in> scratch" "TMP4 \<in> scratch"
  by (simp_all add: scratch_def)

lemma computesI: "run step is s = Some s' \<Longrightarrow> keeps (insert Dst scratch) s s' \<Longrightarrow> ok (gpr s' Dst) \<Longrightarrow> computes step is s Dst ok"
  by (auto simp: computes_def)

lemma rotl_mask_zext: "word_rotl 0 (x :: u64) AND mask64 32 63 = ucast (ucast x :: u32)"
  by (rule bit_word_eqI) (auto simp: rotl_zero bit_and_iff bit_mask64 bit_unsigned_iff dest: bit_imp_le_length)

lemma low32_of_int: "(word_of_int (k mod 18446744073709551616) :: u32) = word_of_int k"
proof -
  have "(word_of_int (take_bit 64 k) :: u32) = word_of_int k"
    by (rule bit_word_eqI) (simp add: bit_of_int_iff bit_take_bit_iff)
  then show ?thesis by (simp add: take_bit_eq_mod)
qed

lemma low32_uint: "(ucast (w :: u64) :: u32) = word_of_int (uint w)"
  by simp

lemma low32_ring:
  fixes a b :: u64
  shows "(ucast (a + b) :: u32) = ucast a + ucast b" "(ucast (a - b) :: u32) = ucast a - ucast b"
    "(ucast (a * b) :: u32) = ucast a * ucast b" "(ucast (- a) :: u32) = - ucast a"
  unfolding low32_uint uint_word_ariths by (simp_all add: low32_of_int)

lemma low32_bitwise:
  fixes a b :: u64
  shows "(ucast (a AND b) :: u32) = ucast a AND ucast b" "(ucast (a OR b) :: u32) = ucast a OR ucast b"
    "(ucast (a XOR b) :: u32) = ucast a XOR ucast b" "(ucast (NOT a) :: u32) = NOT (ucast a)"
  by (rule bit_word_eqI, simp add: bit_unsigned_iff bit_and_iff bit_or_iff bit_xor_iff bit_not_iff)+

lemma low32_zext [simp]: "(ucast (ucast (w :: u32) :: u64) :: u32) = w"
  by (rule bit_word_eqI) (simp add: bit_unsigned_iff)

lemma low32_sext [simp]: "(ucast (scast (w :: u32) :: u64) :: u32) = w"
proof (rule bit_word_eqI)
  fix n :: nat assume "n < LENGTH(32)"
  then show "bit (ucast (scast w :: u64) :: u32) n \<longleftrightarrow> bit w n"
    by (cases "n = 31") (auto simp: bit_unsigned_iff bit_signed_iff min_def)
qed

subsection \<open>Shifts as rotations\<close>

lemma rotl_mask_drop:
  assumes "n < 64"
  shows "word_rotl ((64 - n) mod 64) (x :: u64) AND mask64 n 63 = drop_bit n x"
proof (rule bit_word_eqI)
  fix i :: nat assume "i < LENGTH(64)"
  then show "bit (word_rotl ((64 - n) mod 64) x AND mask64 n 63) i \<longleftrightarrow> bit (drop_bit n x) i"
    using assms by (cases "n = 0"; cases "i < 64 - n")
      (auto simp: bit_and_iff bit_word_rotl_iff bit_mask64 bit_drop_bit_eq mod_if ac_simps dest: bit_imp_le_length)
qed

lemma rotr_full_turn: "word_rotr 64 (x :: u64) = x" "word_rotr 32 (y :: u32) = y" "word_rotr 0 x = x" "word_rotr 0 y = y"
  by (rule bit_word_eqI, simp add: bit_word_rotr_iff)+

lemma rotl_rotr: "n < 64 \<Longrightarrow> word_rotl ((64 - n) mod 64) (x :: u64) = word_rotr n x"
  by (cases "n = 0") (simp_all add: word_rotl_eq_word_rotr rotr_full_turn)

lemma rotl32_rotr: "n < 32 \<Longrightarrow> word_rotl ((32 - n) mod 32) (x :: u32) = word_rotr n x"
  by (cases "n = 0") (simp_all add: word_rotl_eq_word_rotr rotr_full_turn)

lemma rotl32_masked:
  assumes "mb \<le> me" "me < 32"
  shows "rotl32 n x AND mask64 (mb + 32) (me + 32) = ucast (word_rotl n (ucast x :: u32)) AND mask64 (mb + 32) (me + 32)"
  using assms by (intro bit_word_eqI)
    (auto simp: rotl32_def Let_def bit_and_iff bit_or_iff bit_push_bit_iff bit_unsigned_iff bit_mask64)

lemma slwi: "n < 32 \<Longrightarrow> rotl32 n x AND mask64 32 (63 - n) = ucast (push_bit n (ucast x :: u32))"
proof -
  assume n: "n < 32"
  have "ucast (word_rotl n w) AND mask64 32 (63 - n) = (ucast (push_bit n w) :: u64)" for w :: u32
  proof (rule bit_word_eqI)
    fix i :: nat assume "i < LENGTH(64)"
    then show "bit (ucast (word_rotl n w) AND mask64 32 (63 - n) :: u64) i \<longleftrightarrow> bit (ucast (push_bit n w) :: u64) i"
      using n by (cases "n \<le> i"; cases "i < 32")
        (auto simp: bit_and_iff bit_word_rotl_iff bit_mask64 bit_unsigned_iff bit_push_bit_iff mod_if dest: bit_imp_le_length)
  qed
  then show ?thesis using n rotl32_masked [of 0 "31 - n" n x] by simp
qed

lemma srwi: "n < 32 \<Longrightarrow> rotl32 ((32 - n) mod 32) x AND mask64 (n + 32) 63 = ucast (drop_bit n (ucast x :: u32))"
proof -
  assume n: "n < 32"
  have "ucast (word_rotl ((32 - n) mod 32) w) AND mask64 (n + 32) 63 = (ucast (drop_bit n w) :: u64)" for w :: u32
  proof (rule bit_word_eqI)
    fix i :: nat assume "i < LENGTH(64)"
    then show "bit (ucast (word_rotl ((32 - n) mod 32) w) AND mask64 (n + 32) 63 :: u64) i \<longleftrightarrow> bit (ucast (drop_bit n w) :: u64) i"
      using n by (cases "n = 0"; cases "i < 32 - n")
        (auto simp: bit_and_iff bit_word_rotl_iff bit_mask64 bit_unsigned_iff bit_drop_bit_eq mod_if ac_simps dest: bit_imp_le_length)
  qed
  then show ?thesis using n rotl32_masked [of n 31 "(32 - n) mod 32" x] by simp
qed

lemma rotrwi: "n < 32 \<Longrightarrow> rotl32 ((32 - n) mod 32) x AND mask64 32 63 = ucast (word_rotr n (ucast x :: u32))"
proof -
  assume n: "n < 32"
  have "ucast w AND mask64 32 63 = (ucast w :: u64)" for w :: u32
    by (rule bit_word_eqI) (auto simp: bit_and_iff bit_mask64 bit_unsigned_iff dest: bit_imp_le_length)
  then show ?thesis using n rotl32_masked [of 0 31 "(32 - n) mod 32" x] by (simp add: rotl32_rotr)
qed

lemma mask64_full: "x AND mask64 0 63 = x"
  by (rule bit_word_eqI) (auto simp: bit_and_iff bit_mask64)

lemma u32_sub:
  fixes n :: u32
  shows "unat n \<le> 64 \<Longrightarrow> unat (64 - n) = 64 - unat n" "unat n \<le> 63 \<Longrightarrow> unat (63 - n) = 63 - unat n"
    "unat n \<le> 32 \<Longrightarrow> unat (32 - n) = 32 - unat n" "unat n \<le> 31 \<Longrightarrow> unat (31 - n) = 31 - unat n"
  by (simp_all add: unat_sub word_le_nat_alt)

lemma u32_mod_32: "unat (v AND 31 :: u32) = unat v mod 32"
  and u32_mod_64: "unat (v AND 63 :: u32) = unat v mod 64"
proof -
  have "v AND 31 = take_bit 5 v" "v AND 63 = take_bit 6 v" by (simp_all add: take_bit_eq_mask mask_eq_exp_minus_1)
  then show "unat (v AND 31) = unat v mod 32" "unat (v AND 63) = unat v mod 64"
    by (simp_all only: unsigned_take_bit_eq) (simp_all add: take_bit_eq_mod)
qed

lemma rotl_mask_drop_pos: "0 < n \<Longrightarrow> n < 64 \<Longrightarrow> word_rotl (64 - n) (x :: u64) AND mask64 n 63 = drop_bit n x"
  using rotl_mask_drop [of n x] by simp

lemma unat_u8_u32: "unat (ucast (b :: u8) :: u32) = unat b"
  using unat_less_exp [of b] by (simp add: unat_ucast_mod)

lemma low32_take_bit: "(ucast (x :: u64) :: u32) = ucast y \<longleftrightarrow> take_bit 32 x = take_bit 32 y"
  by (auto simp: bit_eq_iff bit_unsigned_iff bit_take_bit_iff) (drule_tac x = n in spec, simp)+

lemma u32_turn_mod: "0 < unat n \<Longrightarrow> unat n < 32 \<Longrightarrow> (32 - n :: u32) AND 31 = 32 - n"
  by (simp add: word_unat_eq_iff u32_mod_32 u32_sub)

subsection \<open>Running the common pieces\<close>

context ppc_isa
begin

lemma run_LoadConstant: "run step (LoadConstant cfg rt c) s = Some (setr rt c s)"
  by (simp add: LoadConstant_def run_LoadImm64)

lemma step_zext32: "exec step (rldicl ra rs 0 32) s = Some (setr ra (ucast (ucast (gpr s rs) :: u32)) s)"
  by (simp add: step_rldicl rotl_mask_zext)

lemma computes_tail32:
  assumes "run step is s = Some s'" and "keeps (insert Dst scratch) s s'" and "gpr_size Size"
    and "if Size = i32Bit then (ucast (gpr s' Dst) :: u32) = ucast w else gpr s' Dst = w"
  shows "computes step (is @ tail32 Size Elided Dst) s Dst (\<lambda>v. result_is Size Elided v w)"
  using assms
  by (auto simp: computes_def run_append tail32_def Mask32Tail_def step_zext32 result_is_def gpr_size_def split: if_splits)

lemma step_srdi: "unat n < 64 \<Longrightarrow> exec step (srdi ra rs n) s = Some (setr ra (drop_bit (unat n) (gpr s rs)) s)"
  by (simp add: srdi_def step_rldicl rotl_mask_drop u32_sub)

lemma step_sldi_u32: "unat n < 64 \<Longrightarrow> exec step (sldi ra rs n) s = Some (setr ra (push_bit (unat n) (gpr s rs)) s)"
  using step_sldi [of "unat n" ra rs s] by simp

lemma step_slwi: "unat n < 32 \<Longrightarrow>
    exec step (rlwinm ra rs n 0 (31 - n)) s = Some (setr ra (ucast (push_bit (unat n) (ucast (gpr s rs) :: u32))) s)"
  by (simp add: step_rlwinm word_less_nat_alt u32_sub flip: slwi)

lemma step_srwi: "unat n < 32 \<Longrightarrow>
    exec step (rlwinm ra rs ((32 - n) AND 31) n 31) s = Some (setr ra (ucast (drop_bit (unat n) (ucast (gpr s rs) :: u32))) s)"
  by (simp add: step_rlwinm word_less_nat_alt u32_sub u32_mod_32 flip: srwi)

lemma step_rotrwi: "unat n < 32 \<Longrightarrow>
    exec step (rlwinm ra rs ((32 - n) AND 31) 0 31) s = Some (setr ra (ucast (word_rotr (unat n) (ucast (gpr s rs) :: u32))) s)"
  by (simp add: step_rlwinm word_less_nat_alt u32_sub u32_mod_32 flip: rotrwi)

lemma step_rotrdi: "unat n < 64 \<Longrightarrow>
    exec step (rldicl ra rs ((64 - n) AND 63) 0) s = Some (setr ra (word_rotr (unat n) (gpr s rs)) s)"
  by (simp add: step_rldicl u32_sub u32_mod_64 mask64_full flip: rotl_rotr)

end

subsection \<open>Concrete machines\<close>

text \<open>A machine whose registers hold the listed values, everything else being zero.\<close>

definition machine_at :: "(GPR \<times> u64) list \<Rightarrow> PPC" where
  "machine_at rs = \<lparr>gpr = (\<lambda>r. case map_of rs r of None \<Rightarrow> 0 | Some v \<Rightarrow> v), cr = (\<lambda>_. False), ca = False, ov = False, so = False,
     xer = 0, mem = (\<lambda>_. 0)\<rparr>"

definition default_config :: Config where
  "default_config = \<lparr>LogicalImmEnabled = True, DisableShiftedImm32 = False, XERArithDisabled = False\<rparr>"

lemma guest_regs_decide: "guest_reg r \<longleftrightarrow> r \<in> {7, 8, 9, 10, 11, 12, 14, 15, 16, 17, 18, 19, 20, 21, 22, 23, 24, 25, 26, 28, 29, 30, 31}"
  by (auto simp: guest_reg_def x64_SRA_def x64_RA_def x32_SRA_def x32_RA_def REG_PF_def REG_AF_def)

lemma machine_at_simps [simp]: "gpr (machine_at rs) r = (case map_of rs r of None \<Rightarrow> 0 | Some v \<Rightarrow> v)" "ca (machine_at rs) = False"
  by (simp_all add: machine_at_def)

lemmas decide_operation = guest_regs_decide gpr_size_def size_bits_def result_is_def r0_def

end
