(* ===== verification/Alu_Arith.thy ===== *)
theory Alu_Arith
  imports Alu_Base
begin

text \<open>
  Addition, subtraction and multiplication of \<open>JIT/PPC64LE/ALUOps.cpp\<close>.  Each \<open>Op_X\<close> is the instruction list
  \<open>DEF_OP(X)\<close> emits; the lemmas \<open>computes_X\<close> say that running it leaves the value of the IR operation in the
  destination and preserves every other guest register, all flags and memory.
\<close>

subsection \<open>Handlers\<close>

definition SplitAddisAddi :: "int \<Rightarrow> (u16 \<times> u16) option" where
  "SplitAddisAddi V =
     (let L = sint (word_of_int V :: u16); H = (V - L) div 65536 in
      if H < - 32768 \<or> 32767 < H then None else Some (word_of_int H, word_of_int L))"

definition add_wide_imm :: "OpSize \<Rightarrow> GPR \<Rightarrow> GPR \<Rightarrow> u64 \<Rightarrow> insn list \<Rightarrow> insn list" where
  "add_wide_imm Size Dst S1 C fallback =
     (let V = (if Size = i32Bit then sint (ucast C :: u32) else sint C) in
      case (if idx S1 \<noteq> 0 then SplitAddisAddi V else None) of
        Some (Hi, Lo) \<Rightarrow> [addis Dst S1 Hi, addi Dst Dst Lo]
      | None \<Rightarrow> fallback)"

definition Op_Add :: "Config \<Rightarrow> OpSize \<Rightarrow> bool \<Rightarrow> GPR \<Rightarrow> GPR \<Rightarrow> operand \<Rightarrow> insn list" where
  "Op_Add cfg Size Elided Dst S1 Src2 =
     (case Src2 of
        InlineConstant Const \<Rightarrow>
          if Const = 0 then mr_unless_same Dst S1
          else if - 32768 \<le> sint Const \<and> sint Const \<le> 32767 then [addi Dst S1 (ucast Const)]
          else add_wide_imm Size Dst S1 Const (LoadConstant cfg TMP4 Const @ [add Dst S1 TMP4])
      | Reg S2 \<Rightarrow> [add Dst S1 S2]) @ tail32 Size Elided Dst"

definition Op_Sub :: "Config \<Rightarrow> OpSize \<Rightarrow> bool \<Rightarrow> u16 option \<Rightarrow> GPR \<Rightarrow> operand \<Rightarrow> operand \<Rightarrow> insn list" where
  "Op_Sub cfg Size Elided SpinCollapse Dst Src1 Src2 =
     (case (SpinCollapse, Src1, Src2) of
        (Some K, Reg S1, _) \<Rightarrow>
          [if Size = i32Bit then cmplwi 7 S1 K else cmpldi 7 S1 K, addi TMP1 S1 (- K), li TMP2 0, isel Dst TMP1 TMP2 29]
      | (None, Reg S1, InlineConstant C2) \<Rightarrow>
          let NegC = NOT C2 + 1 in
          if - 32768 \<le> sint NegC \<and> sint NegC \<le> 32767 then [addi Dst S1 (ucast NegC)]
          else add_wide_imm Size Dst S1 NegC (LoadConstant cfg TMP4 C2 @ [subf Dst TMP4 S1])
      | (None, InlineConstant C1, Reg S2) \<Rightarrow> LoadConstant cfg TMP4 C1 @ [subf Dst S2 TMP4]
      | (None, Reg S1, Reg S2) \<Rightarrow> [subf Dst S2 S1]
      | _ \<Rightarrow> [None]) @ tail32 Size Elided Dst"

definition Op_Not :: "OpSize \<Rightarrow> bool \<Rightarrow> GPR \<Rightarrow> GPR \<Rightarrow> insn list" where
  "Op_Not Size Elided Dst Src = [not_r Dst Src] @ tail32 Size Elided Dst"

definition mul_word :: "OpSize \<Rightarrow> GPR \<Rightarrow> GPR \<Rightarrow> GPR \<Rightarrow> insn" where
  "mul_word Size Dst S1 S2 = (if size_le_32 Size then mullw Dst S1 S2 else mulld Dst S1 S2)"

definition Op_Mul :: "Config \<Rightarrow> OpSize \<Rightarrow> bool \<Rightarrow> GPR \<Rightarrow> GPR \<Rightarrow> operand \<Rightarrow> insn list" where
  "Op_Mul cfg Size Elided Dst S1 Src2 =
     (case Src2 of
        InlineConstant Const \<Rightarrow>
          if - 32768 \<le> sint Const \<and> sint Const \<le> 32767 then [mulli Dst S1 (ucast Const)]
          else LoadConstant cfg TMP4 Const @ [mul_word Size Dst S1 TMP4]
      | Reg S2 \<Rightarrow> [mul_word Size Dst S1 S2]) @ tail32 Size Elided Dst"

definition Op_UMul :: "OpSize \<Rightarrow> bool \<Rightarrow> GPR \<Rightarrow> GPR \<Rightarrow> GPR \<Rightarrow> insn list" where
  "Op_UMul Size Elided Dst S1 S2 = [mul_word Size Dst S1 S2] @ tail32 Size Elided Dst"

definition Op_UMull :: "GPR \<Rightarrow> GPR \<Rightarrow> GPR \<Rightarrow> insn list" where
  "Op_UMull Dst S1 S2 = [rldicl TMP1 S1 0 32, rldicl TMP2 S2 0 32, mulld Dst TMP1 TMP2]"

definition Op_SMull :: "GPR \<Rightarrow> GPR \<Rightarrow> GPR \<Rightarrow> insn list" where
  "Op_SMull Dst S1 S2 = [extsw TMP1 S1, extsw TMP2 S2, mulld Dst TMP1 TMP2]"

definition Op_MulH :: "OpSize \<Rightarrow> GPR \<Rightarrow> GPR \<Rightarrow> GPR \<Rightarrow> insn list" where
  "Op_MulH Size Dst S1 S2 =
     (case Size of
        i8Bit \<Rightarrow> [extsb TMP1 S1, extsb TMP2 S2, mulld Dst TMP1 TMP2, rldicl Dst Dst 56 56]
      | i16Bit \<Rightarrow> [extsh TMP1 S1, extsh TMP2 S2, mulld Dst TMP1 TMP2, rldicl Dst Dst 48 48]
      | i32Bit \<Rightarrow> [mulhw Dst S1 S2, rldicl Dst Dst 0 32]
      | _ \<Rightarrow> [mulhd Dst S1 S2])"

definition Op_UMulH :: "OpSize \<Rightarrow> GPR \<Rightarrow> GPR \<Rightarrow> GPR \<Rightarrow> insn list" where
  "Op_UMulH Size Dst S1 S2 =
     (case Size of
        i8Bit \<Rightarrow> [rldicl TMP1 S1 0 56, rldicl TMP2 S2 0 56, mulld Dst TMP1 TMP2, rldicl Dst Dst 56 56]
      | i16Bit \<Rightarrow> [rldicl TMP1 S1 0 48, rldicl TMP2 S2 0 48, mulld Dst TMP1 TMP2, rldicl Dst Dst 48 48]
      | i32Bit \<Rightarrow> [mulhwu Dst S1 S2, rldicl Dst Dst 0 32]
      | _ \<Rightarrow> [mulhdu Dst S1 S2])"

definition Op_AddShift :: "OpSize \<Rightarrow> bool \<Rightarrow> GPR \<Rightarrow> GPR \<Rightarrow> GPR \<Rightarrow> u8 \<Rightarrow> insn list" where
  "Op_AddShift Size Elided Dst S1 S2 ShiftAmount =
     (if ShiftAmount = 0 then extsb TMP4 S2 else sldi TMP4 S2 (ucast ShiftAmount)) # add Dst S1 TMP4 # tail32 Size Elided Dst"

definition Op_SubShift :: "OpSize \<Rightarrow> bool \<Rightarrow> GPR \<Rightarrow> GPR \<Rightarrow> GPR \<Rightarrow> u8 \<Rightarrow> insn list" where
  "Op_SubShift Size Elided Dst S1 S2 ShiftAmount =
     [sldi TMP4 S2 (ucast ShiftAmount), subf Dst TMP4 S1] @ tail32 Size Elided Dst"

definition Op_Copy :: "GPR \<Rightarrow> GPR \<Rightarrow> insn list" where
  "Op_Copy Dst Src = mr_unless_same Dst Src"

subsection \<open>Constants split over two instructions\<close>

lemma SplitAddisAddi_sum:
  assumes "SplitAddisAddi V = Some (Hi, Lo)"
  shows "push_bit 16 (scast Hi) + scast Lo = (word_of_int V :: u64)"
proof -
  define L where "L = sint (word_of_int V :: u16)"
  define H where "H = (V - L) div 65536"
  have H: "- 32768 \<le> H" "H \<le> 32767" and w: "Hi = word_of_int H" "Lo = word_of_int L"
    using assms by (auto simp: SplitAddisAddi_def Let_def L_def H_def split: if_splits)
  have "take_bit 16 L = uint (word_of_int V :: u16)" by (simp add: L_def uint_sint)
  also have "\<dots> = take_bit 16 V" by (simp add: unsigned_of_int)
  finally have "take_bit 16 L = take_bit 16 V" .
  then have "65536 dvd V - L" by (simp add: take_bit_eq_mod mod_eq_dvd_iff [symmetric])
  then have V: "V = H * 65536 + L" unfolding H_def by (simp add: dvd_div_mult_self)
  have sH: "sint Hi = H" using H by (simp add: w sint_uint unsigned_of_int signed_take_bit_take_bit signed_take_bit_int_eq_self)
  have sL: "sint Lo = L" by (simp add: w L_def)
  have "(scast Hi :: u64) = word_of_int H" "(scast Lo :: u64) = word_of_int L"
    unfolding sH [symmetric] sL [symmetric] by simp_all
  then have "push_bit 16 (scast Hi) + scast Lo = (word_of_int (H * 65536 + L) :: u64)"
    by (simp add: push_bit_eq_mult)
  then show ?thesis using V by simp
qed

subsection \<open>Correctness\<close>

lemma low32_of_sint: "(ucast (word_of_int (sint (ucast (c :: u64) :: u32)) :: u64) :: u32) = ucast c"
  by (simp add: ucast_low32)

context ppc_isa
begin

lemma run_add_wide_imm:
  assumes "guest_reg Dst" "guest_reg S1" "gpr_size Size"
    and "\<exists>s'. run step fallback s = Some s' \<and> keeps (insert Dst scratch) s s' \<and> gpr s' Dst = gpr s S1 + C"
  obtains s' where "run step (add_wide_imm Size Dst S1 C fallback) s = Some s'" "keeps (insert Dst scratch) s s'"
    "if Size = i32Bit then (ucast (gpr s' Dst) :: u32) = ucast (gpr s S1 + C) else gpr s' Dst = gpr s S1 + C"
proof (cases "add_wide_imm Size Dst S1 C fallback = fallback")
  case True
  with assms(4) that show thesis by auto
next
  case False
  define V where "V = (if Size = i32Bit then sint (ucast C :: u32) else sint C)"
  obtain Hi Lo where split: "SplitAddisAddi V = Some (Hi, Lo)" "add_wide_imm Size Dst S1 C fallback = [addis Dst S1 Hi, addi Dst Dst Lo]"
    using False by (auto simp: add_wide_imm_def V_def Let_def split: option.splits if_splits)
  have "run step (add_wide_imm Size Dst S1 C fallback) s = Some (setr Dst (gpr s S1 + (push_bit 16 (scast Hi) + scast Lo)) s)"
    using assms by (simp add: split(2) step_addis step_addi add.assoc)
  also have "push_bit 16 (scast Hi) + scast Lo = (word_of_int V :: u64)" by (rule SplitAddisAddi_sum [OF split(1)])
  finally show thesis
    using assms(3) by (intro that) (auto simp: V_def low32_ring low32_of_sint gpr_size_def)
qed

lemma scast_imm16:
  assumes "- 32768 \<le> sint c" "sint c \<le> 32767"
  shows "(scast (ucast (c :: u64) :: u16) :: u64) = c"
  using assms by (intro scast_ucast_id) simp_all

lemma computes_Add:
  assumes "guest_reg Dst" "guest_reg S1" "guest_operand Src2" "gpr_size Size"
  shows "computes step (Op_Add cfg Size Elided Dst S1 Src2) s Dst (\<lambda>v. result_is Size Elided v (gpr s S1 + value_of s Src2))"
proof (cases Src2)
  case (Reg S2)
  then show ?thesis unfolding Op_Add_def using assms by (intro computes_tail32) (auto simp: step_add)
next
  case (InlineConstant c)
  consider "c = 0" | "c \<noteq> 0" "- 32768 \<le> sint c \<and> sint c \<le> 32767" | "c \<noteq> 0" "\<not> (- 32768 \<le> sint c \<and> sint c \<le> 32767)" by blast
  then show ?thesis
  proof cases
    case 1
    then show ?thesis unfolding Op_Add_def using assms InlineConstant
      by (intro computes_tail32) (auto simp: run_mr_unless_same)
  next
    case 2
    then show ?thesis unfolding Op_Add_def using assms InlineConstant
      by (intro computes_tail32) (auto simp: step_addi scast_imm16)
  next
    case 3
    have "\<exists>s'. run step (LoadConstant cfg TMP4 c @ [add Dst S1 TMP4]) s = Some s' \<and> keeps (insert Dst scratch) s s' \<and>
        gpr s' Dst = gpr s S1 + c"
      using assms by (simp add: run_append run_LoadConstant step_add)
    from run_add_wide_imm [OF assms(1,2,4) this] obtain s' where
      "run step (add_wide_imm Size Dst S1 c (LoadConstant cfg TMP4 c @ [add Dst S1 TMP4])) s = Some s'" "keeps (insert Dst scratch) s s'"
      "if Size = i32Bit then (ucast (gpr s' Dst) :: u32) = ucast (gpr s S1 + c) else gpr s' Dst = gpr s S1 + c" .
    then show ?thesis unfolding Op_Add_def using assms 3 InlineConstant by (intro computes_tail32) auto
  qed
qed

lemma computes_Sub:
  assumes "guest_reg Dst" "guest_operand Src1" "guest_operand Src2" "gpr_size Size"
    and "\<not> (\<exists>c d. Src1 = InlineConstant c \<and> Src2 = InlineConstant d)"
  shows "computes step (Op_Sub cfg Size Elided None Dst Src1 Src2) s Dst
    (\<lambda>v. result_is Size Elided v (value_of s Src1 - value_of s Src2))"
proof (cases Src1)
  case (InlineConstant c)
  then obtain S2 where "Src2 = Reg S2" using assms(5) by (cases Src2) auto
  then show ?thesis unfolding Op_Sub_def using assms InlineConstant
    by (intro computes_tail32) (auto simp: run_append run_LoadConstant step_subf)
next
  case S1: (Reg S1)
  show ?thesis
  proof (cases Src2)
    case (Reg S2)
    then show ?thesis unfolding Op_Sub_def using assms S1 by (intro computes_tail32) (auto simp: step_subf)
  next
    case (InlineConstant c)
    have neg: "NOT x + 1 = - x" for x :: u64 by (simp add: minus_eq_not_plus_1)
    show ?thesis
    proof (cases "- 32768 \<le> sint (- c) \<and> sint (- c) \<le> 32767")
      case True
      then show ?thesis unfolding Op_Sub_def neg using assms S1 InlineConstant
        by (intro computes_tail32) (auto simp: step_addi scast_imm16 Let_def)
    next
      case False
      have "\<exists>s'. run step (LoadConstant cfg TMP4 c @ [subf Dst TMP4 S1]) s = Some s' \<and> keeps (insert Dst scratch) s s' \<and>
          gpr s' Dst = gpr s S1 + - c"
        using assms S1 by (simp add: run_append run_LoadConstant step_subf)
      from run_add_wide_imm [OF assms(1) _ assms(4) this] S1 assms(2) obtain s' where
        "run step (add_wide_imm Size Dst S1 (- c) (LoadConstant cfg TMP4 c @ [subf Dst TMP4 S1])) s = Some s'"
        "keeps (insert Dst scratch) s s'"
        "if Size = i32Bit then (ucast (gpr s' Dst) :: u32) = ucast (gpr s S1 + - c) else gpr s' Dst = gpr s S1 + - c" by auto
      then show ?thesis unfolding Op_Sub_def neg using assms False S1 InlineConstant by (intro computes_tail32) (auto simp: Let_def)
    qed
  qed
qed

lemma uint_less_ucast:
  "uint (k :: u16) < uint (x :: u64) \<longleftrightarrow> ucast k < x" "uint k < uint (y :: u32) \<longleftrightarrow> ucast k < y"
  by (simp_all add: word_less_def uint_up_ucast is_up)

lemma run_Sub_spin_collapse:
  fixes s :: PPC
  assumes "guest_reg Dst" "guest_reg S1" "gpr_size Size" "unat K \<le> 1024"
  defines "w \<equiv> (if Size = i32Bit then if (ucast K :: u32) < ucast (gpr s S1) then gpr s S1 - ucast K else 0
    else if ucast K < gpr s S1 then gpr s S1 - ucast K else 0)"
  shows "\<exists>s'. run step (Op_Sub cfg Size Elided (Some K) Dst (Reg S1) Src2) s = Some s' \<and>
    (\<forall>r. r \<notin> insert Dst scratch \<longrightarrow> gpr s' r = gpr s r) \<and> (\<forall>n < 28. cr s' n = cr s n) \<and>
    ca s' = ca s \<and> ov s' = ov s \<and> so s' = so s \<and> xer s' = xer s \<and> mem s' = mem s \<and> result_is Size Elided (gpr s' Dst) w"
proof -
  have p15: "(2 :: int) ^ 15 = 32768" by simp
  have negK: "(scast (- K) :: u64) = - ucast K"
  proof -
    have "sint (- K) = - int (unat K)"
    proof -
      have "- K = word_of_int (- int (unat K))" by simp
      then have "sint (- K) = signed_take_bit 15 (- int (unat K))"
        by (simp only: sint_uint unsigned_of_int) (simp add: signed_take_bit_take_bit)
      also have "\<dots> = - int (unat K)"
        using signed_take_bit_int_eq_self [of 15 "- int (unat K)"] assms(4) by (simp only: p15)
      finally show ?thesis .
    qed
    then have "(word_of_int (sint (- K)) :: u64) = - word_of_int (int (unat K))" by simp
    then show ?thesis by simp
  qed
  define s1 where "s1 = (if Size = i32Bit then compare_signed 7 (uint (ucast (gpr s S1) :: u32)) (uint K) s
    else compare_signed 7 (uint (gpr s S1)) (uint K) s)"
  have g: "gpr s1 = gpr s" by (simp add: s1_def compare_signed_def set_crf_def)
  have c29: "cr s1 29 \<longleftrightarrow> (if Size = i32Bit then (ucast K :: u32) < ucast (gpr s S1) else ucast K < gpr s S1)"
    by (simp add: s1_def compare_signed_def set_crf_def uint_less_ucast)
  have "exec step (if Size = i32Bit then cmplwi 7 S1 K else cmpldi 7 S1 K) s = Some s1"
    by (simp add: s1_def step_cmplwi step_cmpldi)
  then have "run step (Op_Sub cfg Size Elided (Some K) Dst (Reg S1) Src2) s =
    run step (tail32 Size Elided Dst) (setr Dst w (setr TMP2 0 (setr TMP1 (gpr s S1 - ucast K) s1)))"
    using assms(1-3) by (simp add: Op_Sub_def step_addi step_li step_isel g c29 negK w_def)
  moreover have "(\<forall>n < 28. cr s1 n = cr s n) \<and> ca s1 = ca s \<and> ov s1 = ov s \<and> so s1 = so s \<and> xer s1 = xer s \<and> mem s1 = mem s"
    by (simp add: s1_def compare_signed_def set_crf_def)
  ultimately show ?thesis
    using assms(1,3) by (auto simp: tail32_def Mask32Tail_def step_zext32 result_is_def g gpr_size_def)
qed

lemma computes_Not:
  assumes "guest_reg Dst" "guest_reg Src" "gpr_size Size"
  shows "computes step (Op_Not Size Elided Dst Src) s Dst (\<lambda>v. result_is Size Elided v (NOT (gpr s Src)))"
  unfolding Op_Not_def using assms by (intro computes_tail32) (auto simp: not_r_def step_nor)

lemma low32_mullw: "(ucast (word_of_int (sint (a :: u32) * sint (b :: u32)) :: u64) :: u32) = a * b"
  by (simp add: low32_ring)

lemma step_mul_word:
  assumes "gpr_size Size"
  shows "\<exists>v. exec step (mul_word Size rt ra rb) s = Some (setr rt v s) \<and>
    (if Size = i32Bit then (ucast v :: u32) = ucast (gpr s ra * gpr s rb) else v = gpr s ra * gpr s rb)"
  using assms by (auto simp: mul_word_def size_le_32_def step_mullw step_mulld gpr_size_def low32_mullw low32_ring simp del: of_int_mult)

lemma computes_UMul:
  assumes "guest_reg Dst" "guest_reg S1" "guest_reg S2" "gpr_size Size"
  shows "computes step (Op_UMul Size Elided Dst S1 S2) s Dst (\<lambda>v. result_is Size Elided v (gpr s S1 * gpr s S2))"
proof -
  obtain v where "exec step (mul_word Size Dst S1 S2) s = Some (setr Dst v s)"
    "if Size = i32Bit then (ucast v :: u32) = ucast (gpr s S1 * gpr s S2) else v = gpr s S1 * gpr s S2"
    using step_mul_word [OF assms(4)] by blast
  then show ?thesis unfolding Op_UMul_def using assms by (intro computes_tail32) auto
qed

lemma computes_Mul:
  assumes "guest_reg Dst" "guest_reg S1" "guest_operand Src2" "gpr_size Size"
  shows "computes step (Op_Mul cfg Size Elided Dst S1 Src2) s Dst (\<lambda>v. result_is Size Elided v (gpr s S1 * value_of s Src2))"
proof (cases Src2)
  case (Reg S2)
  then show ?thesis using computes_UMul [of Dst S1 S2 Size Elided s] assms by (simp add: Op_Mul_def Op_UMul_def)
next
  case (InlineConstant c)
  show ?thesis
  proof (cases "- 32768 \<le> sint c \<and> sint c \<le> 32767")
    case True
    then show ?thesis unfolding Op_Mul_def using assms InlineConstant
      by (intro computes_tail32) (auto simp: step_mulli scast_imm16)
  next
    case False
    obtain v where "exec step (mul_word Size Dst S1 TMP4) (setr TMP4 c s) = Some (setr Dst v (setr TMP4 c s))"
      "if Size = i32Bit then (ucast v :: u32) = ucast (gpr s S1 * c) else v = gpr s S1 * c"
      using step_mul_word [OF assms(4), of Dst S1 TMP4 "setr TMP4 c s"] assms(2) by auto
    then show ?thesis unfolding Op_Mul_def using assms InlineConstant False
      by (intro computes_tail32) (auto simp: run_append run_LoadConstant)
  qed
qed

lemma computes_UMull:
  assumes "guest_reg Dst" "guest_reg S1" "guest_reg S2"
  shows "computes step (Op_UMull Dst S1 S2) s Dst
    (\<lambda>v. v = word_of_int (uint (ucast (gpr s S1) :: u32) * uint (ucast (gpr s S2) :: u32)))"
  using assms by (intro computesI [where s' = "setr Dst _ (setr TMP2 _ (setr TMP1 _ s))"])
    (auto simp: Op_UMull_def step_zext32 step_mulld)

lemma computes_SMull:
  assumes "guest_reg Dst" "guest_reg S1" "guest_reg S2"
  shows "computes step (Op_SMull Dst S1 S2) s Dst
    (\<lambda>v. v = word_of_int (sint (ucast (gpr s S1) :: u32) * sint (ucast (gpr s S2) :: u32)))"
  using assms by (intro computesI [where s' = "setr Dst _ (setr TMP2 _ (setr TMP1 _ s))"])
    (auto simp: Op_SMull_def step_extsw step_mulld)

lemma computes_MulH:
  assumes "guest_reg Dst" "guest_reg S1" "guest_reg S2" "gpr_size Size"
  shows "computes step (Op_MulH Size Dst S1 S2) s Dst
    (\<lambda>v. v = (if Size = i32Bit then ucast (word_of_int (sint (ucast (gpr s S1) :: u32) * sint (ucast (gpr s S2) :: u32) div 2 ^ 32) :: u32)
      else word_of_int (sint (gpr s S1) * sint (gpr s S2) div 2 ^ 64)))"
proof (cases "Size = i32Bit")
  case True
  obtain v where "exec step (mulhw Dst S1 S2) s = Some (setr Dst v s)"
    "(ucast v :: u32) = word_of_int (sint (ucast (gpr s S1) :: u32) * sint (ucast (gpr s S2) :: u32) div 2 ^ 32)"
    using step_mulhw by blast
  then show ?thesis using True by (auto simp: Op_MulH_def computes_def step_zext32)
next
  case False
  then show ?thesis using assms by (auto simp: Op_MulH_def computes_def step_mulhd gpr_size_def)
qed

lemma computes_UMulH:
  assumes "guest_reg Dst" "guest_reg S1" "guest_reg S2" "gpr_size Size"
  shows "computes step (Op_UMulH Size Dst S1 S2) s Dst
    (\<lambda>v. v = (if Size = i32Bit then ucast (word_of_int (uint (ucast (gpr s S1) :: u32) * uint (ucast (gpr s S2) :: u32) div 2 ^ 32) :: u32)
      else word_of_int (uint (gpr s S1) * uint (gpr s S2) div 2 ^ 64)))"
proof (cases "Size = i32Bit")
  case True
  obtain v where "exec step (mulhwu Dst S1 S2) s = Some (setr Dst v s)"
    "(ucast v :: u32) = word_of_int (uint (ucast (gpr s S1) :: u32) * uint (ucast (gpr s S2) :: u32) div 2 ^ 32)"
    using step_mulhwu by blast
  then show ?thesis using True by (auto simp: Op_UMulH_def computes_def step_zext32)
next
  case False
  then show ?thesis using assms by (auto simp: Op_UMulH_def computes_def step_mulhdu gpr_size_def)
qed

lemma computes_AddShift:
  assumes "guest_reg Dst" "guest_reg S1" "guest_reg S2" "gpr_size Size" "unat ShiftAmount < 64"
  shows "computes step (Op_AddShift Size Elided Dst S1 S2 ShiftAmount) s Dst
    (\<lambda>v. result_is Size Elided v (gpr s S1 + (if ShiftAmount = 0 then scast (ucast (gpr s S2) :: u8) else push_bit (unat ShiftAmount) (gpr s S2))))"
proof -
  have "unat (ucast ShiftAmount :: u32) = unat ShiftAmount" using unat_less_exp [of ShiftAmount] by (simp add: unat_ucast_mod)
  then have "run step [if ShiftAmount = 0 then extsb TMP4 S2 else sldi TMP4 S2 (ucast ShiftAmount), add Dst S1 TMP4] s =
    Some (setr Dst (gpr s S1 + (if ShiftAmount = 0 then scast (ucast (gpr s S2) :: u8) else push_bit (unat ShiftAmount) (gpr s S2)))
      (setr TMP4 (if ShiftAmount = 0 then scast (ucast (gpr s S2) :: u8) else push_bit (unat ShiftAmount) (gpr s S2)) s))"
    using assms by (simp add: step_extsb step_sldi_u32 step_add)
  from computes_tail32 [OF this _ assms(4)] show ?thesis by (simp add: Op_AddShift_def)
qed

lemma computes_SubShift:
  assumes "guest_reg Dst" "guest_reg S1" "guest_reg S2" "gpr_size Size" "unat ShiftAmount < 64"
  shows "computes step (Op_SubShift Size Elided Dst S1 S2 ShiftAmount) s Dst
    (\<lambda>v. result_is Size Elided v (gpr s S1 - push_bit (unat ShiftAmount) (gpr s S2)))"
proof -
  have "unat (ucast ShiftAmount :: u32) = unat ShiftAmount" using unat_less_exp [of ShiftAmount] by (simp add: unat_ucast_mod)
  then show ?thesis unfolding Op_SubShift_def using assms by (intro computes_tail32) (auto simp: step_sldi_u32 step_subf)
qed

lemma computes_Copy: "guest_reg Dst \<Longrightarrow> computes step (Op_Copy Dst Src) s Dst (\<lambda>v. v = gpr s Src)"
  by (simp add: computes_def Op_Copy_def run_mr_unless_same)

end

subsection \<open>The generated code\<close>

text \<open>C18: The code \<open>DEF_OP(Add)\<close> emits, for a register or for any 64-bit inline constant (one addi, one addis, an addis/addi pair or
  a materialised constant), runs to completion, leaves the sum in the destination (the low word, zero-extended unless its tail mask was
  elided, at 32 bits) and changes no other register but TMP1 to TMP4, no flag and no memory.\<close>
theorem Op_Add_correct:
  assumes "guest_reg Dst" "guest_reg S1" "guest_operand Src2" "gpr_size Size"
  shows "computes isa_step (Op_Add cfg Size Elided Dst S1 Src2) s Dst (\<lambda>v. result_is Size Elided v (gpr s S1 + value_of s Src2))"
  by (rule ppc.computes_Add [OF assms])

theorem Op_Add_correct_witness:
  "computes isa_step (Op_Add default_config i32Bit False 8 7 (InlineConstant 0x12345678)) (machine_at [(7, 0xFFFFFFFF)]) 8 (\<lambda>v. v = 0x12345677)"
  using Op_Add_correct [of 8 7 "InlineConstant 0x12345678" i32Bit default_config False "machine_at [(7, 0xFFFFFFFF)]"]
  by (auto simp: decide_operation computes_def)

text \<open>C19: The code \<open>DEF_OP(Sub)\<close> emits for any pair of operands of which at most one is an inline constant leaves their difference
  in the destination, with the same frame.\<close>
theorem Op_Sub_correct:
  assumes "guest_reg Dst" "guest_operand Src1" "guest_operand Src2" "gpr_size Size"
    and "\<not> (\<exists>c d. Src1 = InlineConstant c \<and> Src2 = InlineConstant d)"
  shows "computes isa_step (Op_Sub cfg Size Elided None Dst Src1 Src2) s Dst
    (\<lambda>v. result_is Size Elided v (value_of s Src1 - value_of s Src2))"
  by (rule ppc.computes_Sub [OF assms])

theorem Op_Sub_correct_witness:
  "computes isa_step (Op_Sub default_config i64Bit False None 8 (InlineConstant 5) (Reg 7)) (machine_at [(7, 6)]) 8 (\<lambda>v. v = - 1)"
  using Op_Sub_correct [of 8 "InlineConstant 5" "Reg 7" i64Bit default_config False "machine_at [(7, 6)]"]
  by (simp add: decide_operation computes_def)

lemma wide_product: "uint (word_of_int (uint a * uint b div 2 ^ 64) :: u64) * 2 ^ 64 + uint (a * b) = uint a * uint (b :: u64)"
proof -
  have "uint a * uint b < 2 ^ 64 * 2 ^ 64"
    using uint_bounded [of a] uint_bounded [of b] by (intro mult_strict_mono) simp_all
  then have "uint a * uint b div 2 ^ 64 < 2 ^ 64" by (simp add: div_less_iff_less_mult)
  then have "uint (word_of_int (uint a * uint b div 2 ^ 64) :: u64) = uint a * uint b div 2 ^ 64"
    by (simp add: uint_word_of_int_eq take_bit_int_eq_self_iff pos_imp_zdiv_nonneg_iff)
  moreover have "uint (a * b) = uint a * uint b mod 2 ^ 64" by (simp add: uint_word_arith_bintrs(3) take_bit_eq_mod)
  ultimately show ?thesis using div_mult_mod_eq [of "uint a * uint b" "2 ^ 64"] by simp
qed

text \<open>C20: The two operations a 64-bit x86 \<open>MUL\<close> becomes, \<open>DEF_OP(UMul)\<close> into one register and \<open>DEF_OP(UMulH)\<close> into another, run
  one after the other, leave the full 128-bit product of the sources in the pair.\<close>
theorem UMul_UMulH_product:
  assumes "guest_reg Lo" "guest_reg Hi" "guest_reg S1" "guest_reg S2" "Lo \<noteq> Hi" "Lo \<noteq> S1" "Lo \<noteq> S2"
  shows "\<exists>s'. run isa_step (Op_UMul i64Bit False Lo S1 S2 @ Op_UMulH i64Bit Hi S1 S2) s = Some s' \<and>
    uint (gpr s' Hi) * 2 ^ 64 + uint (gpr s' Lo) = uint (gpr s S1) * uint (gpr s S2) \<and> keeps ({Lo, Hi} \<union> scratch) s s'"
proof -
  have size: "gpr_size i64Bit" by (simp add: gpr_size_def)
  obtain t where t: "run isa_step (Op_UMul i64Bit False Lo S1 S2) s = Some t" "keeps (insert Lo scratch) s t" "gpr t Lo = gpr s S1 * gpr s S2"
    using ppc.computes_UMul [OF assms(1,3,4) size, of False s] by (auto simp: computes_def result_is_def)
  obtain u where u: "run isa_step (Op_UMulH i64Bit Hi S1 S2) t = Some u" "keeps (insert Hi scratch) t u"
    "gpr u Hi = word_of_int (uint (gpr t S1) * uint (gpr t S2) div 2 ^ 64)"
    using ppc.computes_UMulH [OF assms(2,3,4) size, of t] by (auto simp: computes_def)
  have "gpr t S1 = gpr s S1" "gpr t S2 = gpr s S2" "gpr u Lo = gpr t Lo"
    using t(2) u(2) assms by (auto simp: keeps_def scratch_def)
  then have "uint (gpr u Hi) * 2 ^ 64 + uint (gpr u Lo) = uint (gpr s S1) * uint (gpr s S2)"
    unfolding u(3) t(3) by (simp only: wide_product t(3))
  moreover have "keeps ({Lo, Hi} \<union> scratch) s u" using t(2) u(2) by (auto simp: keeps_def)
  ultimately show ?thesis using t(1) u(1) by (auto simp: run_append)
qed

theorem UMul_UMulH_product_witness:
  "\<exists>s'. run isa_step (Op_UMul i64Bit False 7 9 10 @ Op_UMulH i64Bit 8 9 10) (machine_at [(9, 2 ^ 63), (10, 6)]) = Some s' \<and>
    uint (gpr s' 8) * 2 ^ 64 + uint (gpr s' 7) = 6 * 2 ^ 63"
  using UMul_UMulH_product [of 7 8 9 10 "machine_at [(9, 2 ^ 63), (10, 6)]"] by (auto simp: decide_operation)

end
