(* ===== verification/Alu_Logic.thy ===== *)
theory Alu_Logic
  imports Alu_Base
begin

text \<open>
  Bitwise operations of \<open>JIT/PPC64LE/ALUOps.cpp\<close>: or, and, xor and and-not with their immediate forms, and the
  variants that shift or rotate the second operand first.  The and-forms insert zeros from \<open>r0\<close>, the register
  the dispatcher pins to zero; lemmas about them assume that it holds zero, and no operation writes it.
\<close>

subsection \<open>Handlers\<close>

definition Op_Or :: "Config \<Rightarrow> OpSize \<Rightarrow> bool \<Rightarrow> GPR \<Rightarrow> GPR \<Rightarrow> operand \<Rightarrow> insn list" where
  "Op_Or cfg Size Elided Dst S1 Src2 =
     (case Src2 of
        InlineConstant Const \<Rightarrow>
          if Const = 0 then mr_unless_same Dst S1
          else if Const AND 0xFFFF = Const then [ori Dst S1 (ucast Const)]
          else if Const AND 0xFFFF0000 = Const then [oris Dst S1 (ucast (drop_bit 16 Const))]
          else if LogicalImmEnabled cfg \<and> Const \<le> 0xFFFFFFFF then
            [oris Dst S1 (ucast (drop_bit 16 Const)), ori Dst Dst (ucast (Const AND 0xFFFF))]
          else LoadConstant cfg TMP4 Const @ [or_r Dst S1 TMP4]
      | Reg S2 \<Rightarrow> [or_r Dst S1 S2]) @ tail32 Size Elided Dst"

definition and_constant :: "Config \<Rightarrow> OpSize \<Rightarrow> GPR \<Rightarrow> GPR \<Rightarrow> u64 \<Rightarrow> insn list" where
  "and_constant cfg Size Dst S1 Mask =
     (case EmitAndMask (LogicalImmEnabled cfg) Dst S1 Mask (Size = i32Bit) of
        Some is \<Rightarrow> is
      | None \<Rightarrow> LoadConstant cfg TMP4 Mask @ [and_r Dst S1 TMP4])"

definition Op_And :: "Config \<Rightarrow> OpSize \<Rightarrow> bool \<Rightarrow> GPR \<Rightarrow> GPR \<Rightarrow> operand \<Rightarrow> insn list" where
  "Op_And cfg Size Elided Dst S1 Src2 =
     (case Src2 of
        InlineConstant Const \<Rightarrow> and_constant cfg Size Dst S1 Const
      | Reg S2 \<Rightarrow> [and_r Dst S1 S2]) @ tail32 Size Elided Dst"

definition Op_Xor :: "Config \<Rightarrow> OpSize \<Rightarrow> bool \<Rightarrow> GPR \<Rightarrow> GPR \<Rightarrow> operand \<Rightarrow> insn list" where
  "Op_Xor cfg Size Elided Dst S1 Src2 =
     (case Src2 of
        InlineConstant Const \<Rightarrow>
          if Const AND 0xFFFF = Const then [xori Dst S1 (ucast Const)]
          else if Const AND 0xFFFF0000 = Const then [xoris Dst S1 (ucast (drop_bit 16 Const))]
          else if LogicalImmEnabled cfg \<and> Const \<le> 0xFFFFFFFF then
            [xoris Dst S1 (ucast (drop_bit 16 Const)), xori Dst Dst (ucast (Const AND 0xFFFF))]
          else LoadConstant cfg TMP4 Const @ [xor_r Dst S1 TMP4]
      | Reg S2 \<Rightarrow> [xor_r Dst S1 S2]) @ tail32 Size Elided Dst"

definition Op_Andn :: "Config \<Rightarrow> OpSize \<Rightarrow> bool \<Rightarrow> GPR \<Rightarrow> GPR \<Rightarrow> operand \<Rightarrow> insn list" where
  "Op_Andn cfg Size Elided Dst S1 Src2 =
     (case Src2 of
        InlineConstant Const \<Rightarrow> and_constant cfg Size Dst S1 (NOT Const)
      | Reg S2 \<Rightarrow> [andc Dst S1 S2]) @ tail32 Size Elided Dst"

definition Op_Orlshl :: "OpSize \<Rightarrow> bool \<Rightarrow> GPR \<Rightarrow> GPR \<Rightarrow> GPR \<Rightarrow> u8 \<Rightarrow> insn list" where
  "Op_Orlshl Size Elided Dst S1 S2 BitShift =
     [sldi TMP4 S2 (ucast BitShift), or_r Dst S1 TMP4] @ tail32 Size Elided Dst"

definition Op_Orlshr :: "OpSize \<Rightarrow> bool \<Rightarrow> GPR \<Rightarrow> GPR \<Rightarrow> GPR \<Rightarrow> u8 \<Rightarrow> insn list" where
  "Op_Orlshr Size Elided Dst S1 S2 BitShift =
     (if Size = i32Bit then
        let sh = ucast BitShift AND 31 in [rlwinm TMP4 S2 ((32 - sh) AND 31) sh 31, or_r Dst S1 TMP4]
      else [srdi TMP4 S2 (ucast BitShift), or_r Dst S1 TMP4]) @ tail32 Size Elided Dst"

definition Op_Ornror :: "OpSize \<Rightarrow> bool \<Rightarrow> GPR \<Rightarrow> GPR \<Rightarrow> GPR \<Rightarrow> u8 \<Rightarrow> insn list" where
  "Op_Ornror Size Elided Dst S1 S2 BitShift =
     (if Size = i32Bit then
        let sh = (32 - (ucast BitShift AND 31)) AND 31 in [rlwinm TMP4 S2 sh 0 31, orc Dst S1 TMP4]
      else let sh = (64 - ucast BitShift) AND 63 in [rldicl TMP4 S2 sh 0, orc Dst S1 TMP4]) @ tail32 Size Elided Dst"

datatype ShiftType = LSL | LSR | ASR | ROR

definition shift_operand :: "OpSize \<Rightarrow> ShiftType \<Rightarrow> GPR \<Rightarrow> u8 \<Rightarrow> insn list" where
  "shift_operand Size Shift S2 ShiftAmount =
     (let Amt = (ucast ShiftAmount :: u32); Is32 = (Size = i32Bit) in
      if Amt = 0 then [mr TMP4 S2]
      else case Shift of
        LSL \<Rightarrow> if Is32 then [rlwinm TMP4 S2 (Amt AND 31) 0 (31 - (Amt AND 31))] else [sldi TMP4 S2 Amt]
      | LSR \<Rightarrow> if Is32 then [rlwinm TMP4 S2 ((32 - (Amt AND 31)) AND 31) (Amt AND 31) 31] else [srdi TMP4 S2 Amt]
      | ASR \<Rightarrow>
          if Is32 then let sh = Amt AND 31 in [extsw TMP4 S2, rldicl TMP4 TMP4 (64 - sh) sh]
          else
            let sh = Amt AND 63 in
            [rldicl TMP1 S2 1 63, neg TMP1 TMP1, srdi TMP4 S2 sh] @
            (if sh < 64 then [sldi TMP1 TMP1 (64 - sh), or_r TMP4 TMP4 TMP1] else [mr TMP4 TMP1])
      | ROR \<Rightarrow> if Is32 then [rlwinm TMP4 S2 ((32 - (Amt AND 31)) AND 31) 0 31] else [rldicl TMP4 S2 ((64 - Amt) AND 63) 0])"

definition Op_XorShift :: "OpSize \<Rightarrow> bool \<Rightarrow> GPR \<Rightarrow> GPR \<Rightarrow> GPR \<Rightarrow> ShiftType \<Rightarrow> u8 \<Rightarrow> insn list" where
  "Op_XorShift Size Elided Dst S1 S2 Shift ShiftAmount =
     (shift_operand Size Shift S2 ShiftAmount @ [xor_r Dst S1 TMP4]) @ tail32 Size Elided Dst"

definition Op_XornShift :: "OpSize \<Rightarrow> bool \<Rightarrow> GPR \<Rightarrow> GPR \<Rightarrow> GPR \<Rightarrow> ShiftType \<Rightarrow> u8 \<Rightarrow> insn list" where
  "Op_XornShift Size Elided Dst S1 S2 Shift ShiftAmount =
     (shift_operand Size Shift S2 ShiftAmount @ [not_r TMP4 TMP4, xor_r Dst S1 TMP4]) @ tail32 Size Elided Dst"

definition Op_AndShift :: "OpSize \<Rightarrow> bool \<Rightarrow> GPR \<Rightarrow> GPR \<Rightarrow> GPR \<Rightarrow> ShiftType \<Rightarrow> u8 \<Rightarrow> insn list" where
  "Op_AndShift Size Elided Dst S1 S2 Shift ShiftAmount =
     (shift_operand Size Shift S2 ShiftAmount @ [and_r Dst S1 TMP4]) @ tail32 Size Elided Dst"

subsection \<open>Halves of a constant\<close>

lemma low_half:
  assumes "C AND 0xFFFF = (C :: u64)"
  shows "ucast (ucast C :: u16) = C"
proof -
  have "ucast (ucast C :: u16) = C AND mask 16"
    by (rule bit_word_eqI) (auto simp: bit_and_iff bit_mask_iff bit_unsigned_iff)
  then show ?thesis using assms by (simp add: mask_eq_exp_minus_1)
qed

lemma high_half:
  assumes "C AND 0xFFFF0000 = (C :: u64)"
  shows "push_bit 16 (ucast (ucast (drop_bit 16 C) :: u16)) = C"
proof -
  have m: "(0xFFFF0000 :: u64) = push_bit 16 (mask 16)" by (simp add: mask_eq_exp_minus_1)
  have "push_bit 16 (ucast (ucast (drop_bit 16 C) :: u16)) = C AND push_bit 16 (mask 16)"
    by (rule bit_word_eqI) (auto simp: bit_and_iff bit_mask_iff bit_unsigned_iff bit_push_bit_iff bit_drop_bit_eq simp del: push_bit_mask_eq)
  then show ?thesis using assms unfolding m by simp
qed

lemma both_halves:
  assumes "C \<le> (0xFFFFFFFF :: u64)"
  shows "push_bit 16 (ucast (ucast (drop_bit 16 C) :: u16)) OR ucast (ucast (C AND 0xFFFF) :: u16) = C"
    and "push_bit 16 (ucast (ucast (drop_bit 16 C) :: u16)) XOR ucast (ucast (C AND 0xFFFF) :: u16) = C"
proof -
  have m: "(0xFFFF :: u64) = mask 16" by (simp add: mask_eq_exp_minus_1)
  have "unat C < 2 ^ 32" using assms by (simp add: word_le_nat_alt)
  then have small: "bit C n \<Longrightarrow> n < 32" for n by (rule bit_less_exp)
  note bits = bit_or_iff bit_xor_iff bit_and_iff bit_push_bit_iff bit_unsigned_iff bit_drop_bit_eq bit_mask_iff
  show "push_bit 16 (ucast (ucast (drop_bit 16 C) :: u16)) OR ucast (ucast (C AND 0xFFFF) :: u16) = C"
    unfolding m using small by (intro bit_word_eqI) (fastforce simp: bits)
  show "push_bit 16 (ucast (ucast (drop_bit 16 C) :: u16)) XOR ucast (ucast (C AND 0xFFFF) :: u16) = C"
    unfolding m using small by (intro bit_word_eqI) (fastforce simp: bits)
qed

subsection \<open>Shifted operands\<close>

definition do_shift :: "ShiftType \<Rightarrow> nat \<Rightarrow> 'a::len word \<Rightarrow> 'a word" where
  "do_shift Shift n x =
     (case Shift of LSL \<Rightarrow> push_bit n x | LSR \<Rightarrow> drop_bit n x | ASR \<Rightarrow> signed_drop_bit n x | ROR \<Rightarrow> word_rotr n x)"

definition shifted :: "OpSize \<Rightarrow> ShiftType \<Rightarrow> nat \<Rightarrow> u64 \<Rightarrow> u64" where
  "shifted Size Shift n x = (if Size = i32Bit then ucast (do_shift Shift n (ucast x :: u32)) else do_shift Shift n x)"

lemma do_shift_0: "do_shift Shift 0 x = x"
  by (rule bit_word_eqI, cases Shift) (auto simp: do_shift_def bit_signed_drop_bit_iff bit_word_rotr_iff)

lemma low32_signed_shift:
  assumes "n < 32"
  shows "(ucast (drop_bit n (scast (ucast (x :: u64) :: u32) :: u64)) :: u32) = signed_drop_bit n (ucast x)"
  using assms by (intro bit_word_eqI)
    (auto simp: bit_unsigned_iff bit_drop_bit_eq bit_signed_iff bit_signed_drop_bit_iff min_def not_le le_less)

lemma sign_fill:
  assumes "n < 64"
  shows "drop_bit n x OR push_bit (64 - n) (- (word_rotl 1 x AND mask64 63 63)) = signed_drop_bit n (x :: u64)"
proof -
  have "word_rotl 1 x AND mask64 63 63 = of_bool (bit x 63)"
    by (rule bit_word_eqI, rename_tac i, case_tac "i = 0") (auto simp: bit_and_iff bit_word_rotl_iff bit_mask64 bit_1_iff)
  then have "- (word_rotl 1 x AND mask64 63 63) = (if bit x 63 then - 1 else 0)" by simp
  then show ?thesis using assms by (intro bit_word_eqI)
    (auto simp: bit_or_iff bit_drop_bit_eq bit_push_bit_iff bit_signed_drop_bit_iff dest: bit_imp_le_length)
qed

subsection \<open>Correctness\<close>

context ppc_isa
begin

lemma computes_Or:
  assumes "guest_reg Dst" "guest_reg S1" "guest_operand Src2" "gpr_size Size"
  shows "computes step (Op_Or cfg Size Elided Dst S1 Src2) s Dst (\<lambda>v. result_is Size Elided v (gpr s S1 OR value_of s Src2))"
proof (cases Src2)
  case (Reg S2)
  then show ?thesis unfolding Op_Or_def using assms by (intro computes_tail32) (auto simp: step_or)
next
  case (InlineConstant C)
  consider "C = 0" | "C \<noteq> 0" "C AND 0xFFFF = C" | "C \<noteq> 0" "C AND 0xFFFF \<noteq> C" "C AND 0xFFFF0000 = C"
    | "C \<noteq> 0" "C AND 0xFFFF \<noteq> C" "C AND 0xFFFF0000 \<noteq> C" "LogicalImmEnabled cfg \<and> C \<le> 0xFFFFFFFF"
    | "C \<noteq> 0" "C AND 0xFFFF \<noteq> C" "C AND 0xFFFF0000 \<noteq> C" "\<not> (LogicalImmEnabled cfg \<and> C \<le> 0xFFFFFFFF)"
    by blast
  then show ?thesis
  proof cases
    case 1
    then show ?thesis unfolding Op_Or_def using assms InlineConstant
      by (intro computes_tail32) (auto simp: run_mr_unless_same)
  next
    case 2
    then show ?thesis unfolding Op_Or_def using assms InlineConstant
      by (intro computes_tail32) (auto simp: step_ori low_half)
  next
    case 3
    then show ?thesis unfolding Op_Or_def using assms InlineConstant
      by (intro computes_tail32) (auto simp: step_oris high_half)
  next
    case 4
    then show ?thesis unfolding Op_Or_def using assms InlineConstant
      by (intro computes_tail32) (auto simp: step_oris step_ori or.assoc both_halves)
  next
    case 5
    then show ?thesis unfolding Op_Or_def using assms InlineConstant
      by (intro computes_tail32) (auto simp: run_append run_LoadConstant step_or)
  qed
qed

lemma computes_Xor:
  assumes "guest_reg Dst" "guest_reg S1" "guest_operand Src2" "gpr_size Size"
  shows "computes step (Op_Xor cfg Size Elided Dst S1 Src2) s Dst (\<lambda>v. result_is Size Elided v (gpr s S1 XOR value_of s Src2))"
proof (cases Src2)
  case (Reg S2)
  then show ?thesis unfolding Op_Xor_def using assms by (intro computes_tail32) (auto simp: step_xor)
next
  case (InlineConstant C)
  consider "C AND 0xFFFF = C" | "C AND 0xFFFF \<noteq> C" "C AND 0xFFFF0000 = C"
    | "C AND 0xFFFF \<noteq> C" "C AND 0xFFFF0000 \<noteq> C" "LogicalImmEnabled cfg \<and> C \<le> 0xFFFFFFFF"
    | "C AND 0xFFFF \<noteq> C" "C AND 0xFFFF0000 \<noteq> C" "\<not> (LogicalImmEnabled cfg \<and> C \<le> 0xFFFFFFFF)"
    by blast
  then show ?thesis
  proof cases
    case 1
    then show ?thesis unfolding Op_Xor_def using assms InlineConstant
      by (intro computes_tail32) (auto simp: step_xori low_half)
  next
    case 2
    then show ?thesis unfolding Op_Xor_def using assms InlineConstant
      by (intro computes_tail32) (auto simp: step_xoris high_half)
  next
    case 3
    then show ?thesis unfolding Op_Xor_def using assms InlineConstant
      by (intro computes_tail32) (auto simp: step_xoris step_xori xor.assoc both_halves)
  next
    case 4
    then show ?thesis unfolding Op_Xor_def using assms InlineConstant
      by (intro computes_tail32) (auto simp: run_append run_LoadConstant step_xor)
  qed
qed

lemma run_and_constant:
  assumes "guest_reg Dst" "guest_reg S1" "gpr s r0 = 0"
  shows "\<exists>s'. run step (and_constant cfg Size Dst S1 M) s = Some s' \<and> keeps (insert Dst scratch) s s' \<and>
    (if Size = i32Bit then (ucast (gpr s' Dst) :: u32) = ucast (gpr s S1 AND M) else gpr s' Dst = gpr s S1 AND M)"
proof (cases "EmitAndMask (LogicalImmEnabled cfg) Dst S1 M (Size = i32Bit)")
  case None
  then show ?thesis using assms by (auto simp: and_constant_def run_append run_LoadConstant step_and)
next
  case (Some a)
  then have "Kind (ClassifyAndMask M (Size = i32Bit)) \<noteq> None_Kind"
    by (auto simp: EmitAndMask_def Let_def split: if_splits)
  from ClassifyAndMask_applied [OF this, of "gpr s S1"] show ?thesis
    using Some run_EmitAndMask [OF Some assms(3)] assms(1) by (auto simp: and_constant_def low32_take_bit split: if_splits)
qed

lemma computes_And:
  assumes "guest_reg Dst" "guest_reg S1" "guest_operand Src2" "gpr_size Size" "gpr s r0 = 0"
  shows "computes step (Op_And cfg Size Elided Dst S1 Src2) s Dst (\<lambda>v. result_is Size Elided v (gpr s S1 AND value_of s Src2))"
proof (cases Src2)
  case (Reg S2)
  then show ?thesis unfolding Op_And_def using assms by (intro computes_tail32) (auto simp: step_and)
next
  case (InlineConstant C)
  then show ?thesis unfolding Op_And_def using run_and_constant [OF assms(1,2,5), of cfg Size C] assms(4)
    by (auto intro: computes_tail32)
qed

lemma computes_Andn:
  assumes "guest_reg Dst" "guest_reg S1" "guest_operand Src2" "gpr_size Size" "gpr s r0 = 0"
  shows "computes step (Op_Andn cfg Size Elided Dst S1 Src2) s Dst (\<lambda>v. result_is Size Elided v (gpr s S1 AND NOT (value_of s Src2)))"
proof (cases Src2)
  case (Reg S2)
  then show ?thesis unfolding Op_Andn_def using assms by (intro computes_tail32) (auto simp: step_andc)
next
  case (InlineConstant C)
  then show ?thesis unfolding Op_Andn_def using run_and_constant [OF assms(1,2,5), of cfg Size "NOT C"] assms(4)
    by (auto intro: computes_tail32)
qed

lemma run_shift_operand:
  assumes "guest_reg S2" "gpr_size Size" "unat Amt < size_bits Size"
  shows "\<exists>s'. run step (shift_operand Size Shift S2 Amt) s = Some s' \<and> keeps scratch s s' \<and>
    (if Size = i32Bit then (ucast (gpr s' TMP4) :: u32) = ucast (shifted Size Shift (unat Amt) (gpr s S2))
     else gpr s' TMP4 = shifted Size Shift (unat Amt) (gpr s S2))"
proof -
  define A where "A = (ucast Amt :: u32)"
  have A: "unat A = unat Amt" by (simp add: A_def unat_u8_u32)
  have len: "unat A < (if Size = i32Bit then 32 else 64)" using assms(3) by (simp add: A size_bits_def split: if_splits)
  show ?thesis
  proof (cases "A = 0")
    case True
    then have "unat Amt = 0" using A by simp
    then show ?thesis using True by (auto simp: shift_operand_def A_def [symmetric] step_mr shifted_def do_shift_0)
  next
    case False
    then have pos: "0 < unat A" by (simp add: unat_gt_0)
    show ?thesis
    proof (cases "Size = i32Bit")
      case True
      then have A32: "unat A < 32" "A AND 31 = A" using len by (simp_all add: word_unat_eq_iff u32_mod_32)
      then show ?thesis using True False pos
        by (cases Shift) (simp_all add: shift_operand_def A_def [symmetric] A [symmetric] shifted_def do_shift_def
            step_slwi step_srwi step_rotrwi step_extsw step_rldicl u32_sub rotl_mask_drop_pos low32_signed_shift)
    next
      case False': False
      then have A64: "unat A < 64" "A AND 63 = A" "A < 64" using len by (simp_all add: word_unat_eq_iff u32_mod_64 word_less_nat_alt)
      have d: "unat (64 - A) < 64" using pos A64 by (simp add: u32_sub)
      show ?thesis using False False' pos A64 d assms(1)
        by (cases Shift) (simp_all add: shift_operand_def A_def [symmetric] A [symmetric] shifted_def do_shift_def
            step_sldi_u32 step_srdi step_rotrdi step_rldicl [of TMP1] step_neg step_or u32_sub sign_fill [unfolded One_nat_def])
    qed
  qed
qed

lemma computes_shifted:
  assumes "guest_reg Dst" "guest_reg S1" "guest_reg S2" "gpr_size Size" "unat Amt < size_bits Size"
  shows "computes step (Op_XorShift Size Elided Dst S1 S2 Shift Amt) s Dst
      (\<lambda>v. result_is Size Elided v (gpr s S1 XOR shifted Size Shift (unat Amt) (gpr s S2)))"
    and "computes step (Op_XornShift Size Elided Dst S1 S2 Shift Amt) s Dst
      (\<lambda>v. result_is Size Elided v (gpr s S1 XOR NOT (shifted Size Shift (unat Amt) (gpr s S2))))"
    and "computes step (Op_AndShift Size Elided Dst S1 S2 Shift Amt) s Dst
      (\<lambda>v. result_is Size Elided v (gpr s S1 AND shifted Size Shift (unat Amt) (gpr s S2)))"
proof -
  obtain s' where s': "run step (shift_operand Size Shift S2 Amt) s = Some s'" "keeps scratch s s'"
    "if Size = i32Bit then (ucast (gpr s' TMP4) :: u32) = ucast (shifted Size Shift (unat Amt) (gpr s S2))
     else gpr s' TMP4 = shifted Size Shift (unat Amt) (gpr s S2)"
    using run_shift_operand [OF assms(3-5)] by blast
  have k: "keeps (insert Dst scratch) s s'" and S1: "gpr s' S1 = gpr s S1"
    using s'(2) assms(2) by (auto simp: keeps_def scratch_def)
  show "computes step (Op_XorShift Size Elided Dst S1 S2 Shift Amt) s Dst
      (\<lambda>v. result_is Size Elided v (gpr s S1 XOR shifted Size Shift (unat Amt) (gpr s S2)))"
    unfolding Op_XorShift_def using s'(1,3) k S1 assms(4)
    by (intro computes_tail32 [where s' = "setr Dst (gpr s S1 XOR gpr s' TMP4) s'"]) (auto simp: run_append step_xor low32_bitwise)
  show "computes step (Op_XornShift Size Elided Dst S1 S2 Shift Amt) s Dst
      (\<lambda>v. result_is Size Elided v (gpr s S1 XOR NOT (shifted Size Shift (unat Amt) (gpr s S2))))"
    unfolding Op_XornShift_def using s'(1,3) k S1 assms(2,4)
    by (intro computes_tail32 [where s' = "setr Dst (gpr s S1 XOR NOT (gpr s' TMP4)) (setr TMP4 (NOT (gpr s' TMP4)) s')"])
      (auto simp: run_append step_xor not_r_def step_nor low32_bitwise)
  show "computes step (Op_AndShift Size Elided Dst S1 S2 Shift Amt) s Dst
      (\<lambda>v. result_is Size Elided v (gpr s S1 AND shifted Size Shift (unat Amt) (gpr s S2)))"
    unfolding Op_AndShift_def using s'(1,3) k S1 assms(4)
    by (intro computes_tail32 [where s' = "setr Dst (gpr s S1 AND gpr s' TMP4) s'"]) (auto simp: run_append step_and low32_bitwise)
qed

lemma computes_or_shifted:
  assumes "guest_reg Dst" "guest_reg S1" "guest_reg S2" "gpr_size Size" "unat Amt < size_bits Size"
  shows "computes step (Op_Orlshl Size Elided Dst S1 S2 Amt) s Dst
      (\<lambda>v. result_is Size Elided v (gpr s S1 OR shifted Size LSL (unat Amt) (gpr s S2)))"
    and "computes step (Op_Orlshr Size Elided Dst S1 S2 Amt) s Dst
      (\<lambda>v. result_is Size Elided v (gpr s S1 OR shifted Size LSR (unat Amt) (gpr s S2)))"
    and "computes step (Op_Ornror Size Elided Dst S1 S2 Amt) s Dst
      (\<lambda>v. result_is Size Elided v (gpr s S1 OR NOT (shifted Size ROR (unat Amt) (gpr s S2))))"
proof -
  define A where "A = (ucast Amt :: u32)"
  have A: "unat A = unat Amt" by (simp add: A_def unat_u8_u32)
  have len: "unat A < 64" "Size = i32Bit \<Longrightarrow> unat A < 32" using assms(5) by (simp_all add: A size_bits_def split: if_splits)
  then have m: "Size = i32Bit \<Longrightarrow> A AND 31 = A" by (simp add: word_unat_eq_iff u32_mod_32)
  have lsl: "(ucast (push_bit n (x :: u64)) :: u32) = push_bit n (ucast x)" for n x
    by (rule bit_word_eqI) (auto simp: bit_unsigned_iff bit_push_bit_iff)
  note defs = shifted_def do_shift_def A_def [symmetric] A [symmetric] low32_bitwise
  show "computes step (Op_Orlshl Size Elided Dst S1 S2 Amt) s Dst
      (\<lambda>v. result_is Size Elided v (gpr s S1 OR shifted Size LSL (unat Amt) (gpr s S2)))"
    unfolding Op_Orlshl_def using assms(1-4) len
    by (intro computes_tail32) (auto simp: defs step_sldi_u32 step_or lsl)
  show "computes step (Op_Orlshr Size Elided Dst S1 S2 Amt) s Dst
      (\<lambda>v. result_is Size Elided v (gpr s S1 OR shifted Size LSR (unat Amt) (gpr s S2)))"
    unfolding Op_Orlshr_def using assms(1-4) len m
    by (cases "Size = i32Bit"; intro computes_tail32) (auto simp: defs step_srwi step_srdi step_or)
  show "computes step (Op_Ornror Size Elided Dst S1 S2 Amt) s Dst
      (\<lambda>v. result_is Size Elided v (gpr s S1 OR NOT (shifted Size ROR (unat Amt) (gpr s S2))))"
    unfolding Op_Ornror_def using assms(1-4) len m
    by (cases "Size = i32Bit"; intro computes_tail32) (auto simp: defs step_rotrwi step_rotrdi step_orc)
qed

end

subsection \<open>The generated code\<close>

text \<open>C21: The code \<open>DEF_OP(And)\<close> emits, for a register or for any 64-bit mask (a zero, move, rotate-and-mask or insert-zeroes form
  when the mask has one, a materialised constant otherwise), leaves the conjunction in the destination and touches nothing else,
  provided r0 holds the zero the backend keeps there.\<close>
theorem Op_And_correct:
  assumes "guest_reg Dst" "guest_reg S1" "guest_operand Src2" "gpr_size Size" "gpr s r0 = 0"
  shows "computes isa_step (Op_And cfg Size Elided Dst S1 Src2) s Dst (\<lambda>v. result_is Size Elided v (gpr s S1 AND value_of s Src2))"
  by (rule ppc.computes_And [OF assms])

theorem Op_And_correct_witness:
  "computes isa_step (Op_And default_config i32Bit False 8 7 (InlineConstant 0xFFFF00FF)) (machine_at [(7, 0x112345678)]) 8 (\<lambda>v. v = 0x12340078)"
  using Op_And_correct [of 8 7 "InlineConstant 0xFFFF00FF" i32Bit "machine_at [(7, 0x112345678)]" default_config False]
  by (auto simp: decide_operation computes_def)

text \<open>C22: The code of \<open>DEF_OP(Or)\<close>, \<open>DEF_OP(Xor)\<close> and \<open>DEF_OP(Andn)\<close> computes the disjunction, the exclusive disjunction and the
  conjunction with the complement of its operands, for registers and for every inline constant.\<close>
theorem Or_Xor_Andn_correct:
  assumes "guest_reg Dst" "guest_reg S1" "guest_operand Src2" "gpr_size Size" "gpr s r0 = 0"
  shows "computes isa_step (Op_Or cfg Size Elided Dst S1 Src2) s Dst (\<lambda>v. result_is Size Elided v (gpr s S1 OR value_of s Src2)) \<and>
    computes isa_step (Op_Xor cfg Size Elided Dst S1 Src2) s Dst (\<lambda>v. result_is Size Elided v (gpr s S1 XOR value_of s Src2)) \<and>
    computes isa_step (Op_Andn cfg Size Elided Dst S1 Src2) s Dst (\<lambda>v. result_is Size Elided v (gpr s S1 AND NOT (value_of s Src2)))"
  using ppc.computes_Or [OF assms(1-4)] ppc.computes_Xor [OF assms(1-4)] ppc.computes_Andn [OF assms] by blast

theorem Or_Xor_Andn_correct_witness:
  "computes isa_step (Op_Xor default_config i64Bit False 8 7 (InlineConstant 0xFFFF0000)) (machine_at [(7, 0x12345678)]) 8 (\<lambda>v. v = 0xEDCB5678)"
  using Or_Xor_Andn_correct [of 8 7 "InlineConstant 0xFFFF0000" i64Bit "machine_at [(7, 0x12345678)]" default_config False]
  by (simp add: decide_operation computes_def)

text \<open>C23: The operations with a shifted second operand (\<open>DEF_OP(XorShift)\<close>, \<open>XornShift\<close>, \<open>AndShift\<close>, \<open>Orlshl\<close>, \<open>Orlshr\<close>, \<open>Ornror\<close>)
  shift or rotate that operand at the width of the operation, for every shift kind and every amount below the width.\<close>
theorem shifted_logic_correct:
  assumes "guest_reg Dst" "guest_reg S1" "guest_reg S2" "gpr_size Size" "unat Amt < size_bits Size"
  shows "computes isa_step (Op_XorShift Size Elided Dst S1 S2 Shift Amt) s Dst
      (\<lambda>v. result_is Size Elided v (gpr s S1 XOR shifted Size Shift (unat Amt) (gpr s S2))) \<and>
    computes isa_step (Op_XornShift Size Elided Dst S1 S2 Shift Amt) s Dst
      (\<lambda>v. result_is Size Elided v (gpr s S1 XOR NOT (shifted Size Shift (unat Amt) (gpr s S2)))) \<and>
    computes isa_step (Op_AndShift Size Elided Dst S1 S2 Shift Amt) s Dst
      (\<lambda>v. result_is Size Elided v (gpr s S1 AND shifted Size Shift (unat Amt) (gpr s S2))) \<and>
    computes isa_step (Op_Orlshl Size Elided Dst S1 S2 Amt) s Dst
      (\<lambda>v. result_is Size Elided v (gpr s S1 OR shifted Size LSL (unat Amt) (gpr s S2))) \<and>
    computes isa_step (Op_Orlshr Size Elided Dst S1 S2 Amt) s Dst
      (\<lambda>v. result_is Size Elided v (gpr s S1 OR shifted Size LSR (unat Amt) (gpr s S2))) \<and>
    computes isa_step (Op_Ornror Size Elided Dst S1 S2 Amt) s Dst
      (\<lambda>v. result_is Size Elided v (gpr s S1 OR NOT (shifted Size ROR (unat Amt) (gpr s S2))))"
  using ppc.computes_shifted [OF assms] ppc.computes_or_shifted [OF assms] by blast

theorem shifted_logic_correct_witness:
  "computes isa_step (Op_XorShift i64Bit False 8 7 9 ASR 4) (machine_at [(7, 1), (9, 0xF0)]) 8 (\<lambda>v. v = 0xE)"
  using shifted_logic_correct [of 8 7 9 i64Bit 4 False ASR "machine_at [(7, 1), (9, 0xF0)]"]
  by (simp add: decide_operation computes_def shifted_def do_shift_def)

end
