(* ===== verification/Alu_Shift.thy ===== *)
theory Alu_Shift
  imports Alu_Logic
begin

text \<open>
  Shifts, rotations, bit counts and bit-field operations of \<open>JIT/PPC64LE/ALUOps.cpp\<close>.  None of the emitted
  sequences may use the carry-setting arithmetic shifts of the processor, because the carry bit holds the
  guest's carry flag; the contract \<open>computes\<close> includes that it is unchanged.
\<close>

subsection \<open>Shift and rotate handlers\<close>

definition shift_count :: "OpSize \<Rightarrow> u64 \<Rightarrow> u32" where
  "shift_count Size Const = ucast (Const AND (if size_le_32 Size then 31 else 63))"

definition Op_Lshl :: "OpSize \<Rightarrow> GPR \<Rightarrow> GPR \<Rightarrow> operand \<Rightarrow> insn list" where
  "Op_Lshl Size Dst S1 Src2 =
     (case Src2 of
        InlineConstant Const \<Rightarrow>
          let sh = shift_count Size Const in
          if size_le_32 Size then [rlwinm Dst S1 sh 0 (31 - sh)] else [sldi Dst S1 sh]
      | Reg S2 \<Rightarrow>
          if size_le_32 Size then [rldicl TMP4 S2 0 59, slw Dst S1 TMP4]
          else [rldicl TMP4 S2 0 58, sld Dst S1 TMP4])"

definition Op_Lshr :: "OpSize \<Rightarrow> GPR \<Rightarrow> GPR \<Rightarrow> operand \<Rightarrow> insn list" where
  "Op_Lshr Size Dst S1 Src2 =
     (case Src2 of
        InlineConstant Const \<Rightarrow>
          let sh = shift_count Size Const in
          if size_le_32 Size then
            if sh = 0 then [rldicl Dst S1 0 32] else [rlwinm Dst S1 (32 - sh) sh 31]
          else [srdi Dst S1 sh]
      | Reg S2 \<Rightarrow>
          if size_le_32 Size then [rldicl TMP4 S2 0 59, srw Dst S1 TMP4]
          else [rldicl TMP4 S2 0 58, srd Dst S1 TMP4])"

definition Op_Ashr :: "OpSize \<Rightarrow> GPR \<Rightarrow> GPR \<Rightarrow> operand \<Rightarrow> insn list" where
  "Op_Ashr Size Dst S1 Src2 =
     (case Src2 of
        InlineConstant Const \<Rightarrow>
          let sh = shift_count Size Const in
          if size_le_32 Size then
            [extsw TMP4 S1] @
            (if sh = 0 then [rldicl Dst TMP4 0 32] else [rldicl Dst TMP4 (64 - sh) sh, rldicl Dst Dst 0 32])
          else if sh = 0 then mr_unless_same Dst S1
          else
            [rldicl TMP3 S1 1 63, neg TMP3 TMP3, rldicl TMP4 S1 (64 - sh) sh] @
            (if sh = 64 then [mr Dst TMP3] else [sldi TMP3 TMP3 (64 - sh), or_r Dst TMP4 TMP3])
      | Reg S2 \<Rightarrow>
          if size_le_32 Size then [rldicl TMP3 S2 0 59, extsw TMP4 S1, srd Dst TMP4 TMP3, rldicl Dst Dst 0 32]
          else
            [rldicl TMP3 S2 0 58, rldicl TMP1 S1 1 63, neg TMP1 TMP1, srd TMP4 S1 TMP3, li TMP2 64,
             subf TMP2 TMP3 TMP2, sld TMP1 TMP1 TMP2, or_r Dst TMP4 TMP1])"

definition Op_Ror :: "OpSize \<Rightarrow> GPR \<Rightarrow> GPR \<Rightarrow> operand \<Rightarrow> insn list" where
  "Op_Ror Size Dst S1 Src2 =
     (case Src2 of
        InlineConstant Const \<Rightarrow>
          let rot = (ucast (Const AND 63) :: u32) in
          if size_le_32 Size then [rlwinm Dst S1 ((32 - (rot AND 31)) AND 31) 0 31]
          else [rldicl Dst S1 ((64 - rot) AND 63) 0]
      | Reg S2 \<Rightarrow>
          [neg TMP4 S2, if size_le_32 Size then rlwnm Dst S1 TMP4 0 31 else rldcl Dst S1 TMP4 0])"

subsection \<open>Counts modulo the operand width\<close>

lemma unat_shift_count: "gpr_size Size \<Longrightarrow> unat (shift_count Size C) = unat C mod size_bits Size"
proof -
  have "C AND 31 = take_bit 5 C" "C AND 63 = take_bit 6 C" by (simp_all add: take_bit_eq_mask mask_eq_exp_minus_1)
  moreover have "unat (take_bit 5 C) = unat C mod 32" "unat (take_bit 6 C) = unat C mod 64"
    by (simp_all only: unsigned_take_bit_eq) (simp_all add: take_bit_eq_mod)
  ultimately show "gpr_size Size \<Longrightarrow> unat (shift_count Size C) = unat C mod size_bits Size"
    by (auto simp: gpr_size_def shift_count_def size_le_32_def size_bits_def unat_ucast_mod)
qed

lemma masked_count: "unat (word_rotl 0 C AND mask64 59 63) = unat (C :: u64) mod 32"
    "unat (word_rotl 0 C AND mask64 58 63) = unat C mod 64"
proof -
  have "word_rotl 0 C AND mask64 59 63 = take_bit 5 C" "word_rotl 0 C AND mask64 58 63 = take_bit 6 C"
    by (simp_all add: rotl_zero mask64_low)
  then show "unat (word_rotl 0 C AND mask64 59 63) = unat C mod 32" "unat (word_rotl 0 C AND mask64 58 63) = unat C mod 64"
    by (simp_all only: unsigned_take_bit_eq) (simp_all add: take_bit_eq_mod)
qed

lemma unat_neg_mod:
  assumes "k \<le> 64"
  shows "unat (- c :: u64) mod 2 ^ k = (2 ^ k - unat c mod 2 ^ k) mod 2 ^ k"
proof -
  have "int (unat (- c) mod 2 ^ k) = take_bit k (take_bit 64 (- uint c))"
    by (simp add: take_bit_eq_mod of_nat_mod uint_word_ariths)
  also have "\<dots> = (- uint c) mod 2 ^ k" using assms by (simp only: take_bit_take_bit min.absorb1) (simp only: take_bit_eq_mod)
  also have "\<dots> = (2 ^ k - uint c mod 2 ^ k) mod 2 ^ k" unfolding mod_diff_right_eq by simp
  also have "\<dots> = int ((2 ^ k - unat c mod 2 ^ k) mod 2 ^ k)"
    by (simp add: of_nat_mod of_nat_diff)
  finally show ?thesis by linarith
qed

subsection \<open>Correctness of shifts and rotations\<close>

lemma shifted_cases: "shifted i32Bit t n x = ucast (do_shift t n (ucast x :: u32))" "shifted i64Bit t n x = do_shift t n x"
  by (simp_all add: shifted_def)

lemma low32_signed_shift_zext:
  "n < 32 \<Longrightarrow> ucast (ucast (drop_bit n (scast (ucast (x :: u64) :: u32) :: u64)) :: u32) = (ucast (signed_drop_bit n (ucast x :: u32)) :: u64)"
  by (simp add: low32_signed_shift)

lemma gpr_size_cases [consumes 1, case_names i32 i64]: "gpr_size Size \<Longrightarrow> (Size = i32Bit \<Longrightarrow> P) \<Longrightarrow> (Size = i64Bit \<Longrightarrow> P) \<Longrightarrow> P"
  by (auto simp: gpr_size_def)

lemma unat_shift_count_sizes: "unat (shift_count i32Bit C) = unat C mod 32" "unat (shift_count i64Bit C) = unat C mod 64"
  using unat_shift_count [of i32Bit C] unat_shift_count [of i64Bit C] by (simp_all add: gpr_size_def size_bits_def)

lemmas shift_simps = unat_shift_count_sizes size_le_32_def size_bits_def shifted_def do_shift_def Let_def

context ppc_isa
begin

lemma computes_Lshl:
  assumes "guest_reg Dst" "guest_reg S1" "guest_operand Src2" "gpr_size Size"
  shows "computes step (Op_Lshl Size Dst S1 Src2) s Dst
    (\<lambda>v. v = shifted Size LSL (unat (value_of s Src2) mod size_bits Size) (gpr s S1))"
  using assms(4,1-3) by (cases Src2; cases rule: gpr_size_cases)
    (auto simp: computes_def Op_Lshl_def shift_simps step_slwi step_sldi_u32 step_rldicl step_slw step_sld masked_count)

lemma computes_Lshr:
  assumes "guest_reg Dst" "guest_reg S1" "guest_operand Src2" "gpr_size Size"
  shows "computes step (Op_Lshr Size Dst S1 Src2) s Dst
    (\<lambda>v. v = shifted Size LSR (unat (value_of s Src2) mod size_bits Size) (gpr s S1))"
proof -
  have w: "exec step (rlwinm Dst S1 (32 - sh) sh 31) s = Some (setr Dst (ucast (drop_bit (unat sh) (ucast (gpr s S1) :: u32))) s)"
    if "sh \<noteq> 0" "unat sh < 32" for sh
    using that step_srwi [of sh Dst S1 s] u32_turn_mod [of sh] by (simp add: unat_gt_0)
  show ?thesis using assms(4,1-3) by (cases Src2; cases rule: gpr_size_cases)
    (auto simp: computes_def Op_Lshr_def shift_simps w step_zext32 step_srdi step_rldicl rotl_mask_zext step_srw step_srd masked_count
      simp flip: unat_eq_0)
qed

lemma computes_Ror:
  assumes "guest_reg Dst" "guest_reg S1" "guest_operand Src2" "gpr_size Size"
  shows "computes step (Op_Ror Size Dst S1 Src2) s Dst
    (\<lambda>v. v = shifted Size ROR (unat (value_of s Src2) mod size_bits Size) (gpr s S1))"
proof (cases Src2)
  case (InlineConstant C)
  define rot where "rot = (ucast (C AND 63) :: u32)"
  have rot: "unat rot = unat C mod 64"
    using unat_shift_count [of i64Bit C] by (simp add: rot_def shift_count_def gpr_size_def size_le_32_def size_bits_def)
  have "unat (rot AND 31) = unat C mod 32" using mod_mod_cancel [of 32 64 "unat C"] by (simp add: u32_mod_32 rot)
  then show ?thesis using assms(4) InlineConstant rot
      step_rotrwi [of "rot AND 31" Dst S1 s] step_rotrdi [of rot Dst S1 s]
    by (auto simp: computes_def Op_Ror_def rot_def [symmetric] gpr_size_def shift_simps)
next
  case (Reg S2)
  have "unat (- c :: u64) mod 32 = (32 - unat c mod 32) mod 32" "unat (- c) mod 64 = (64 - unat c mod 64) mod 64" for c
    using unat_neg_mod [of 5 c] unat_neg_mod [of 6 c] by simp_all
  then show ?thesis using Reg assms rotrwi [of "unat (gpr s S2) mod 32" "gpr s S1"] rotl_rotr [of "unat (gpr s S2) mod 64" "gpr s S1"]
    by (auto simp: computes_def Op_Ror_def gpr_size_def shift_simps step_neg step_rlwnm step_rldcl mask64_full)
qed

lemma computes_Ashr64:
  assumes "guest_reg Dst" "guest_reg S1" "guest_reg S2"
  shows "computes step (Op_Ashr i64Bit Dst S1 (Reg S2)) s Dst (\<lambda>v. v = signed_drop_bit (unat (gpr s S2) mod 64) (gpr s S1))"
proof -
  define C where "C = word_rotl 0 (gpr s S2) AND mask64 58 63"
  have C: "unat C = unat (gpr s S2) mod 64" "unat C < 64" by (simp_all add: C_def masked_count)
  then have "C \<le> 64" by (simp add: word_le_nat_alt)
  then have "unat (64 - C) = 64 - unat C" by (simp add: unat_sub)
  then show ?thesis using assms C(2) sign_fill [OF C(2), of "gpr s S1"] unfolding C(1) [symmetric]
    by (simp add: computes_def Op_Ashr_def size_le_32_def step_rldicl step_neg step_srd step_li step_subf step_sld step_or C_def [symmetric])
qed

lemma computes_Ashr:
  assumes "guest_reg Dst" "guest_reg S1" "guest_operand Src2" "gpr_size Size"
  shows "computes step (Op_Ashr Size Dst S1 Src2) s Dst
    (\<lambda>v. v = shifted Size ASR (unat (value_of s Src2) mod size_bits Size) (gpr s S1))"
proof (cases Src2)
  case (InlineConstant C)
  show ?thesis using assms(4)
  proof (cases rule: gpr_size_cases)
    case i32
    define sh where "sh = shift_count i32Bit C"
    have sh: "unat C mod 32 = unat sh" "unat sh < 32" by (simp_all add: sh_def shift_simps)
    then show ?thesis using i32 InlineConstant assms(1,2)
      by (cases "sh = 0") (auto simp: computes_def Op_Ashr_def Let_def sh_def [symmetric] size_le_32_def step_extsw step_zext32 step_rldicl
          unat_gt_0 u32_sub rotl_mask_drop_pos low32_signed_shift rotl_mask_zext shifted_def do_shift_def size_bits_def)
  next
    case i64
    define sh where "sh = shift_count i64Bit C"
    have sh: "unat C mod 64 = unat sh" "unat sh < 64" by (simp_all add: sh_def shift_simps)
    then have "sh \<noteq> 64" by auto
    then show ?thesis using i64 InlineConstant assms(1,2) sh
      by (cases "sh = 0") (auto simp: computes_def Op_Ashr_def Let_def sh_def [symmetric] size_le_32_def step_rldicl step_neg step_sldi_u32
          step_or run_mr_unless_same unat_gt_0 u32_sub rotl_mask_drop_pos sign_fill [unfolded One_nat_def]
          shifted_def do_shift_def size_bits_def)
  qed
next
  case (Reg S2)
  show ?thesis using assms(4)
  proof (cases rule: gpr_size_cases)
    case i32
    then show ?thesis using Reg assms(1-3)
      by (auto simp: computes_def Op_Ashr_def shift_simps step_rldicl [of TMP3] step_extsw step_srd step_zext32 masked_count low32_signed_shift)
  next
    case i64
    then show ?thesis using Reg assms(1-3) computes_Ashr64 [of Dst S1 S2 s] by (simp add: shift_simps)
  qed
qed

end

subsection \<open>The generated code\<close>

text \<open>C24: The shifts and the rotation (\<open>DEF_OP(Lshl)\<close>, \<open>Lshr\<close>, \<open>Ashr\<close>, \<open>Ror\<close>), by a register or by an inline constant, take the
  count modulo the width, as x86 does, and leave the exact result in the destination, zero-extended at 32 bits; in particular the
  flag word is left alone although the arithmetic shift instructions of the host would write XER.\<close>
theorem shifts_correct:
  assumes "guest_reg Dst" "guest_reg S1" "guest_operand Src2" "gpr_size Size"
  shows "computes isa_step (Op_Lshl Size Dst S1 Src2) s Dst (\<lambda>v. v = shifted Size LSL (unat (value_of s Src2) mod size_bits Size) (gpr s S1)) \<and>
    computes isa_step (Op_Lshr Size Dst S1 Src2) s Dst (\<lambda>v. v = shifted Size LSR (unat (value_of s Src2) mod size_bits Size) (gpr s S1)) \<and>
    computes isa_step (Op_Ashr Size Dst S1 Src2) s Dst (\<lambda>v. v = shifted Size ASR (unat (value_of s Src2) mod size_bits Size) (gpr s S1)) \<and>
    computes isa_step (Op_Ror Size Dst S1 Src2) s Dst (\<lambda>v. v = shifted Size ROR (unat (value_of s Src2) mod size_bits Size) (gpr s S1))"
  using ppc.computes_Lshl [OF assms] ppc.computes_Lshr [OF assms] ppc.computes_Ashr [OF assms] ppc.computes_Ror [OF assms] by blast

theorem shifts_correct_witness:
  "computes isa_step (Op_Ashr i64Bit 8 7 (Reg 9)) (machine_at [(7, - 256), (9, 68)]) 8 (\<lambda>v. v = - 16)"
  using shifts_correct [of 8 7 "Reg 9" i64Bit "machine_at [(7, - 256), (9, 68)]"]
  by (simp add: decide_operation computes_def shifted_def do_shift_def)

end
