(* ===== verification/Alu_Bits.thy ===== *)
theory Alu_Bits
  imports Alu_Shift
begin

text \<open>
  Bit counts and bit-field operations of \<open>JIT/PPC64LE/ALUOps.cpp\<close>.  The processor has no trailing-zero count
  and no narrow counts, so the code derives them from the leading-zero count and the population count of the
  whole register; the lemmas relate these to the counts of the operand's own width.
\<close>

subsection \<open>Handlers\<close>

definition zext_to :: "OpSize \<Rightarrow> GPR \<Rightarrow> GPR \<Rightarrow> insn list" where
  "zext_to Size ra rs =
     (case Size of i8Bit \<Rightarrow> [rldicl ra rs 0 56] | i16Bit \<Rightarrow> [rldicl ra rs 0 48] | i32Bit \<Rightarrow> [rldicl ra rs 0 32] | _ \<Rightarrow> [])"

definition narrow :: "OpSize \<Rightarrow> bool" where
  "narrow Size \<longleftrightarrow> Size = i8Bit \<or> Size = i16Bit \<or> Size = i32Bit"

definition Op_Popcount :: "OpSize \<Rightarrow> GPR \<Rightarrow> GPR \<Rightarrow> insn list" where
  "Op_Popcount Size Dst Src = zext_to Size TMP1 Src @ [popcntd Dst (if narrow Size then TMP1 else Src)]"

definition Op_FindLSB :: "OpSize \<Rightarrow> GPR \<Rightarrow> GPR \<Rightarrow> insn list" where
  "Op_FindLSB Size Dst Src =
     [neg TMP1 Src, and_r TMP1 Src TMP1] @
     (if size_le_32 Size then [cntlzw TMP1 TMP1, li TMP2 31, subf Dst TMP1 TMP2]
      else [cntlzd TMP1 TMP1, li TMP2 63, subf Dst TMP1 TMP2])"

definition Op_FindMSB :: "OpSize \<Rightarrow> GPR \<Rightarrow> GPR \<Rightarrow> insn list" where
  "Op_FindMSB Size Dst Src =
     (if size_le_32 Size then [cntlzw TMP1 Src, li TMP2 31, subf Dst TMP1 TMP2]
      else [cntlzd TMP1 Src, li TMP2 63, subf Dst TMP1 TMP2])"

definition Op_FindTrailingZeroes :: "OpSize \<Rightarrow> GPR \<Rightarrow> GPR \<Rightarrow> insn list" where
  "Op_FindTrailingZeroes Size Dst Src =
     (let MaskedSrc = (if narrow Size then TMP1 else Src) in
      zext_to Size TMP1 Src @ [addi TMP2 MaskedSrc (- 1), not_r TMP3 MaskedSrc, and_r TMP2 TMP3 TMP2] @
      zext_to Size TMP2 TMP2 @ [popcntd Dst TMP2])"

definition Op_CountLeadingZeroes :: "OpSize \<Rightarrow> GPR \<Rightarrow> GPR \<Rightarrow> insn list" where
  "Op_CountLeadingZeroes Size Dst Src =
     (case Size of
        i8Bit \<Rightarrow> [rldicl TMP1 Src 0 56, cntlzd TMP1 TMP1, addi Dst TMP1 (- 56)]
      | i16Bit \<Rightarrow> [rldicl TMP1 Src 0 48, cntlzd TMP1 TMP1, addi Dst TMP1 (- 48)]
      | i32Bit \<Rightarrow> [rldicl TMP1 Src 0 32, cntlzd TMP1 TMP1, addi Dst TMP1 (- 32)]
      | i64Bit \<Rightarrow> [cntlzd Dst Src]
      | _ \<Rightarrow> [])"

subsection \<open>Counting bits of narrow values\<close>

lemma popcount_card: "popcount w = card {n. bit w n}"
proof -
  have "popcount w = card (set (filter (bit w) [0..<LENGTH('a)]))"
    unfolding popcount_def by (rule distinct_card [symmetric]) simp
  also have "set (filter (bit w) [0..<LENGTH('a)]) = {n. bit w n}" by (auto dest: bit_imp_le_length)
  finally show ?thesis .
qed

lemma popcount_mask: "n \<le> LENGTH('a) \<Longrightarrow> popcount (mask n :: 'a::len word) = n"
proof -
  assume "n \<le> LENGTH('a)"
  then have "{i. bit (mask n :: 'a word) i} = {0..<n}" by (auto simp: bit_mask_iff)
  then show ?thesis by (simp add: popcount_card)
qed

lemma countr_zero_0: "countr_zero (0 :: 'a::len word) = LENGTH('a)"
  by (simp add: countr_zero_def takeWhile_eq_all_conv [THEN iffD2])

text \<open>Subtracting one clears the lowest set bit and sets the zeros below it.\<close>

lemma bit_minus_one:
  assumes "(x :: 'a::len word) \<noteq> 0"
  shows "bit (x - 1) n \<longleftrightarrow> n < LENGTH('a) \<and> (countr_zero x < n \<and> bit x n \<or> n < countr_zero x)"
proof -
  note k = countr_zero_spec [OF assms]
  define h where "h = x AND NOT (mask (Suc (countr_zero x)))"
  have h: "bit h n \<longleftrightarrow> countr_zero x < n \<and> bit x n" for n
    by (auto simp: h_def bit_and_iff bit_not_iff bit_mask_iff dest: bit_imp_le_length)
  have x: "x = h OR 2 ^ countr_zero x"
    by (rule bit_word_eqI) (use k in \<open>auto simp: bit_or_iff h bit_exp_iff le_less intro: linorder_neqE_nat\<close>)
  have "h OR 2 ^ countr_zero x = h + 2 ^ countr_zero x"
    by (rule disjunctive_add [symmetric]) (auto simp: h bit_exp_iff)
  with x have "x = h + 2 ^ countr_zero x" by (rule trans)
  then have "x - 1 = h + 2 ^ countr_zero x - 1" by simp
  then have "x - 1 = h + mask (countr_zero x)" by (simp add: mask_eq_exp_minus_1)
  also have "\<dots> = h OR mask (countr_zero x)" by (rule disjunctive_add) (auto simp: h bit_mask_iff)
  finally show ?thesis by (auto simp: bit_or_iff h bit_mask_iff dest: bit_imp_le_length)
qed

lemma isolate_trailing_zeroes: "NOT x AND (x - 1) = mask (countr_zero (x :: 'a::len word))"
proof (cases "x = 0")
  case True
  then show ?thesis by (simp add: countr_zero_0)
next
  case False
  then show ?thesis using countr_zero_spec [OF False]
    by (intro bit_word_eqI) (auto simp: bit_and_iff bit_not_iff bit_mask_iff bit_minus_one)
qed

lemma isolate_lowest_bit: "(x :: 'a::len word) \<noteq> 0 \<Longrightarrow> x AND - x = 2 ^ countr_zero x"
proof -
  assume x: "x \<noteq> 0"
  have "- x = NOT (x - 1)" by (simp add: not_eq_complement)
  then show ?thesis using x countr_zero_spec [OF x]
    by (intro bit_word_eqI) (auto simp: bit_and_iff bit_not_iff bit_exp_iff bit_minus_one intro: linorder_neqE_nat)
qed

lemma rev_upt_split: "k \<le> n \<Longrightarrow> rev [0..<n] = rev [k..<n] @ rev [0..<k]"
  using upt_add_eq_append [of 0 k "n - k"] by (simp flip: rev_append)

lemma countl_zero_zext:
  assumes "LENGTH('b) \<le> LENGTH('a)"
  shows "countl_zero (ucast (w :: 'b::len word) :: 'a::len word) = LENGTH('a) - LENGTH('b) + countl_zero w"
proof -
  let ?P = "\<lambda>i. \<not> bit (ucast w :: 'a word) i"
  have "takeWhile ?P (rev [LENGTH('b)..<LENGTH('a)] @ rev [0..<LENGTH('b)]) =
    rev [LENGTH('b)..<LENGTH('a)] @ takeWhile ?P (rev [0..<LENGTH('b)])"
    by (rule takeWhile_append2) (auto simp: bit_unsigned_iff dest: bit_imp_le_length)
  moreover have "takeWhile ?P (rev [0..<LENGTH('b)]) = takeWhile (\<lambda>i. \<not> bit w i) (rev [0..<LENGTH('b)])"
    using assms by (intro takeWhile_cong) (auto simp: bit_unsigned_iff)
  ultimately show ?thesis by (simp add: countl_zero_def rev_upt_split [OF assms])
qed

lemma countl_zero_exp: "k < LENGTH('a) \<Longrightarrow> countl_zero (2 ^ k :: 'a::len word) = LENGTH('a) - 1 - k"
proof -
  assume k: "k < LENGTH('a)"
  define w where "w = (2 ^ k :: 'a word)"
  have b: "bit w i \<longleftrightarrow> i = k" for i using k by (auto simp: w_def bit_exp_iff)
  then have "w \<noteq> 0" by (metis bit_0_eq bot_apply bot_bool_def)
  from countl_zero_spec [OF this] b show ?thesis unfolding w_def [symmetric] using k by auto
qed

lemma countr_zero_zext:
  assumes "LENGTH('b) \<le> LENGTH('a)" "w \<noteq> 0"
  shows "countr_zero (ucast (w :: 'b::len word) :: 'a::len word) = countr_zero w"
proof -
  have nz: "(ucast w :: 'a word) \<noteq> 0"
    using assms by (metis ucast_ucast_small unat_less_exp unsigned_0 order_less_le_trans power_increasing one_le_numeral)
  note a = countr_zero_spec [OF nz] and b = countr_zero_spec [OF assms(2)]
  have "bit (ucast w :: 'a word) i \<longleftrightarrow> bit w i" for i
    using assms by (auto simp: bit_unsigned_iff dest: bit_imp_le_length)
  with a b show ?thesis by (metis linorder_neqE_nat)
qed

lemma popcount_zext: "LENGTH('b) \<le> LENGTH('a) \<Longrightarrow> popcount (ucast (w :: 'b::len word) :: 'a::len word) = popcount w"
  unfolding popcount_card by (rule arg_cong [of _ _ card]) (auto simp: bit_unsigned_iff intro: order_less_le_trans [OF bit_imp_le_length])

lemma countr_zero_le: "countr_zero (x :: 'a::len word) \<le> LENGTH('a)"
  using length_takeWhile_le [of "\<lambda>i. \<not> bit x i" "[0..<LENGTH('a)]"] by (simp add: countr_zero_def)

lemma popcount_trailing: "popcount (NOT x AND (x - 1)) = countr_zero (x :: 'a::len word)"
  by (simp add: isolate_trailing_zeroes popcount_mask countr_zero_le)

lemma popcount_trailing_narrow:
  fixes w :: "'b::len word"
  assumes "LENGTH('b) \<le> LENGTH('a)"
  defines "z \<equiv> (ucast w :: 'a::len word)"
  shows "popcount (ucast (NOT z AND (z - 1)) :: 'b word) = countr_zero w"
proof -
  have "countr_zero z = (if w = 0 then LENGTH('a) else countr_zero w)"
    using assms(1) by (simp add: z_def countr_zero_0 countr_zero_zext)
  then have "(ucast (mask (countr_zero z) :: 'a word) :: 'b word) = mask (countr_zero w)"
    using assms(1) by (intro bit_word_eqI) (auto simp: bit_unsigned_iff bit_mask_iff countr_zero_0)
  then show ?thesis by (simp add: isolate_trailing_zeroes popcount_mask countr_zero_le)
qed

lemma countr_zero_low:
  fixes x :: "'a::len word"
  assumes "LENGTH('b) \<le> LENGTH('a)" "(ucast x :: 'b::len word) \<noteq> 0"
  shows "countr_zero (ucast x :: 'b word) = countr_zero x"
proof -
  have "x \<noteq> 0" using assms(2) by auto
  note a = countr_zero_spec [OF this] and b = countr_zero_spec [OF assms(2)]
  have "bit (ucast x :: 'b word) i \<longleftrightarrow> i < LENGTH('b) \<and> bit x i" for i by (auto simp: bit_unsigned_iff dest: bit_imp_le_length)
  with a b show ?thesis by (metis linorder_neqE_nat order_less_trans)
qed

lemma cntlz_isolated:
  fixes x :: u64
  shows "x \<noteq> 0 \<Longrightarrow> 63 - of_nat (countl_zero (x AND - x)) = (of_nat (countr_zero x) :: u64)"
    and "(ucast x :: u32) \<noteq> 0 \<Longrightarrow> 31 - of_nat (countl_zero (ucast (x AND - x) :: u32)) = (of_nat (countr_zero x) :: u64)"
proof -
  have d: "c - of_nat n = (of_nat k :: u64)" if "n + k = m" "c = of_nat m" for c n k m
    using that(2) by (simp flip: that(1))
  show "63 - of_nat (countl_zero (x AND - x)) = (of_nat (countr_zero x) :: u64)" if "x \<noteq> 0"
    by (rule d [of _ _ 63]) (use countr_zero_spec(1) [OF that] in \<open>simp_all add: isolate_lowest_bit [OF that] countl_zero_exp\<close>)
  assume n: "(ucast x :: u32) \<noteq> 0"
  then have "x \<noteq> 0" "countr_zero x < 32" using countr_zero_spec(1) [OF n] countr_zero_low [OF _ n] by auto
  moreover from this have "(ucast (2 ^ countr_zero x :: u64) :: u32) = 2 ^ countr_zero x"
    by (intro bit_word_eqI) (simp add: bit_unsigned_iff bit_exp_iff)
  ultimately show "31 - of_nat (countl_zero (ucast (x AND - x) :: u32)) = (of_nat (countr_zero x) :: u64)"
    by (intro d [of _ _ 31]) (simp_all add: isolate_lowest_bit countl_zero_exp)
qed

lemma low_nonzero: "(ucast (x :: u64) :: u8) \<noteq> 0 \<Longrightarrow> (ucast x :: u32) \<noteq> 0" "(ucast x :: u16) \<noteq> 0 \<Longrightarrow> (ucast x :: u32) \<noteq> 0"
proof -
  have "(ucast x :: u8) = ucast (ucast x :: u32)" "(ucast x :: u16) = ucast (ucast x :: u32)"
    by (rule bit_word_eqI, simp add: bit_unsigned_iff)+
  then show "(ucast x :: u8) \<noteq> 0 \<Longrightarrow> (ucast x :: u32) \<noteq> 0" "(ucast x :: u16) \<noteq> 0 \<Longrightarrow> (ucast x :: u32) \<noteq> 0" by auto
qed

subsection \<open>Correctness of the counts\<close>

definition ones_in :: "OpSize \<Rightarrow> u64 \<Rightarrow> nat" where
  "ones_in Size x =
     (case Size of i8Bit \<Rightarrow> popcount (ucast x :: u8) | i16Bit \<Rightarrow> popcount (ucast x :: u16) | i32Bit \<Rightarrow> popcount (ucast x :: u32) | _ \<Rightarrow> popcount x)"

definition trailing_zeroes_in :: "OpSize \<Rightarrow> u64 \<Rightarrow> nat" where
  "trailing_zeroes_in Size x =
     (case Size of i8Bit \<Rightarrow> countr_zero (ucast x :: u8) | i16Bit \<Rightarrow> countr_zero (ucast x :: u16) | i32Bit \<Rightarrow> countr_zero (ucast x :: u32) | _ \<Rightarrow> countr_zero x)"

definition leading_zeroes_in :: "OpSize \<Rightarrow> u64 \<Rightarrow> nat" where
  "leading_zeroes_in Size x =
     (case Size of i8Bit \<Rightarrow> countl_zero (ucast x :: u8) | i16Bit \<Rightarrow> countl_zero (ucast x :: u16) | i32Bit \<Rightarrow> countl_zero (ucast x :: u32) | _ \<Rightarrow> countl_zero x)"

definition count_size :: "OpSize \<Rightarrow> bool" where
  "count_size Size \<longleftrightarrow> Size = i8Bit \<or> Size = i16Bit \<or> Size = i32Bit \<or> Size = i64Bit"

lemma count_size_cases [consumes 1, case_names i8 i16 i32 i64]:
  "count_size Size \<Longrightarrow> (Size = i8Bit \<Longrightarrow> P) \<Longrightarrow> (Size = i16Bit \<Longrightarrow> P) \<Longrightarrow> (Size = i32Bit \<Longrightarrow> P) \<Longrightarrow> (Size = i64Bit \<Longrightarrow> P) \<Longrightarrow> P"
  by (auto simp: count_size_def)

lemma zext_rotl: "word_rotl 0 x AND mask64 56 63 = ucast (ucast (x :: u64) :: u8)" "word_rotl 0 x AND mask64 48 63 = ucast (ucast x :: u16)"
  by (rule bit_word_eqI, auto simp: rotl_zero bit_and_iff bit_mask64 bit_unsigned_iff dest: bit_imp_le_length)+

context ppc_isa
begin

lemma step_zext8: "exec step (rldicl ra rs 0 56) s = Some (setr ra (ucast (ucast (gpr s rs) :: u8)) s)"
  and step_zext16: "exec step (rldicl ra rs 0 48) s = Some (setr ra (ucast (ucast (gpr s rs) :: u16)) s)"
  by (simp_all add: step_rldicl zext_rotl)

lemmas step_zext = step_zext8 step_zext16 step_zext32

lemma computes_Popcount:
  assumes "guest_reg Dst" "guest_reg Src" "count_size Size"
  shows "computes step (Op_Popcount Size Dst Src) s Dst (\<lambda>v. v = of_nat (ones_in Size (gpr s Src)))"
  using assms(3,1,2) by (cases rule: count_size_cases)
    (auto simp: computes_def Op_Popcount_def zext_to_def narrow_def step_zext step_popcntd ones_in_def popcount_zext)

lemma computes_CountLeadingZeroes:
  assumes "guest_reg Dst" "guest_reg Src" "count_size Size"
  shows "computes step (Op_CountLeadingZeroes Size Dst Src) s Dst (\<lambda>v. v = of_nat (leading_zeroes_in Size (gpr s Src)))"
  using assms(3,1,2) by (cases rule: count_size_cases)
    (auto simp: computes_def Op_CountLeadingZeroes_def step_zext step_cntlzd step_addi leading_zeroes_in_def countl_zero_zext)

lemma computes_FindTrailingZeroes:
  assumes "guest_reg Dst" "guest_reg Src" "count_size Size"
  shows "computes step (Op_FindTrailingZeroes Size Dst Src) s Dst (\<lambda>v. v = of_nat (trailing_zeroes_in Size (gpr s Src)))"
  using assms(3,1,2) by (cases rule: count_size_cases)
    (auto simp: computes_def Op_FindTrailingZeroes_def zext_to_def narrow_def step_zext step_addi not_r_def step_nor step_and step_popcntd
      trailing_zeroes_in_def popcount_zext popcount_trailing popcount_trailing_narrow)

lemma computes_FindLSB:
  assumes "guest_reg Dst" "guest_reg Src" "count_size Size"
    and "case Size of i8Bit \<Rightarrow> (ucast (gpr s Src) :: u8) \<noteq> 0 | i16Bit \<Rightarrow> (ucast (gpr s Src) :: u16) \<noteq> 0
      | i32Bit \<Rightarrow> (ucast (gpr s Src) :: u32) \<noteq> 0 | _ \<Rightarrow> gpr s Src \<noteq> 0"
  shows "computes step (Op_FindLSB Size Dst Src) s Dst (\<lambda>v. v = of_nat (trailing_zeroes_in Size (gpr s Src)))"
  using assms(3,1,2,4) by (cases rule: count_size_cases)
    (auto simp: computes_def Op_FindLSB_def size_le_32_def step_neg step_and step_cntlzw step_cntlzd step_li step_subf
      trailing_zeroes_in_def cntlz_isolated low_nonzero countr_zero_low)

lemma computes_FindMSB:
  assumes "guest_reg Dst" "guest_reg Src" "gpr_size Size" "if Size = i32Bit then (ucast (gpr s Src) :: u32) \<noteq> 0 else gpr s Src \<noteq> 0"
  shows "computes step (Op_FindMSB Size Dst Src) s Dst (\<lambda>v. v = of_nat (size_bits Size - 1 - leading_zeroes_in Size (gpr s Src)))"
proof -
  have d: "c - of_nat n = (of_nat (m - n) :: u64)" if "n \<le> m" "c = of_nat m" for c n m
    using that by (simp add: of_nat_diff)
  have "x \<noteq> 0 \<Longrightarrow> 63 - of_nat (countl_zero x) = (of_nat (63 - countl_zero x) :: u64)"
    "y \<noteq> 0 \<Longrightarrow> 31 - of_nat (countl_zero y) = (of_nat (31 - countl_zero y) :: u64)" for x :: u64 and y :: u32
    using countl_zero_spec(1) [of x] countl_zero_spec(1) [of y] by (auto intro!: d)
  with assms(3,1,2,4) show ?thesis by (cases rule: gpr_size_cases)
    (auto simp: computes_def Op_FindMSB_def size_le_32_def step_cntlzw step_cntlzd step_li step_subf leading_zeroes_in_def size_bits_def)
qed

end

subsection \<open>The generated code\<close>

text \<open>Population count, count of leading zeroes and count of trailing zeroes (\<open>DEF_OP(Popcount)\<close>, \<open>CountLeadingZeroes\<close>,
  \<open>FindTrailingZeroes\<close>) count in the low 8, 16, 32 or 64 bits of the source whatever the bits above hold, a zero source included.\<close>
lemma counts_correct:
  assumes "guest_reg Dst" "guest_reg Src" "count_size Size"
  shows "computes isa_step (Op_Popcount Size Dst Src) s Dst (\<lambda>v. v = of_nat (ones_in Size (gpr s Src))) \<and>
    computes isa_step (Op_CountLeadingZeroes Size Dst Src) s Dst (\<lambda>v. v = of_nat (leading_zeroes_in Size (gpr s Src))) \<and>
    computes isa_step (Op_FindTrailingZeroes Size Dst Src) s Dst (\<lambda>v. v = of_nat (trailing_zeroes_in Size (gpr s Src)))"
  using ppc.computes_Popcount [OF assms] ppc.computes_CountLeadingZeroes [OF assms] ppc.computes_FindTrailingZeroes [OF assms] by blast

text \<open>The bit scans (\<open>DEF_OP(FindLSB)\<close> at every size, \<open>DEF_OP(FindMSB)\<close> at 32 and 64 bits) give the index of the lowest and of
  the highest set bit of a source that has one.\<close>
lemma bit_scans_correct:
  assumes "guest_reg Dst" "guest_reg Src" "gpr_size Size" "if Size = i32Bit then (ucast (gpr s Src) :: u32) \<noteq> 0 else gpr s Src \<noteq> 0"
  shows "computes isa_step (Op_FindLSB Size Dst Src) s Dst (\<lambda>v. v = of_nat (trailing_zeroes_in Size (gpr s Src))) \<and>
    computes isa_step (Op_FindMSB Size Dst Src) s Dst (\<lambda>v. v = of_nat (size_bits Size - 1 - leading_zeroes_in Size (gpr s Src)))"
proof -
  have "count_size Size" using assms(3) by (auto simp: gpr_size_def count_size_def)
  then show ?thesis using ppc.computes_FindLSB [OF assms(1,2)] ppc.computes_FindMSB [OF assms] assms(3,4)
    by (auto simp: gpr_size_def)
qed

text \<open>
  At 16 bits \<open>DEF_OP(FindMSB)\<close> counts in the low word without clearing bits 16 to 31, although \<open>BSR\<close> with a 16-bit operand loads its
  source with the bits above it left as they are: the highest bit found may lie outside the operand.
\<close>
lemma FindMSB_16_reads_garbage:
  "computes isa_step (Op_FindMSB i16Bit 8 7) (machine_at [(7, 0x10001)]) 8 (\<lambda>v. v = 16)"
proof -
  have "countl_zero (0x10001 :: u32) = 15" by (simp add: countl_zero_def upt_rec)
  then show ?thesis
    by (simp add: computes_def Op_FindMSB_def size_le_32_def ppc.step_cntlzw ppc.step_li ppc.step_subf guest_regs_decide)
qed

end
