(* ===== verification/Alu_Fields.thy ===== *)
theory Alu_Fields
  imports Alu_Bits
begin

text \<open>
  Bit-field extraction and insertion, double-register extraction, byte reversal of words and half words, mask
  generation and parity of \<open>JIT/PPC64LE/ALUOps.cpp\<close>.  The destination may share its register with a source:
  the handlers that write it early first move the endangered source to a scratch register, and the lemmas cover
  every aliasing.
\<close>

subsection \<open>Handlers\<close>

definition Op_Bfe :: "OpSize \<Rightarrow> bool \<Rightarrow> u8 \<Rightarrow> u8 \<Rightarrow> GPR \<Rightarrow> GPR \<Rightarrow> insn list" where
  "Op_Bfe Size Elided Width lsb Dst Src =
     (let width = (ucast Width :: u32); l = (ucast lsb :: u32) in
      if width = 32 \<and> l = 0 \<and> OpSizeToSize i32Bit < OpSizeToSize Size \<and> Elided then mr_unless_same Dst Src
      else if size_le_32 Size then [rlwinm Dst Src ((32 - l) AND 31) (32 - width) 31]
      else [rldicl Dst Src ((64 - l) AND 63) (64 - width)])"

definition zext_if_32 :: "OpSize \<Rightarrow> GPR \<Rightarrow> insn list" where
  "zext_if_32 Size Dst = (if size_le_32 Size then [rldicl Dst Dst 0 32] else [])"

definition Op_Sbfe :: "OpSize \<Rightarrow> u8 \<Rightarrow> u8 \<Rightarrow> GPR \<Rightarrow> GPR \<Rightarrow> insn list" where
  "Op_Sbfe Size Width lsb Dst Src =
     (let width = (ucast Width :: u32); l = (ucast lsb :: u32) in
      if l = 0 \<and> width = 8 then [extsb Dst Src] @ zext_if_32 Size Dst
      else if l = 0 \<and> width = 16 then [extsh Dst Src] @ zext_if_32 Size Dst
      else if l = 0 \<and> width = 32 then [extsw Dst Src] @ zext_if_32 Size Dst
      else if size_le_32 Size then
        [rlwinm TMP1 Src ((32 - l) AND 31) (32 - width) 31, rldicl TMP2 TMP1 (64 - (width - 1)) 63, neg TMP2 TMP2,
         sldi TMP2 TMP2 width, or_r Dst TMP1 TMP2, rldicl Dst Dst 0 32]
      else
        [rldicl TMP1 Src ((64 - l) AND 63) (64 - width), rldicl TMP2 TMP1 (64 - (width - 1)) 63, neg TMP2 TMP2] @
        (if width < 64 then [sldi TMP2 TMP2 width, or_r Dst TMP1 TMP2] else [mr Dst TMP1]))"

definition stash_source :: "GPR \<Rightarrow> GPR \<Rightarrow> GPR \<Rightarrow> insn list \<times> GPR" where
  "stash_source Dst S1 Src = (if Dst = Src \<and> Dst \<noteq> S1 then ([mr TMP3 Src], TMP3) else ([], Src))"

definition Op_Bfi :: "OpSize \<Rightarrow> u8 \<Rightarrow> u8 \<Rightarrow> GPR \<Rightarrow> GPR \<Rightarrow> GPR \<Rightarrow> insn list" where
  "Op_Bfi Size Width lsb Dst S1 Src0 =
     (let width = (ucast Width :: u32); l = (ucast lsb :: u32); (stash, Src) = stash_source Dst S1 Src0 in
      stash @ mr_unless_same Dst S1 @
      (if size_le_32 Size then [rlwimi Dst Src l (32 - l - width) (31 - l)] else [rldimi Dst Src l (64 - l - width)]))"

definition Op_Bfxil :: "OpSize \<Rightarrow> u8 \<Rightarrow> u8 \<Rightarrow> GPR \<Rightarrow> GPR \<Rightarrow> GPR \<Rightarrow> insn list" where
  "Op_Bfxil Size Width lsb Dst S1 Src0 =
     (let width = (ucast Width :: u32); l = (ucast lsb :: u32); (stash, Src) = stash_source Dst S1 Src0 in
      stash @ mr_unless_same Dst S1 @
      (if size_le_32 Size then
         if l = 0 then [rlwimi Dst Src 0 (32 - width) 31]
         else [rlwinm TMP1 Src ((32 - l) AND 31) (32 - width) 31, rlwimi Dst TMP1 0 (32 - width) 31]
       else
         if l = 0 then [rldimi Dst Src 0 (64 - width)]
         else [rldicl TMP1 Src ((64 - l) AND 63) (64 - width), rldimi Dst TMP1 0 (64 - width)]))"

definition Op_Extr :: "OpSize \<Rightarrow> u8 \<Rightarrow> GPR \<Rightarrow> GPR \<Rightarrow> GPR \<Rightarrow> insn list" where
  "Op_Extr Size LSB Dst S1 S2 =
     (let sh = (ucast LSB :: u32) in
      if size_le_32 Size then
        if sh = 0 then mr_unless_same Dst S2 @ [rldicl Dst Dst 0 32]
        else [rlwinm TMP1 S1 (32 - sh) 0 (sh - 1), rlwinm TMP2 S2 (32 - sh) sh 31, or_r Dst TMP1 TMP2, rldicl Dst Dst 0 32]
      else
        if sh = 0 then mr_unless_same Dst S2
        else [srdi TMP1 S2 sh, sldi TMP2 S1 (64 - sh), or_r Dst TMP1 TMP2])"

definition Op_MaskGenerateFromBitWidth :: "GPR \<Rightarrow> GPR \<Rightarrow> insn list" where
  "Op_MaskGenerateFromBitWidth Dst BitWidth = [li TMP1 (- 1), neg TMP2 BitWidth, rldicl TMP2 TMP2 0 58, srd Dst TMP1 TMP2]"

definition Op_Parity :: "bool \<Rightarrow> GPR \<Rightarrow> GPR \<Rightarrow> insn list" where
  "Op_Parity Invert Dst Raw =
     [rldicl TMP1 Raw 0 56, popcntd TMP1 TMP1, rldicl Dst TMP1 0 63] @ (if Invert then [xori Dst Dst 1] else [])"

subsection \<open>Fields as rotations under a mask\<close>

definition bits_of :: "nat \<Rightarrow> nat \<Rightarrow> u64 \<Rightarrow> u64" where
  "bits_of w l x = take_bit w (drop_bit l x)"

lemma bit_bits_of: "bit (bits_of w l x) i \<longleftrightarrow> i < w \<and> bit x (i + l)"
  by (auto simp: bits_of_def bit_take_bit_iff bit_drop_bit_eq ac_simps dest: bit_imp_le_length)

lemma field64:
  assumes "0 < w" "w + l \<le> 64"
  shows "word_rotl ((64 - l) mod 64) x AND mask64 (64 - w) 63 = bits_of w l x"
proof (rule bit_word_eqI)
  fix i :: nat assume "i < LENGTH(64)"
  then show "bit (word_rotl ((64 - l) mod 64) x AND mask64 (64 - w) 63) i \<longleftrightarrow> bit (bits_of w l x) i"
    using assms by (cases "l = 0"; cases "i < w")
      (auto simp: bit_and_iff bit_word_rotl_iff bit_mask64 bit_bits_of mod_if ac_simps dest: bit_imp_le_length)
qed

lemma field32:
  assumes "0 < w" "w + l \<le> 32"
  shows "rotl32 ((32 - l) mod 32) x AND mask64 (64 - w) 63 = bits_of w l x"
proof -
  have "ucast (word_rotl ((32 - l) mod 32) (ucast x :: u32)) AND mask64 (64 - w) 63 = bits_of w l x"
  proof (rule bit_word_eqI)
    fix i :: nat assume "i < LENGTH(64)"
    then show "bit (ucast (word_rotl ((32 - l) mod 32) (ucast x :: u32)) AND mask64 (64 - w) 63) i \<longleftrightarrow> bit (bits_of w l x) i"
      using assms by (cases "l = 0"; cases "i < w")
        (auto simp: bit_and_iff bit_unsigned_iff bit_word_rotl_iff bit_mask64 bit_bits_of mod_if ac_simps dest: bit_imp_le_length)
  qed
  then show ?thesis using assms rotl32_masked [of "32 - w" 31 "(32 - l) mod 32" x] by (simp add: add.commute)
qed

definition sbits_of :: "nat \<Rightarrow> nat \<Rightarrow> u64 \<Rightarrow> u64" where
  "sbits_of w l x = signed_take_bit (w - 1) (drop_bit l x)"

lemma sign_extended_field:
  assumes "0 < w" "w < 64"
  shows "bits_of w l x OR push_bit w (- (word_rotl ((65 - w) mod 64) (bits_of w l x) AND mask64 63 63)) = sbits_of w l x"
proof -
  have "word_rotl ((65 - w) mod 64) (bits_of w l x) AND mask64 63 63 = of_bool (bit x (w - 1 + l))"
  proof (rule bit_word_eqI)
    fix i :: nat assume "i < LENGTH(64)"
    then show "bit (word_rotl ((65 - w) mod 64) (bits_of w l x) AND mask64 63 63) i \<longleftrightarrow> bit (of_bool (bit x (w - 1 + l)) :: u64) i"
      using assms by (cases "i = 0"; cases "w = 1") (auto simp: bit_and_iff bit_word_rotl_iff bit_mask64 bit_bits_of bit_1_iff)
  qed
  then have f: "- (word_rotl ((65 - w) mod 64) (bits_of w l x) AND mask64 63 63) = (if bit x (w - 1 + l) then - 1 else 0)" by simp
  show ?thesis
  proof (rule bit_word_eqI)
    fix i :: nat assume "i < LENGTH(64)"
    then have "i < 64" by simp
    then consider "i < w" "min (w - 1) i = i" "i - w < 64" | "w \<le> i" "\<not> i < w" "min (w - 1) i = w - 1" "i - w < 64"
      by (cases "i < w") auto
    then show "bit (bits_of w l x OR push_bit w (- (word_rotl ((65 - w) mod 64) (bits_of w l x) AND mask64 63 63))) i \<longleftrightarrow>
        bit (sbits_of w l x) i"
      unfolding f using \<open>i < 64\<close>
      by cases (simp_all add: bit_or_iff bit_push_bit_iff bit_bits_of sbits_of_def bit_signed_take_bit_iff bit_drop_bit_eq add.commute)
  qed
qed

lemma sbits_of_ext: "(scast (ucast x :: u8) :: u64) = sbits_of 8 0 x" "(scast (ucast x :: u16) :: u64) = sbits_of 16 0 x"
    "(scast (ucast x :: u32) :: u64) = sbits_of 32 0 x"
  unfolding sbits_of_def by (rule bit_word_eqI, auto simp: bit_signed_iff bit_unsigned_iff bit_signed_take_bit_iff min_def)+

definition put_field :: "nat \<Rightarrow> nat \<Rightarrow> u64 \<Rightarrow> u64 \<Rightarrow> u64" where
  "put_field w l v old = push_bit l (take_bit w v) OR (old AND NOT (push_bit l (mask w)))"

lemma bit_put_field: "i < 64 \<Longrightarrow> bit (put_field w l v old) i \<longleftrightarrow> (if l \<le> i \<and> i < l + w then bit v (i - l) else bit old i)"
  unfolding put_field_def
  by (auto simp: bit_or_iff bit_and_iff bit_not_iff bit_push_bit_iff bit_take_bit_iff bit_mask_iff simp del: push_bit_mask_eq)

lemma insert64:
  assumes "0 < w" "w + l \<le> 64"
  shows "insert_mask (mask64 (64 - l - w) (63 - l)) (word_rotl l x) old = put_field w l x old"
proof (rule bit_word_eqI)
  fix i :: nat assume i: "i < LENGTH(64)"
  then show "bit (insert_mask (mask64 (64 - l - w) (63 - l)) (word_rotl l x) old) i \<longleftrightarrow> bit (put_field w l x old) i"
    using assms by (cases "l \<le> i"; cases "i < l + w")
      (auto simp: insert_mask_def bit_put_field bit_or_iff bit_and_iff bit_not_iff bit_mask64 bit_word_rotl_iff mod_if)
qed

lemma insert32:
  assumes "0 < w" "w + l \<le> 32"
  shows "insert_mask (mask64 (64 - l - w) (63 - l)) (rotl32 l x) old = put_field w l x old"
proof (rule bit_word_eqI)
  fix i :: nat assume i: "i < LENGTH(64)"
  then show "bit (insert_mask (mask64 (64 - l - w) (63 - l)) (rotl32 l x) old) i \<longleftrightarrow> bit (put_field w l x old) i"
    using assms by (cases "l \<le> i"; cases "i < l + w")
      (auto simp: insert_mask_def rotl32_def Let_def bit_put_field bit_or_iff bit_and_iff bit_not_iff bit_mask64 bit_push_bit_iff
        bit_unsigned_iff bit_word_rotl_iff mod_if)
qed

lemma put_bits_of: "put_field w 0 (bits_of w l x) old = put_field w 0 (drop_bit l x) old"
  by (rule bit_word_eqI) (auto simp: bit_put_field bit_bits_of bit_drop_bit_eq ac_simps)

subsection \<open>Correctness\<close>

definition field_ok :: "OpSize \<Rightarrow> u8 \<Rightarrow> u8 \<Rightarrow> bool" where
  "field_ok Size Width lsb \<longleftrightarrow> gpr_size Size \<and> 0 < unat Width \<and> unat Width + unat lsb \<le> size_bits Size"

lemma u32_fields:
  fixes w l :: u32
  assumes "0 < unat w" "unat w + unat l \<le> 64"
  shows "unat (64 - w) = 64 - unat w" "unat (64 - l - w) = 64 - unat l - unat w" "unat (63 - l) = 63 - unat l"
    "unat (64 - (w - 1)) = 65 - unat w"
proof -
  have w1: "unat (w - 1) = unat w - 1" using assms(1) by (simp add: unat_gt_0 unat_minus_one)
  show "unat (64 - w) = 64 - unat w" "unat (63 - l) = 63 - unat l" using assms by (simp_all add: u32_sub)
  show "unat (64 - (w - 1)) = 65 - unat w" using assms w1 u32_sub(1) [of "w - 1"] by simp
  have "w \<le> 64 - l" using assms by (simp add: word_le_nat_alt u32_sub)
  then show "unat (64 - l - w) = 64 - unat l - unat w" using assms by (simp add: unat_sub u32_sub)
qed

lemma u32_fields_32:
  fixes w l :: u32
  assumes "0 < unat w" "unat w + unat l \<le> 32"
  shows "unat (32 - w) = 32 - unat w" "32 - w < 32" "unat (32 - l - w) = 32 - unat l - unat w" "32 - l - w < 32"
    "unat (31 - l) = 31 - unat l" "31 - l < 32" "l < 32" "(32 - l) AND 31 < 32" "unat ((32 - l) AND 31) = (32 - unat l) mod 32"
proof -
  show a: "unat (32 - w) = 32 - unat w" "unat (31 - l) = 31 - unat l" "unat ((32 - l) AND 31) = (32 - unat l) mod 32"
    using assms by (simp_all add: u32_sub u32_mod_32)
  have "w \<le> 32 - l" using assms by (simp add: word_le_nat_alt u32_sub)
  then show b: "unat (32 - l - w) = 32 - unat l - unat w" using assms by (simp add: unat_sub u32_sub)
  show "32 - w < 32" "32 - l - w < 32" "31 - l < 32" "l < 32" "(32 - l) AND 31 < 32"
    using assms a b by (simp_all add: word_less_nat_alt)
qed

context ppc_isa
begin

lemma step_field64:
  assumes "0 < unat w" "unat w + unat l \<le> 64"
  shows "exec step (rldicl ra rs ((64 - l) AND 63) (64 - w)) s = Some (setr ra (bits_of (unat w) (unat l) (gpr s rs)) s)"
  using assms by (simp add: step_rldicl u32_fields u32_mod_64 u32_sub field64)

lemma step_field32:
  assumes "0 < unat w" "unat w + unat l \<le> 32"
  shows "exec step (rlwinm ra rs ((32 - l) AND 31) (32 - w) 31) s = Some (setr ra (bits_of (unat w) (unat l) (gpr s rs)) s)"
  using assms by (simp add: step_rlwinm u32_fields_32 field32)

lemma step_insert64:
  assumes "0 < unat w" "unat w + unat l \<le> 64"
  shows "exec step (rldimi ra rs l (64 - l - w)) s = Some (setr ra (put_field (unat w) (unat l) (gpr s rs) (gpr s ra)) s)"
  using assms by (simp add: step_rldimi u32_fields flip: insert64)

lemma step_insert32:
  assumes "0 < unat w" "unat w + unat l \<le> 32"
  shows "exec step (rlwimi ra rs l (32 - l - w) (31 - l)) s = Some (setr ra (put_field (unat w) (unat l) (gpr s rs) (gpr s ra)) s)"
  using assms by (simp add: step_rlwimi u32_fields_32 flip: insert32)

lemma computes_Bfe:
  assumes "guest_reg Dst" "guest_reg Src" "field_ok Size Width lsb"
  shows "computes step (Op_Bfe Size Elided Width lsb Dst Src) s Dst
    (\<lambda>v. if Elided \<and> Size = i64Bit \<and> Width = 32 \<and> lsb = 0 then (ucast v :: u32) = ucast (gpr s Src)
      else v = bits_of (unat Width) (unat lsb) (gpr s Src))"
proof -
  define w l where "w = (ucast Width :: u32)" and "l = (ucast lsb :: u32)"
  have n: "unat w = unat Width" "unat l = unat lsb" by (simp_all add: w_def l_def unat_u8_u32)
  have e: "w = 32 \<longleftrightarrow> Width = 32" "l = 0 \<longleftrightarrow> lsb = 0"
    using n by (auto simp: word_unat_eq_iff)
  have ok: "0 < unat w" "unat w + unat l \<le> size_bits Size" and "gpr_size Size" using assms(3) n by (auto simp: field_ok_def)
  from this(3) show ?thesis
  proof (cases rule: gpr_size_cases)
    case i32
    then show ?thesis using ok step_field32 [of w l Dst Src s]
      by (simp add: computes_def Op_Bfe_def w_def [symmetric] l_def [symmetric] n [symmetric] size_le_32_def size_bits_def)
  next
    case i64
    then show ?thesis using ok step_field64 [of w l Dst Src s]
      by (simp add: computes_def Op_Bfe_def w_def [symmetric] l_def [symmetric] e n [symmetric] size_le_32_def size_bits_def
          run_mr_unless_same)
  qed
qed

lemma run_Cons: "exec step i s = Some s' \<Longrightarrow> run step (i # is) s = run step is s'"
  by simp

lemma run_sign_fill:
  assumes "0 < unat w" "unat w < 64"
  shows "run step [rldicl TMP2 TMP1 (64 - (w - 1)) 63, neg TMP2 TMP2, sldi TMP2 TMP2 w, or_r Dst TMP1 TMP2] (setr TMP1 (bits_of (unat w) l x) s) =
    Some (setr Dst (sbits_of (unat w) l x)
      (setr TMP2 (push_bit (unat w) (- (word_rotl ((65 - unat w) mod 64) (bits_of (unat w) l x) AND mask64 63 63)))
        (setr TMP1 (bits_of (unat w) l x) s)))"
  using u32_fields(4) [of w 0] assms sign_extended_field [OF assms, of l x]
  by (simp add: step_rldicl step_neg step_sldi_u32 step_or)

lemma computes_Sbfe:
  assumes "guest_reg Dst" "guest_reg Src" "field_ok Size Width lsb"
  shows "computes step (Op_Sbfe Size Width lsb Dst Src) s Dst
    (\<lambda>v. result_is Size False v (sbits_of (unat Width) (unat lsb) (gpr s Src)))"
proof -
  define w l where "w = (ucast Width :: u32)" and "l = (ucast lsb :: u32)"
  have n: "unat w = unat Width" "unat l = unat lsb" by (simp_all add: w_def l_def unat_u8_u32)
  have ok: "0 < unat w" "unat w + unat l \<le> size_bits Size" and g: "gpr_size Size" using assms(3) n by (auto simp: field_ok_def)
  note ext = computes_def zext_if_32_def result_is_def step_extsb step_extsh step_extsw step_zext32 sbits_of_ext
  show ?thesis
  proof (cases "l = 0 \<and> (w = 8 \<or> w = 16 \<or> w = 32)")
    case True
    then have l0: "unat lsb = 0" "l = 0" using n by auto
    from True consider "w = 8" "unat Width = 8" | "w = 16" "unat Width = 16" | "w = 32" "unat Width = 32" using n(1) by force
    then show ?thesis
    proof cases
      case 1
      then have "Op_Sbfe Size Width lsb Dst Src = [extsb Dst Src] @ zext_if_32 Size Dst"
        using l0(2) by (simp add: Op_Sbfe_def flip: w_def l_def)
      then show ?thesis using 1 l0 size_le_32_iff [OF g] by (simp add: ext)
    next
      case 2
      then have "Op_Sbfe Size Width lsb Dst Src = [extsh Dst Src] @ zext_if_32 Size Dst"
        using l0(2) by (simp add: Op_Sbfe_def flip: w_def l_def)
      then show ?thesis using 2 l0 size_le_32_iff [OF g] by (simp add: ext)
    next
      case 3
      then have "Op_Sbfe Size Width lsb Dst Src = [extsw Dst Src] @ zext_if_32 Size Dst"
        using l0(2) by (simp add: Op_Sbfe_def flip: w_def l_def)
      then show ?thesis using 3 l0 size_le_32_iff [OF g] by (simp add: ext)
    qed
  next
    case False
    then have nl: "(l = 0 \<and> w = 8) = False" "(l = 0 \<and> w = 16) = False" "(l = 0 \<and> w = 32) = False" by auto
    note general = Op_Sbfe_def [of Size Width lsb Dst Src, unfolded Let_def, folded w_def l_def, unfolded nl if_False]
    from g show ?thesis
    proof (cases rule: gpr_size_cases)
      case i32
      then have *: "unat w + unat l \<le> 32" "unat w < 64" using ok by (simp_all add: size_bits_def)
      have "Op_Sbfe Size Width lsb Dst Src = rlwinm TMP1 Src ((32 - l) AND 31) (32 - w) 31 #
        [rldicl TMP2 TMP1 (64 - (w - 1)) 63, neg TMP2 TMP2, sldi TMP2 TMP2 w, or_r Dst TMP1 TMP2] @ [rldicl Dst Dst 0 32]"
        unfolding general by (simp add: i32 size_le_32_def)
      then show ?thesis
        by (simp only: computes_def run_Cons [OF step_field32 [OF ok(1) *(1)]] option.case run_append run_sign_fill [OF ok(1) *(2)])
          (simp add: step_zext32 i32 result_is_def n)
    next
      case i64
      then have *: "unat w + unat l \<le> 64" using ok by (simp add: size_bits_def)
      show ?thesis
      proof (cases "unat w < 64")
        case True
        then have "Op_Sbfe Size Width lsb Dst Src = rldicl TMP1 Src ((64 - l) AND 63) (64 - w) #
          [rldicl TMP2 TMP1 (64 - (w - 1)) 63, neg TMP2 TMP2, sldi TMP2 TMP2 w, or_r Dst TMP1 TMP2]"
          unfolding general by (simp add: i64 size_le_32_def word_less_nat_alt)
        then show ?thesis
          by (simp only: computes_def run_Cons [OF step_field64 [OF ok(1) *]] run_sign_fill [OF ok(1) True]) (simp add: i64 result_is_def n)
      next
        case full: False
        then have "unat w = 64" "unat l = 0" using * by auto
        moreover have "bits_of 64 0 x = sbits_of 64 0 x" for x
          by (rule bit_word_eqI) (simp add: bit_bits_of sbits_of_def bit_signed_take_bit_iff)
        ultimately show ?thesis using i64 step_field64 [OF ok(1) *, of TMP1 Src s]
          unfolding computes_def general n [symmetric]
          by (simp add: size_le_32_def step_rldicl [of TMP2] step_neg step_mr word_less_nat_alt result_is_def)
      qed
    qed
  qed
qed

lemma run_stash:
  assumes "guest_reg Dst" "guest_reg S1" "guest_reg Src0"
  obtains stash Src s1 where "stash_source Dst S1 Src0 = (stash, Src)" "run step (stash @ mr_unless_same Dst S1) s = Some s1"
    "keeps (insert Dst scratch) s s1" "gpr s1 Dst = gpr s S1" "gpr s1 Src = gpr s Src0" "Src \<noteq> TMP1"
proof (cases "Dst = Src0 \<and> Dst \<noteq> S1")
  case True
  with assms show thesis
    by (intro that [of "[mr TMP3 Src0]" TMP3 "setr Dst (gpr s S1) (setr TMP3 (gpr s Src0) s)"])
      (auto simp: stash_source_def run_append step_mr run_mr_unless_same)
next
  case False
  with assms show thesis
    by (intro that [of "[]" Src0 "setr Dst (gpr s S1) s"]) (auto simp: stash_source_def run_mr_unless_same)
qed

lemma computes_after:
  assumes "run step pre s = Some s1" "keeps (insert Dst scratch) s s1" "computes step is s1 Dst ok"
  shows "computes step (pre @ is) s Dst ok"
  using assms unfolding computes_def keeps_def by (force simp: run_append)

lemma computes_Bfi:
  assumes "guest_reg Dst" "guest_reg S1" "guest_reg Src" "field_ok Size Width lsb"
  shows "computes step (Op_Bfi Size Width lsb Dst S1 Src) s Dst
    (\<lambda>v. v = put_field (unat Width) (unat lsb) (gpr s Src) (gpr s S1))"
proof -
  define w l where "w = (ucast Width :: u32)" and "l = (ucast lsb :: u32)"
  have n: "unat w = unat Width" "unat l = unat lsb" by (simp_all add: w_def l_def unat_u8_u32)
  have ok: "0 < unat w" "unat w + unat l \<le> size_bits Size" and g: "gpr_size Size" using assms(4) n by (auto simp: field_ok_def)
  obtain stash Src' s1 where st: "stash_source Dst S1 Src = (stash, Src')" "run step (stash @ mr_unless_same Dst S1) s = Some s1"
    "keeps (insert Dst scratch) s s1" "gpr s1 Dst = gpr s S1" "gpr s1 Src' = gpr s Src"
    using run_stash [OF assms(1-3)] by metis
  let ?i = "if size_le_32 Size then [rlwimi Dst Src' l (32 - l - w) (31 - l)] else [rldimi Dst Src' l (64 - l - w)]"
  have "computes step ?i s1 Dst (\<lambda>v. v = put_field (unat w) (unat l) (gpr s Src) (gpr s S1))"
    using g ok st(4,5) by (cases rule: gpr_size_cases)
      (simp_all add: computes_def size_le_32_def size_bits_def step_insert32 step_insert64)
  from computes_after [OF st(2,3) this] show ?thesis by (simp add: Op_Bfi_def st(1) n flip: w_def l_def)
qed

lemma step_insert_low:
  assumes "0 < unat w"
  shows "unat w \<le> 64 \<Longrightarrow> exec step (rldimi ra rs 0 (64 - w)) s = Some (setr ra (put_field (unat w) 0 (gpr s rs) (gpr s ra)) s)"
    and "unat w \<le> 32 \<Longrightarrow> exec step (rlwimi ra rs 0 (32 - w) 31) s = Some (setr ra (put_field (unat w) 0 (gpr s rs) (gpr s ra)) s)"
  using assms step_insert64 [of w 0 ra rs s] step_insert32 [of w 0 ra rs s] by simp_all

lemma computes_Bfxil:
  assumes "guest_reg Dst" "guest_reg S1" "guest_reg Src" "field_ok Size Width lsb"
  shows "computes step (Op_Bfxil Size Width lsb Dst S1 Src) s Dst
    (\<lambda>v. v = put_field (unat Width) 0 (drop_bit (unat lsb) (gpr s Src)) (gpr s S1))"
proof -
  define w l where "w = (ucast Width :: u32)" and "l = (ucast lsb :: u32)"
  have n: "unat w = unat Width" "unat l = unat lsb" by (simp_all add: w_def l_def unat_u8_u32)
  have ok: "0 < unat w" "unat w + unat l \<le> size_bits Size" and g: "gpr_size Size" using assms(4) n by (auto simp: field_ok_def)
  obtain stash Src' s1 where st: "stash_source Dst S1 Src = (stash, Src')" "run step (stash @ mr_unless_same Dst S1) s = Some s1"
    "keeps (insert Dst scratch) s s1" "gpr s1 Dst = gpr s S1" "gpr s1 Src' = gpr s Src"
    using run_stash [OF assms(1-3)] by metis
  let ?i = "if size_le_32 Size then
         if l = 0 then [rlwimi Dst Src' 0 (32 - w) 31]
         else [rlwinm TMP1 Src' ((32 - l) AND 31) (32 - w) 31, rlwimi Dst TMP1 0 (32 - w) 31]
       else
         if l = 0 then [rldimi Dst Src' 0 (64 - w)]
         else [rldicl TMP1 Src' ((64 - l) AND 63) (64 - w), rldimi Dst TMP1 0 (64 - w)]"
  have "computes step ?i s1 Dst (\<lambda>v. v = put_field (unat w) 0 (drop_bit (unat l) (gpr s Src)) (gpr s S1))"
    using g ok st(4,5) assms(1) by (cases rule: gpr_size_cases)
      (simp_all add: computes_def size_le_32_def size_bits_def step_insert_low step_field32 step_field64 put_bits_of)
  from computes_after [OF st(2,3) this] show ?thesis by (simp add: Op_Bfxil_def st(1) n flip: w_def l_def)
qed

lemma computes_Extr:
  assumes "guest_reg Dst" "guest_reg S1" "guest_reg S2" "gpr_size Size" "unat LSB < size_bits Size"
  shows "computes step (Op_Extr Size LSB Dst S1 S2) s Dst
    (\<lambda>v. v = (if Size = i32Bit
      then ucast (ucast (drop_bit (unat LSB) (word_cat (ucast (gpr s S1) :: u32) (ucast (gpr s S2) :: u32) :: u64)) :: u32)
      else ucast (drop_bit (unat LSB) (word_cat (gpr s S1) (gpr s S2) :: 128 word))))"
proof -
  define sh where "sh = (ucast LSB :: u32)"
  have n: "unat sh = unat LSB" by (simp add: sh_def unat_u8_u32)
  have z: "sh = 0 \<longleftrightarrow> unat sh = 0" by (simp add: unat_eq_0)
  have cat64: "ucast (drop_bit k (word_cat (a :: u64) (b :: u64) :: 128 word)) = drop_bit k b OR push_bit (64 - k) a" if "k < 64" for a b k
    using that by (intro bit_word_eqI) (auto simp: bit_unsigned_iff bit_drop_bit_eq bit_word_cat_iff bit_or_iff bit_push_bit_iff add.commute [of k] dest: bit_imp_le_length)
  have cat32: "ucast (drop_bit k (word_cat (a :: u32) (b :: u32) :: u64)) = push_bit (32 - k) a OR drop_bit k b" if "k < 32" for a b k
    using that by (intro bit_word_eqI) (auto simp: bit_unsigned_iff bit_drop_bit_eq bit_word_cat_iff bit_or_iff bit_push_bit_iff add.commute [of k] dest: bit_imp_le_length)
  from assms(4) show ?thesis
  proof (cases rule: gpr_size_cases)
    case i32
    then have l: "unat sh < 32" using assms(5) n by (simp add: size_bits_def)
    show ?thesis
    proof (cases "unat sh = 0")
      case True
      then show ?thesis using i32 assms(1-3) cat32 [of 0]
        by (simp add: computes_def Op_Extr_def sh_def [symmetric] z n [symmetric] size_le_32_def run_append run_mr_unless_same step_zext32)
    next
      case False
      have "exec step (rlwinm TMP1 S1 (32 - sh) 0 (sh - 1)) s = Some (setr TMP1 (ucast (push_bit (32 - unat sh) (ucast (gpr s S1) :: u32))) s)"
        using step_slwi [of "32 - sh" TMP1 S1 s] l False by (simp add: u32_sub)
      moreover have "exec step (rlwinm TMP2 S2 (32 - sh) sh 31) t = Some (setr TMP2 (ucast (drop_bit (unat sh) (ucast (gpr t S2) :: u32))) t)" for t
        using step_srwi [of sh TMP2 S2 t] l False u32_turn_mod [of sh] by simp
      ultimately show ?thesis using i32 assms(1-3) l False
        by (simp add: computes_def Op_Extr_def sh_def [symmetric] z n [symmetric] size_le_32_def step_or step_zext32 cat32 low32_bitwise)
    qed
  next
    case i64
    then have l: "unat sh < 64" using assms(5) n by (simp add: size_bits_def)
    then show ?thesis using i64 assms(1-3) cat64 [of 0]
      by (cases "unat sh = 0") (simp_all add: computes_def Op_Extr_def sh_def [symmetric] z n [symmetric] size_le_32_def run_mr_unless_same step_srdi
          step_sldi_u32 step_or u32_sub cat64)
  qed
qed

lemma computes_MaskGenerateFromBitWidth:
  assumes "guest_reg Dst" "guest_reg BitWidth"
  shows "computes step (Op_MaskGenerateFromBitWidth Dst BitWidth) s Dst
    (\<lambda>v. v = (let n = unat (gpr s BitWidth) mod 64 in if n = 0 then - 1 else mask n))"
proof -
  define n where "n = unat (gpr s BitWidth) mod 64"
  have mask64_all: "mask 64 = (- 1 :: u64)" by (simp add: mask_eq_exp_minus_1)
  have c: "unat (word_rotl 0 (- gpr s BitWidth) AND mask64 58 63) = (64 - n) mod 64"
    using unat_neg_mod [of 6 "gpr s BitWidth"] by (simp add: masked_count n_def)
  have "drop_bit (64 - n) (- 1 :: u64) = mask n" if "0 < n" "n < 64"
    using that by (intro bit_word_eqI) (auto simp: bit_drop_bit_eq bit_mask_iff)
  then have "drop_bit ((64 - n) mod 64) (- 1 :: u64) = (if n = 0 then - 1 else mask n)" by (auto simp: n_def mask64_all)
  then show ?thesis using assms
    by (simp add: computes_def Op_MaskGenerateFromBitWidth_def step_li step_neg step_rldicl step_srd c n_def [symmetric])
qed

lemma computes_Parity:
  assumes "guest_reg Dst" "guest_reg Raw"
  shows "computes step (Op_Parity Invert Dst Raw) s Dst
    (\<lambda>v. v = of_bool (odd (popcount (ucast (gpr s Raw) :: u8)) \<noteq> Invert))"
proof -
  have m1: "mask64 63 63 = 1" by (rule bit_word_eqI) (auto simp: bit_mask64 bit_1_iff)
  have "word_rotl 0 (of_nat n) AND mask64 63 63 = (of_bool (odd n) :: u64)" for n
    by (simp add: rotl_zero m1 and_one_eq mod_2_eq_odd even_of_nat)
  then show ?thesis using assms
    by (simp add: computes_def Op_Parity_def step_zext8 step_popcntd popcount_zext step_rldicl [of Dst] step_xori)
qed

end

subsection \<open>The generated code\<close>

text \<open>C25: The bit-field operations extract a field zero- or sign-extended (\<open>DEF_OP(Bfe)\<close>, \<open>Sbfe\<close>) and insert a field from the bottom
  or from the same place of another register (\<open>DEF_OP(Bfi)\<close>, \<open>Bfxil\<close>), for every field that lies within the width and however the
  destination aliases the sources.\<close>
theorem fields_correct:
  assumes "guest_reg Dst" "guest_reg S1" "guest_reg Src" "field_ok Size Width lsb"
  shows "computes isa_step (Op_Bfe Size False Width lsb Dst Src) s Dst (\<lambda>v. v = bits_of (unat Width) (unat lsb) (gpr s Src)) \<and>
    computes isa_step (Op_Sbfe Size Width lsb Dst Src) s Dst (\<lambda>v. result_is Size False v (sbits_of (unat Width) (unat lsb) (gpr s Src))) \<and>
    computes isa_step (Op_Bfi Size Width lsb Dst S1 Src) s Dst (\<lambda>v. v = put_field (unat Width) (unat lsb) (gpr s Src) (gpr s S1)) \<and>
    computes isa_step (Op_Bfxil Size Width lsb Dst S1 Src) s Dst
      (\<lambda>v. v = put_field (unat Width) 0 (drop_bit (unat lsb) (gpr s Src)) (gpr s S1))"
  using ppc.computes_Bfe [OF assms(1,3,4), of False s] ppc.computes_Sbfe [OF assms(1,3,4)] ppc.computes_Bfi [OF assms] ppc.computes_Bfxil [OF assms]
  by simp

theorem fields_correct_witness:
  "computes isa_step (Op_Bfi i64Bit 8 8 7 7 9) (machine_at [(7, 0x1122), (9, 0xABCD)]) 7 (\<lambda>v. v = 0xCD22)"
  using fields_correct [of 7 7 9 i64Bit 8 8 "machine_at [(7, 0x1122), (9, 0xABCD)]"]
  by (simp add: decide_operation field_ok_def computes_def put_field_def mask_eq_exp_minus_1)

text \<open>\<open>DEF_OP(Extr)\<close> extracts a word from the concatenation of its two sources at any bit position below the width, position 0
  included.\<close>
lemma Op_Extr_correct:
  assumes "guest_reg Dst" "guest_reg S1" "guest_reg S2" "gpr_size Size" "unat LSB < size_bits Size"
  shows "computes isa_step (Op_Extr Size LSB Dst S1 S2) s Dst
    (\<lambda>v. v = (if Size = i32Bit
      then ucast (ucast (drop_bit (unat LSB) (word_cat (ucast (gpr s S1) :: u32) (ucast (gpr s S2) :: u32) :: u64)) :: u32)
      else ucast (drop_bit (unat LSB) (word_cat (gpr s S1) (gpr s S2) :: 128 word))))"
  by (rule ppc.computes_Extr [OF assms])

end
