(* ===== verification/Flag_Words.thy ===== *)
theory Flag_Words
  imports Fex_Prelude
begin

text \<open>
  The condition flags of additions and subtractions on words of any width, and the facts that let 64-bit
  instructions produce the flags of narrower operations: an addition of operands shifted to the top of the
  register has the flags of the narrow addition, and the carry and overflow of a 32-bit addition can be read
  from bits 31 and 32 of the sum of the zero-extended operands.
\<close>

record Flags =
  FlagN :: bool
  FlagZ :: bool
  FlagC :: bool
  FlagV :: bool

definition add_flags :: "'a::len word \<Rightarrow> 'a word \<Rightarrow> bool \<Rightarrow> Flags" where
  "add_flags a b c =
     (let r = a + b + of_bool c; S = sint a + sint b + of_bool c in
      \<lparr>FlagN = bit r (LENGTH('a) - 1), FlagZ = (r = 0), FlagC = (2 ^ LENGTH('a) \<le> uint a + uint b + of_bool c),
       FlagV = (\<not> (- (2 ^ (LENGTH('a) - 1)) \<le> S \<and> S < 2 ^ (LENGTH('a) - 1)))\<rparr>)"

text \<open>Subtraction in the convention of the host: a carry means that no borrow was needed.\<close>

definition sub_flags :: "'a::len word \<Rightarrow> 'a word \<Rightarrow> bool \<Rightarrow> Flags" where
  "sub_flags a b c = add_flags a (NOT b) c"

definition logic_flags :: "'a::len word \<Rightarrow> Flags" where
  "logic_flags r = \<lparr>FlagN = bit r (LENGTH('a) - 1), FlagZ = (r = 0), FlagC = False, FlagV = False\<rparr>"

subsection \<open>Signed and unsigned readings\<close>

lemma take_bit_uint: "take_bit LENGTH('a) (uint (w :: 'a::len word)) = uint w"
  by (simp add: take_bit_int_eq_self uint_lt2p)

lemma sint_msb: "sint (w :: 'a::len word) = uint w - 2 ^ LENGTH('a) * of_bool (bit w (LENGTH('a) - 1))"
proof -
  obtain n where n: "LENGTH('a) = Suc n" using len_gt_0 [where 'a = 'a] by (cases "LENGTH('a)") auto
  have "sint w = signed_take_bit n (uint w)" by (simp add: sint_uint n)
  also have "\<dots> = take_bit (Suc n) (uint w) - 2 ^ Suc n * of_bool (bit (uint w) n)"
    by (rule signed_take_bit_eq_take_bit_minus)
  also have "take_bit (Suc n) (uint w) = uint w" using take_bit_uint [of w] by (simp add: n)
  finally show ?thesis by (simp add: n bit_unsigned_iff)
qed

lemma uint_not: "uint (NOT (w :: 'a::len word)) = 2 ^ LENGTH('a) - 1 - uint w"
  by (simp add: unsigned_not_eq take_bit_not_eq_mask_diff mask_eq_exp_minus_1 take_bit_uint)

lemma sint_not: "sint (NOT (w :: 'a::len word)) = - 1 - sint w"
  by (simp add: sint_msb uint_not bit_not_iff)

lemma sint_neg_iff: "sint (w :: 'a::len word) < 0 \<longleftrightarrow> bit w (LENGTH('a) - 1)"
  using uint_lt2p [of w] by (auto simp: sint_msb)

lemma low_of_int:
  assumes "LENGTH('a::len) \<le> LENGTH('b::len)"
  shows "(ucast (word_of_int k :: 'b word) :: 'a word) = word_of_int k"
  using assms by (intro bit_word_eqI) (simp add: bit_unsigned_iff bit_of_int_iff)

lemma low_ring:
  fixes x y :: "'b::len word"
  assumes "LENGTH('a::len) \<le> LENGTH('b)"
  shows "(ucast (x + y) :: 'a word) = ucast x + ucast y" "(ucast (x - y) :: 'a word) = ucast x - ucast y"
proof -
  have e: "x + y = word_of_int (uint x + uint y)" "x - y = word_of_int (uint x - uint y)" by simp_all
  show "(ucast (x + y) :: 'a word) = ucast x + ucast y" "(ucast (x - y) :: 'a word) = ucast x - ucast y"
    unfolding e low_of_int [OF assms] by simp_all
qed

lemma low_not: "LENGTH('a::len) \<le> LENGTH('b::len) \<Longrightarrow> (ucast (NOT (x :: 'b word)) :: 'a word) = NOT (ucast x)"
  by (rule bit_word_eqI) (simp add: bit_unsigned_iff bit_not_iff)

lemma sub_flags_True:
  "sub_flags (a :: 'a::len word) b True =
     \<lparr>FlagN = bit (a - b) (LENGTH('a) - 1), FlagZ = (a = b), FlagC = (b \<le> a),
      FlagV = (\<not> (- (2 ^ (LENGTH('a) - 1)) \<le> sint a - sint b \<and> sint a - sint b < 2 ^ (LENGTH('a) - 1)))\<rparr>"
proof -
  have e: "a + NOT b + 1 = a - b" by (simp add: not_eq_complement)
  show ?thesis
    unfolding sub_flags_def add_flags_def Let_def of_bool_eq e by (simp add: uint_not sint_not word_le_def)
qed

subsection \<open>Operands shifted to the top\<close>

lemma top_uint:
  fixes x :: "'b::len word"
  assumes "LENGTH('a::len) + n = LENGTH('b)"
  shows "uint (push_bit n x) = 2 ^ n * uint (ucast x :: 'a word)"
proof -
  have "uint (push_bit n x) = take_bit LENGTH('b) (push_bit n (uint x))" by (simp add: unsigned_push_bit_eq)
  also have "\<dots> = push_bit n (take_bit LENGTH('a) (uint x))" by (simp add: take_bit_push_bit flip: assms)
  finally show ?thesis by (simp add: push_bit_eq_mult unsigned_ucast_eq ac_simps)
qed

lemma top_bit:
  fixes x :: "'b::len word"
  assumes "LENGTH('a::len) + n = LENGTH('b)"
  shows "bit (push_bit n x) (LENGTH('b) - 1) \<longleftrightarrow> bit (ucast x :: 'a word) (LENGTH('a) - 1)"
proof -
  have "LENGTH('b) - 1 - n = LENGTH('a) - 1" "n \<le> LENGTH('b) - 1" using assms len_gt_0 [where 'a = 'a] by linarith+
  then show ?thesis by (simp add: bit_push_bit_iff bit_unsigned_iff)
qed

lemma top_sint:
  fixes x :: "'b::len word"
  assumes "LENGTH('a::len) + n = LENGTH('b)"
  shows "sint (push_bit n x) = 2 ^ n * sint (ucast x :: 'a word)"
proof -
  have "(2 :: int) ^ LENGTH('b) = 2 ^ n * 2 ^ LENGTH('a)" by (simp add: power_add flip: assms)
  then show ?thesis unfolding sint_msb top_bit [OF assms] top_uint [OF assms] by (simp only: right_diff_distrib ac_simps)
qed

lemma top_zero:
  fixes x :: "'b::len word"
  assumes "LENGTH('a::len) + n = LENGTH('b)"
  shows "push_bit n x = 0 \<longleftrightarrow> (ucast x :: 'a word) = 0"
  using top_uint [OF assms, of x] by (auto simp: word_uint_eq_iff)

lemma exp_scale: "(2 :: int) ^ (m + n) \<le> 2 ^ n * k \<longleftrightarrow> 2 ^ m \<le> k" "(2 :: int) ^ n * k < 2 ^ (m + n) \<longleftrightarrow> k < 2 ^ m"
    "- ((2 :: int) ^ (m + n)) \<le> 2 ^ n * k \<longleftrightarrow> - (2 ^ m) \<le> k"
proof -
  have e: "(2 :: int) ^ (m + n) = 2 ^ n * 2 ^ m" by (simp add: power_add)
  have p: "(0 :: int) < 2 ^ n" by simp
  show "(2 :: int) ^ (m + n) \<le> 2 ^ n * k \<longleftrightarrow> 2 ^ m \<le> k" "(2 :: int) ^ n * k < 2 ^ (m + n) \<longleftrightarrow> k < 2 ^ m"
    unfolding e using p by (auto simp: mult_less_cancel_left mult_le_cancel_left)
  have "- ((2 :: int) ^ (m + n)) = 2 ^ n * - (2 ^ m)" unfolding e by simp
  then show "- ((2 :: int) ^ (m + n)) \<le> 2 ^ n * k \<longleftrightarrow> - (2 ^ m) \<le> k" using p by (simp only: mult_le_cancel_left) auto
qed

lemma shifted_lengths:
  assumes "LENGTH('a::len) + n = LENGTH('b::len)"
  shows "LENGTH('b) = LENGTH('a) + n" "LENGTH('b) - 1 = (LENGTH('a) - 1) + n"
  using assms len_gt_0 [where 'a = 'a] by linarith+

lemma shifted_add_flags:
  fixes x y :: "'b::len word"
  assumes "LENGTH('a::len) + n = LENGTH('b)"
  shows "add_flags (push_bit n x) (push_bit n y) False = add_flags (ucast x :: 'a word) (ucast y) False"
proof -
  have le: "LENGTH('a) \<le> LENGTH('b)" using assms by linarith
  have p: "push_bit n x + push_bit n y + of_bool False = push_bit n (x + y)" by (simp add: push_bit_add)
  have u: "uint (push_bit n x) + uint (push_bit n y) + of_bool False = 2 ^ n * (uint (ucast x :: 'a word) + uint (ucast y :: 'a word))"
    "sint (push_bit n x) + sint (push_bit n y) + of_bool False = 2 ^ n * (sint (ucast x :: 'a word) + sint (ucast y :: 'a word))"
    by (simp_all only: top_uint [OF assms] top_sint [OF assms] of_bool_eq add_0_right distrib_left)
  show ?thesis
    unfolding add_flags_def Let_def p u top_bit [OF assms] top_zero [OF assms] low_ring [OF le]
    unfolding shifted_lengths(2) [OF assms] unfolding shifted_lengths(1) [OF assms] exp_scale by simp
qed

lemma shifted_sub_flags:
  fixes x y :: "'b::len word"
  assumes "LENGTH('a::len) + n = LENGTH('b)"
  shows "sub_flags (push_bit n x) (push_bit n y) True = sub_flags (ucast x :: 'a word) (ucast y) True"
proof -
  have le: "LENGTH('a) \<le> LENGTH('b)" using assms by linarith
  have p: "push_bit n x - push_bit n y = push_bit n (x - y)" by (simp add: push_bit_eq_mult left_diff_distrib)
  have z: "push_bit n x = push_bit n y \<longleftrightarrow> push_bit n (x - y) = 0" using p by (metis right_minus_eq)
  have l: "push_bit n y \<le> push_bit n x \<longleftrightarrow> (ucast y :: 'a word) \<le> ucast x"
    by (simp add: word_le_def top_uint [OF assms])
  have u: "sint (push_bit n x) - sint (push_bit n y) = 2 ^ n * (sint (ucast x :: 'a word) - sint (ucast y :: 'a word))"
    by (simp only: top_sint [OF assms] right_diff_distrib)
  show ?thesis
    unfolding sub_flags_True p z l u top_bit [OF assms] top_zero [OF assms] low_ring [OF le]
    unfolding shifted_lengths(2) [OF assms] exp_scale by simp
qed

subsection \<open>Overflow from sign bits\<close>

lemma msb_uint: "bit (w :: 'a::len word) (LENGTH('a) - 1) \<longleftrightarrow> 2 ^ (LENGTH('a) - 1) \<le> uint w"
proof -
  have p: "(2 :: int) ^ LENGTH('a) = 2 * 2 ^ (LENGTH('a) - 1)" using len_gt_0 [where 'a = 'a] by (cases "LENGTH('a)") auto
  show ?thesis using sint_ge [of w] sint_lt [of w] sint_msb [of w] unfolding p
    by (cases "bit w (LENGTH('a) - 1)") simp_all
qed

lemma over_bits:
  fixes a b :: "'a::len word" and c :: bool
  shows "FlagV (add_flags a b c) \<longleftrightarrow>
    (bit a (LENGTH('a) - 1) \<longleftrightarrow> bit b (LENGTH('a) - 1)) \<and> (bit (a + b + of_bool c) (LENGTH('a) - 1) \<longleftrightarrow> \<not> bit a (LENGTH('a) - 1))"
proof -
  define M where "M = (2 :: int) ^ (LENGTH('a) - 1)"
  have M: "(2 :: int) ^ LENGTH('a) = 2 * M" using len_gt_0 [where 'a = 'a] by (cases "LENGTH('a)") (auto simp: M_def)
  define S where "S = uint a + uint b + of_bool c"
  have r: "0 \<le> uint a" "uint a < 2 * M" "0 \<le> uint b" "uint b < 2 * M" "0 \<le> (of_bool c :: int)" "(of_bool c :: int) \<le> 1"
    using uint_lt2p [of a] uint_lt2p [of b] M by simp_all
  have "a + b + of_bool c = word_of_int S" by (simp add: S_def)
  then have "uint (a + b + of_bool c) = take_bit LENGTH('a) S" by (simp add: unsigned_of_int)
  also have "\<dots> = S mod (2 * M)" by (simp add: take_bit_eq_mod M)
  also have "\<dots> = (if S < 2 * M then S else S - 2 * M)"
  proof (cases "S < 2 * M")
    case True
    then show ?thesis using r by (simp add: S_def)
  next
    case False
    have "S mod (2 * M) = (S - 2 * M) mod (2 * M)" by simp
    also have "\<dots> = S - 2 * M" using False r by (intro mod_pos_pos_trivial) (auto simp: S_def)
    finally show ?thesis using False by simp
  qed
  finally have u: "uint (a + b + of_bool c) = (if S < 2 * M then S else S - 2 * M)" .
  have v: "FlagV (add_flags a b c) \<longleftrightarrow> \<not> (- M \<le> sint a + sint b + of_bool c \<and> sint a + sint b + of_bool c < M)"
    by (simp add: add_flags_def Let_def M_def)
  define C A B where "C = (of_bool c :: int)" and "A = uint a" and "B = uint b"
  show ?thesis
    using r unfolding v sint_msb msb_uint M_def [symmetric] u M S_def C_def [symmetric] A_def [symmetric] B_def [symmetric]
    by (cases "M \<le> A"; cases "M \<le> B"; cases "A + B + C < 2 * M") auto
qed

subsection \<open>Flags of 32-bit additions from a 64-bit sum\<close>

definition sum33 :: "u32 \<Rightarrow> u32 \<Rightarrow> bool \<Rightarrow> u64" where
  "sum33 a b c = ucast a + ucast b + of_bool c"

lemma low_zext: "(ucast (ucast (w :: u32) :: u64) :: u32) = w"
  by (rule bit_word_eqI) (simp add: bit_unsigned_iff)

lemma low_sum33: "(ucast (sum33 a b c) :: u32) = a + b + of_bool c"
  by (simp add: sum33_def low_ring low_zext)

lemma uint_sum33: "uint (sum33 a b c) = uint a + uint b + of_bool c"
proof -
  have "uint (sum33 a b c) = uint (word_of_int (uint a + uint b + of_bool c) :: u64)" by (simp add: sum33_def)
  also have "\<dots> = take_bit 64 (uint a + uint b + of_bool c)" by (subst unsigned_of_int) simp
  also have "\<dots> = uint a + uint b + of_bool c"
    using uint_lt2p [of a] uint_lt2p [of b] by (intro take_bit_int_eq_self) (simp_all add: of_bool_def)
  finally show ?thesis .
qed

lemma bit_top_int:
  assumes "0 \<le> K" "K < 2 * 2 ^ n"
  shows "bit K n \<longleftrightarrow> (2 :: int) ^ n \<le> K"
proof (cases "2 ^ n \<le> K")
  case True
  have "K div 2 ^ n = 1" using True assms by (intro int_div_pos_eq [where r = "K - 2 ^ n"]) auto
  then show ?thesis using True by (simp add: bit_iff_odd)
next
  case False
  then show ?thesis using assms(1) by (simp add: bit_iff_odd div_pos_pos_trivial)
qed

lemma carry_sum33: "FlagC (add_flags a b c) \<longleftrightarrow> bit (sum33 a b c) 32"
proof -
  have "bit (sum33 a b c) 32 \<longleftrightarrow> bit (uint (sum33 a b c)) 32" by (simp add: bit_unsigned_iff)
  also have "\<dots> \<longleftrightarrow> 2 ^ 32 \<le> uint (sum33 a b c)"
    using uint_lt2p [of a] uint_lt2p [of b] unfolding uint_sum33 by (intro bit_top_int) (simp_all add: of_bool_def)
  finally show ?thesis by (simp add: uint_sum33 add_flags_def Let_def)
qed

lemma sign_sum33: "bit (sum33 a b c) 31 \<longleftrightarrow> bit (a + b + of_bool c) 31"
  by (simp add: bit_unsigned_iff flip: low_sum33)

lemma over_sum33:
  "FlagV (add_flags a b c) \<longleftrightarrow> bit ((sum33 a b c XOR ucast a) AND NOT (ucast b XOR ucast a)) 31"
  using sign_sum33 [of a b c] by (auto simp: over_bits bit_and_iff bit_xor_iff bit_not_iff bit_unsigned_iff)

text \<open>Subtraction adds the complement of a zero-extended operand, whose upper half is all ones.\<close>

lemma diff33: "ucast a + NOT (ucast b) + of_bool c = sum33 a (NOT b) c - 2 ^ 32"
proof -
  have "(word_of_int (uint (NOT b)) :: u64) = word_of_int (2 ^ 32 - 1 - uint b)" by (simp only: uint_not) simp
  then have "(ucast (NOT b) :: u64) = 2 ^ 32 - 1 - ucast b" by simp
  then show ?thesis by (simp add: sum33_def not_eq_complement)
qed

lemma low_diff33: "(ucast (sum33 a b c - 2 ^ 32) :: u32) = a + b + of_bool c"
proof -
  have "(ucast (2 ^ 32 :: u64) :: u32) = 0" by simp
  then show ?thesis by (simp only: low_ring [where 'a = 32 and 'b = 64, simplified] low_sum33) simp
qed

lemma borrow_diff33: "FlagC (add_flags a b c) \<longleftrightarrow> \<not> bit (sum33 a b c - 2 ^ 32) 32"
proof -
  define K where "K = uint (sum33 a b c)"
  have K: "0 \<le> K" "K < 2 ^ 33" using uint_lt2p [of a] uint_lt2p [of b] by (simp_all add: K_def uint_sum33 of_bool_def)
  have "uint (sum33 a b c - 2 ^ 32) = take_bit 64 (K - 2 ^ 32)"
    by (simp add: K_def uint_word_ariths take_bit_eq_mod)
  moreover have "bit w 32 \<longleftrightarrow> bit (uint w) 32" for w :: u64 by (simp add: bit_unsigned_iff)
  ultimately have "bit (sum33 a b c - 2 ^ 32) 32 \<longleftrightarrow> bit (K - 2 ^ 32) 32" by (simp only: bit_take_bit_iff) simp
  also have "\<dots> \<longleftrightarrow> \<not> 2 ^ 32 \<le> K"
  proof (cases "2 ^ 32 \<le> K")
    case True
    then show ?thesis using K bit_top_int [of "K - 2 ^ 32" 32] by simp
  next
    case False
    then have "(K - 2 ^ 32) div 2 ^ 32 = - 1" using K by (intro int_div_pos_eq [where r = K]) auto
    then show ?thesis using False by (simp add: bit_iff_odd)
  qed
  finally show ?thesis by (simp add: K_def uint_sum33 add_flags_def Let_def)
qed

lemma over_diff33:
  "FlagV (sub_flags a b c) \<longleftrightarrow> bit (((sum33 a (NOT b) c - 2 ^ 32) XOR ucast a) AND (ucast b XOR ucast a)) 31"
proof -
  have "bit (sum33 a (NOT b) c - 2 ^ 32) 31 \<longleftrightarrow> bit (a + NOT b + of_bool c) 31"
    by (simp only: bit_unsigned_iff flip: low_diff33) simp
  then show ?thesis
    unfolding sub_flags_def by (auto simp: over_bits bit_and_iff bit_xor_iff bit_not_iff bit_unsigned_iff)
qed

end
