(* ===== verification/Alu_Flags.thy ===== *)
theory Alu_Flags
  imports Alu_Fields Flag_Words
begin

text \<open>
  The flag-setting integer operations of \<open>JIT/PPC64LE/ALUOps.cpp\<close>.  Guest N and Z live in the LT and EQ bits of CR0,
  C in XER.CA and V in XER.OV.  Narrow additions and subtractions are computed on operands shifted to the top of
  the register; 32-bit operations with a carry input work on zero-extended operands and rebuild carry and
  overflow from bits 31 and 32, written back with carry-generating instructions instead of moves to XER.
\<close>

subsection \<open>Writing the carry and overflow bits\<close>

definition SetCAFromBit :: "Config \<Rightarrow> GPR \<Rightarrow> GPR \<Rightarrow> insn list" where
  "SetCAFromBit cfg b scr =
     (if XERArithDisabled cfg then [mfspr scr 1, rlwimi scr b 29 2 2, mtspr 1 scr] else [addic scr b (- 1)])"

definition SetOVFromBit :: "Config \<Rightarrow> GPR \<Rightarrow> GPR \<Rightarrow> insn list" where
  "SetOVFromBit cfg b scr =
     (if XERArithDisabled cfg then [mfspr scr 1, rlwimi scr b 30 1 1, mtspr 1 scr] else [sldi scr b 62, addo scr scr scr])"

subsection \<open>Additions, subtractions and tests\<close>

definition flag_shift :: "OpSize \<Rightarrow> u32" where
  "flag_shift Size = 64 - of_nat (OpSizeToSize Size) * 8"

definition shifted_in :: "Config \<Rightarrow> GPR \<Rightarrow> u32 \<Rightarrow> operand \<Rightarrow> insn list" where
  "shifted_in cfg tmp Sh Src =
     (case Src of InlineConstant C \<Rightarrow> LoadConstant cfg tmp (push_bit (unat Sh) C) | Reg S \<Rightarrow> [sldi tmp S Sh])"

definition Op_AddWithFlags :: "Config \<Rightarrow> OpSize \<Rightarrow> GPR \<Rightarrow> GPR \<Rightarrow> operand \<Rightarrow> insn list" where
  "Op_AddWithFlags cfg Size Dst S1 Src2 =
     (if size_le_32 Size then
        let Sh = flag_shift Size in
        [sldi TMP1 S1 Sh] @ shifted_in cfg TMP2 Sh Src2 @ [addco_rc TMP1 TMP1 TMP2, srdi Dst TMP1 Sh]
      else
        case Src2 of
          InlineConstant Const \<Rightarrow> LoadConstant cfg TMP4 Const @ [addco_rc Dst S1 TMP4]
        | Reg S2 \<Rightarrow> [addco_rc Dst S1 S2])"

definition operand_in :: "Config \<Rightarrow> GPR \<Rightarrow> operand \<Rightarrow> insn list \<times> GPR" where
  "operand_in cfg tmp Src = (case Src of InlineConstant C \<Rightarrow> (LoadConstant cfg tmp C, tmp) | Reg S \<Rightarrow> ([], S))"

definition Op_SubWithFlags :: "Config \<Rightarrow> OpSize \<Rightarrow> GPR \<Rightarrow> operand \<Rightarrow> operand \<Rightarrow> insn list" where
  "Op_SubWithFlags cfg Size Dst Src1 Src2 =
     (if size_le_32 Size then
        let Sh = flag_shift Size; (l1, S1Reg) = operand_in cfg TMP3 Src1; (l2, S2Reg) = operand_in cfg TMP4 Src2 in
        l1 @ l2 @ [sldi TMP1 S1Reg Sh, sldi TMP2 S2Reg Sh, subfco_rc TMP1 TMP2 TMP1, srdi Dst TMP1 Sh]
      else
        case (Src1, Src2) of
          (Reg S1, InlineConstant C2) \<Rightarrow> LoadConstant cfg TMP4 C2 @ [subfco_rc Dst TMP4 S1]
        | (InlineConstant C1, Reg S2) \<Rightarrow> LoadConstant cfg TMP4 C1 @ [subfco_rc Dst S2 TMP4]
        | (Reg S1, Reg S2) \<Rightarrow> [subfco_rc Dst S2 S1]
        | (InlineConstant C1, InlineConstant C2) \<Rightarrow> [None])"

definition Op_AddNZCV :: "Config \<Rightarrow> OpSize \<Rightarrow> GPR \<Rightarrow> operand \<Rightarrow> insn list" where
  "Op_AddNZCV cfg Size S1 Src2 =
     (if size_le_32 Size then
        let Sh = flag_shift Size in [sldi TMP1 S1 Sh] @ shifted_in cfg TMP2 Sh Src2 @ [addco_rc TMP3 TMP1 TMP2]
      else
        case Src2 of
          InlineConstant Const \<Rightarrow> LoadConstant cfg TMP4 Const @ [addco_rc TMP3 S1 TMP4]
        | Reg S2 \<Rightarrow> [addco_rc TMP3 S1 S2])"

definition Op_SubNZCV :: "Config \<Rightarrow> OpSize \<Rightarrow> operand \<Rightarrow> operand \<Rightarrow> insn list" where
  "Op_SubNZCV cfg Size Src1 Src2 =
     (if size_le_32 Size then
        let Sh = flag_shift Size in
        shifted_in cfg TMP1 Sh Src1 @ shifted_in cfg TMP2 Sh Src2 @ [subfco_rc TMP3 TMP2 TMP1]
      else
        case (Src1, Src2) of
          (Reg S1, InlineConstant C2) \<Rightarrow> LoadConstant cfg TMP4 C2 @ [subfco_rc TMP3 TMP4 S1]
        | (InlineConstant C1, Reg S2) \<Rightarrow> LoadConstant cfg TMP4 C1 @ [subfco_rc TMP3 S2 TMP4]
        | (Reg S1, Reg S2) \<Rightarrow> [subfco_rc TMP3 S2 S1]
        | (InlineConstant C1, InlineConstant C2) \<Rightarrow> [None])"

definition EmitTestNZSetCR :: "GPR \<Rightarrow> OpSize \<Rightarrow> insn list" where
  "EmitTestNZSetCR Result Size =
     (case Size of
        i8Bit \<Rightarrow> [extsb_rc TMP1 Result]
      | i16Bit \<Rightarrow> [extsh_rc TMP1 Result]
      | i32Bit \<Rightarrow> [extsw_rc TMP1 Result]
      | _ \<Rightarrow> [cmpdi 0 Result 0])"

definition and_recorded :: "Config \<Rightarrow> OpSize \<Rightarrow> GPR \<Rightarrow> GPR \<Rightarrow> operand \<Rightarrow> insn list" where
  "and_recorded cfg Size Dst S1 Src2 =
     (case Src2 of
        InlineConstant Const \<Rightarrow>
          if Const AND 0xFFFF = Const then [andi_rc Dst S1 (ucast Const)]
          else if LogicalImmEnabled cfg \<and> Const AND 0xFFFF0000 = Const then [andis_rc Dst S1 (ucast (drop_bit 16 Const))]
          else
            (case EmitAndMaskRc (LogicalImmEnabled cfg) Dst S1 Const (Size = i32Bit) of
               Some is \<Rightarrow> is
             | None \<Rightarrow> LoadConstant cfg TMP4 Const @ [and_rc Dst S1 TMP4])
      | Reg S2 \<Rightarrow> [and_rc Dst S1 S2])"

definition test_tail :: "GPR \<Rightarrow> OpSize \<Rightarrow> insn list" where
  "test_tail Result Size = [addco TMP1 r0 r0] @ (if Size \<noteq> i64Bit then EmitTestNZSetCR Result Size else [])"

definition Op_AndWithFlags :: "Config \<Rightarrow> OpSize \<Rightarrow> GPR \<Rightarrow> GPR \<Rightarrow> operand \<Rightarrow> insn list" where
  "Op_AndWithFlags cfg Size Dst S1 Src2 =
     (and_recorded cfg Size Dst S1 Src2 @ test_tail Dst Size) @ zext_to Size Dst Dst"

definition Op_TestNZ :: "Config \<Rightarrow> OpSize \<Rightarrow> GPR \<Rightarrow> operand \<Rightarrow> insn list" where
  "Op_TestNZ cfg Size S1 Src2 =
     and_recorded cfg Size TMP3 S1 Src2 @ test_tail TMP3 Size"

definition Op_TestZ :: "Config \<Rightarrow> OpSize \<Rightarrow> GPR \<Rightarrow> operand \<Rightarrow> insn list" where
  "Op_TestZ cfg Size S1 Src2 =
     (case Src2 of
        InlineConstant Const \<Rightarrow>
          if Const AND 0xFFFF = Const then [andi_rc TMP3 S1 (ucast Const)]
          else LoadConstant cfg TMP4 Const @ [and_rc TMP3 S1 TMP4]
      | Reg S2 \<Rightarrow> [and_rc TMP3 S1 S2]) @ test_tail TMP3 Size"

subsection \<open>Additions and subtractions with a carry input\<close>

definition Op_Adc :: "OpSize \<Rightarrow> GPR \<Rightarrow> GPR \<Rightarrow> GPR \<Rightarrow> insn list" where
  "Op_Adc Size Dst S1 S2 = [adde Dst S1 S2] @ (if Size = i32Bit then [rldicl Dst Dst 0 32] else [])"

definition Op_Sbb :: "OpSize \<Rightarrow> GPR \<Rightarrow> GPR \<Rightarrow> GPR \<Rightarrow> insn list" where
  "Op_Sbb Size Dst S1 S2 = [subfe Dst S2 S1] @ (if Size = i32Bit then [rldicl Dst Dst 0 32] else [])"

definition Op_AdcZero :: "OpSize \<Rightarrow> GPR \<Rightarrow> GPR \<Rightarrow> insn list" where
  "Op_AdcZero Size Dst Src = [subfe TMP2 r0 r0, subf Dst TMP2 Src] @ (if Size = i32Bit then [rldicl Dst Dst 0 32] else [])"

definition Op_AdcWithFlags :: "Config \<Rightarrow> OpSize \<Rightarrow> GPR \<Rightarrow> GPR \<Rightarrow> GPR \<Rightarrow> insn list" where
  "Op_AdcWithFlags cfg Size Dst S1 S2 =
     (if Size = i64Bit then [addeo_rc Dst S1 S2]
      else
        [rldicl TMP1 S1 0 32, rldicl TMP2 S2 0 32, adde TMP3 TMP1 TMP2,
         xor_r TMP2 TMP2 TMP1, xor_r TMP1 TMP3 TMP1, andc TMP1 TMP1 TMP2, rldicl TMP2 TMP1 33 63,
         rldicl TMP4 TMP3 32 63, rldicl Dst TMP3 0 32] @
        EmitTestNZSetCR Dst i32Bit @ SetCAFromBit cfg TMP4 TMP1 @ SetOVFromBit cfg TMP2 TMP1)"

definition Op_SbbWithFlags :: "Config \<Rightarrow> OpSize \<Rightarrow> GPR \<Rightarrow> GPR \<Rightarrow> GPR \<Rightarrow> insn list" where
  "Op_SbbWithFlags cfg Size Dst S1 S2 =
     (if Size = i64Bit then [subfeo_rc Dst S2 S1]
      else
        [rldicl TMP1 S1 0 32, rldicl TMP2 S2 0 32, subfe TMP3 TMP2 TMP1,
         xor_r TMP2 TMP2 TMP1, xor_r TMP1 TMP3 TMP1, and_r TMP1 TMP1 TMP2, rldicl TMP2 TMP1 33 63,
         rldicl TMP4 TMP3 32 63, xori TMP4 TMP4 1, rldicl Dst TMP3 0 32] @
        EmitTestNZSetCR Dst i32Bit @ SetCAFromBit cfg TMP4 TMP1 @ SetOVFromBit cfg TMP2 TMP1)"

definition Op_AdcZeroWithFlags :: "Config \<Rightarrow> OpSize \<Rightarrow> GPR \<Rightarrow> GPR \<Rightarrow> insn list" where
  "Op_AdcZeroWithFlags cfg Size Dst Src =
     [subfe TMP4 r0 r0, neg TMP4 TMP4] @
     (if Size = i64Bit then [addco_rc Dst Src TMP4]
      else
        [rldicl TMP1 Src 0 32, add TMP3 TMP1 TMP4, rldicl TMP4 TMP3 33 63, rldicl TMP1 TMP1 33 63, xori TMP1 TMP1 1,
         and_r TMP4 TMP4 TMP1, rldicl TMP2 TMP3 32 63, rldicl Dst TMP3 0 32] @
        EmitTestNZSetCR Dst i32Bit @ SetCAFromBit cfg TMP2 TMP1 @ SetOVFromBit cfg TMP4 TMP1)"

definition Op_AdcNZCV :: "Config \<Rightarrow> OpSize \<Rightarrow> GPR \<Rightarrow> GPR \<Rightarrow> insn list" where
  "Op_AdcNZCV cfg Size S1 S2 =
     (if Size = i64Bit then [addeo_rc TMP3 S1 S2]
      else
        [rldicl TMP1 S1 0 32, rldicl TMP2 S2 0 32, adde TMP3 TMP1 TMP2,
         xor_r TMP2 TMP2 TMP1, xor_r TMP1 TMP3 TMP1, andc TMP1 TMP1 TMP2, rldicl TMP2 TMP1 33 63, rldicl TMP4 TMP3 32 63] @
        EmitTestNZSetCR TMP3 i32Bit @ SetCAFromBit cfg TMP4 TMP1 @ SetOVFromBit cfg TMP2 TMP1)"

definition Op_SbbNZCV :: "Config \<Rightarrow> OpSize \<Rightarrow> GPR \<Rightarrow> GPR \<Rightarrow> insn list" where
  "Op_SbbNZCV cfg Size S1 S2 =
     (if Size = i64Bit then [subfeo_rc TMP3 S2 S1]
      else
        [rldicl TMP1 S1 0 32, rldicl TMP2 S2 0 32, subfe TMP3 TMP2 TMP1, rldicl TMP4 TMP3 0 32] @
        EmitTestNZSetCR TMP4 i32Bit @
        [rldicl TMP3 TMP3 32 63, xori TMP3 TMP3 1,
         rldicl TMP1 S1 33 63, rldicl TMP2 S2 33 63, rldicl TMP4 TMP4 33 63,
         xor_r TMP2 TMP2 TMP1, xor_r TMP4 TMP4 TMP1, and_r TMP4 TMP4 TMP2] @
        SetCAFromBit cfg TMP3 TMP1 @ SetOVFromBit cfg TMP4 TMP1)"

definition Op_SetSmallNZV :: "OpSize \<Rightarrow> GPR \<Rightarrow> insn list" where
  "Op_SetSmallNZV Size Src =
     (let SignBit = (if Size = i8Bit then 7 else 15) in
      [if Size = i8Bit then extsb_rc TMP1 Src else extsh_rc TMP1 Src,
       srdi TMP2 Src SignBit, srdi TMP3 TMP2 1, xor_r TMP2 TMP2 TMP3, rldicl TMP2 TMP2 0 63, sldi TMP2 TMP2 62,
       addo TMP2 TMP2 TMP2])"

subsection \<open>The contract of a flag-setting operation\<close>

definition machine_flags :: "PPC \<Rightarrow> Flags" where
  "machine_flags s = \<lparr>FlagN = cr s 0, FlagZ = cr s 2, FlagC = ca s, FlagV = ov s\<rparr>"

definition keeps_but_flags :: "GPR set \<Rightarrow> PPC \<Rightarrow> PPC \<Rightarrow> bool" where
  "keeps_but_flags R s s' \<longleftrightarrow> (\<forall>r. r \<notin> R \<longrightarrow> gpr s' r = gpr s r) \<and> (\<forall>n \<ge> 4. cr s' n = cr s n) \<and>
     xer s' AND NOT 0xE0000000 = xer s AND NOT 0xE0000000 \<and> mem s' = mem s"

definition sets_flags :: "(u32 \<Rightarrow> PPC \<Rightarrow> PPC option) \<Rightarrow> insn list \<Rightarrow> PPC \<Rightarrow> GPR set \<Rightarrow> Flags \<Rightarrow> (PPC \<Rightarrow> bool) \<Rightarrow> bool" where
  "sets_flags step is s R F ok \<longleftrightarrow>
     (\<exists>s'. run step is s = Some s' \<and> keeps_but_flags R s s' \<and> machine_flags s' = F \<and> ok s')"

definition add_flags_at :: "OpSize \<Rightarrow> u64 \<Rightarrow> u64 \<Rightarrow> bool \<Rightarrow> Flags" where
  "add_flags_at Size a b c =
     (case Size of
        i8Bit \<Rightarrow> add_flags (ucast a :: u8) (ucast b) c
      | i16Bit \<Rightarrow> add_flags (ucast a :: u16) (ucast b) c
      | i32Bit \<Rightarrow> add_flags (ucast a :: u32) (ucast b) c
      | _ \<Rightarrow> add_flags a b c)"

definition sub_flags_at :: "OpSize \<Rightarrow> u64 \<Rightarrow> u64 \<Rightarrow> bool \<Rightarrow> Flags" where
  "sub_flags_at Size a b c =
     (case Size of
        i8Bit \<Rightarrow> sub_flags (ucast a :: u8) (ucast b) c
      | i16Bit \<Rightarrow> sub_flags (ucast a :: u16) (ucast b) c
      | i32Bit \<Rightarrow> sub_flags (ucast a :: u32) (ucast b) c
      | _ \<Rightarrow> sub_flags a b c)"

definition logic_flags_at :: "OpSize \<Rightarrow> u64 \<Rightarrow> Flags" where
  "logic_flags_at Size r =
     (case Size of
        i8Bit \<Rightarrow> logic_flags (ucast r :: u8)
      | i16Bit \<Rightarrow> logic_flags (ucast r :: u16)
      | i32Bit \<Rightarrow> logic_flags (ucast r :: u32)
      | _ \<Rightarrow> logic_flags r)"

lemma keeps_but_flags_simps [simp]:
  "keeps_but_flags R s s"
  "r \<in> R \<Longrightarrow> keeps_but_flags R s (setr r v t) = keeps_but_flags R s t"
  "keeps_but_flags R s (set_cr0 v t) = keeps_but_flags R s t"
  "r \<in> R \<Longrightarrow> keeps_but_flags R s (adc r a b c oe rc t) = keeps_but_flags R s t"
  "keeps_but_flags R s (t\<lparr>ca := x\<rparr>) = keeps_but_flags R s t"
  "keeps_but_flags R s (t\<lparr>ov := x, so := y\<rparr>) = keeps_but_flags R s t"
  by (auto simp: keeps_but_flags_def set_cr0_def adc_def put_def Let_def)

lemma gpr_adc [simp]: "gpr (adc r a b c oe rc s) = (gpr s)(r := a + b + of_bool c)"
  by (simp add: adc_def put_def Let_def set_cr0_def)

lemma machine_flags_simps [simp]:
  "machine_flags (setr r v s) = machine_flags s"
  "machine_flags (adc r a b c True True s) = add_flags a b c"
  "machine_flags (adc r a b c True False s) = (machine_flags s)\<lparr>FlagC := adc_carry a b c, FlagV := adc_over a b c\<rparr>"
  "machine_flags (adc r a b c False False s) = (machine_flags s)\<lparr>FlagC := adc_carry a b c\<rparr>"
  "machine_flags (set_cr0 v s) = (machine_flags s)\<lparr>FlagN := sint v < 0, FlagZ := v = 0\<rparr>"
  "machine_flags (s\<lparr>ca := x\<rparr>) = (machine_flags s)\<lparr>FlagC := x\<rparr>"
  "machine_flags (s\<lparr>ov := x, so := y\<rparr>) = (machine_flags s)\<lparr>FlagV := x\<rparr>"
  using sint_neg_iff [of "a + b + of_bool c"]
  by (simp_all add: machine_flags_def adc_def put_def Let_def set_cr0_def add_flags_def adc_carry_def adc_over_def)

lemma flag_shift_sizes [simp]: "unat (flag_shift i8Bit) = 56" "unat (flag_shift i16Bit) = 48" "unat (flag_shift i32Bit) = 32"
  by (simp_all add: flag_shift_def)

lemma shifted_flags:
  fixes x y :: u64
  shows "add_flags (push_bit 56 x) (push_bit 56 y) False = add_flags (ucast x :: u8) (ucast y) False"
    "add_flags (push_bit 48 x) (push_bit 48 y) False = add_flags (ucast x :: u16) (ucast y) False"
    "add_flags (push_bit 32 x) (push_bit 32 y) False = add_flags (ucast x :: u32) (ucast y) False"
    "add_flags (push_bit 56 x) (NOT (push_bit 56 y)) True = sub_flags (ucast x :: u8) (ucast y) True"
    "add_flags (push_bit 48 x) (NOT (push_bit 48 y)) True = sub_flags (ucast x :: u16) (ucast y) True"
    "add_flags (push_bit 32 x) (NOT (push_bit 32 y)) True = sub_flags (ucast x :: u32) (ucast y) True"
  unfolding sub_flags_def [where a = "push_bit _ x", symmetric]
  by (rule shifted_add_flags shifted_sub_flags; simp)+

lemma drop_push_32: "drop_bit 32 (push_bit 32 (x :: u64)) = ucast (ucast x :: u32)"
  by (rule bit_word_eqI) (auto simp: bit_drop_bit_eq bit_push_bit_iff bit_unsigned_iff dest: bit_imp_le_length)

lemma value_of_scratch [simp]:
  "guest_operand Src \<Longrightarrow> value_of (setr TMP1 x s) Src = value_of s Src" "guest_operand Src \<Longrightarrow> value_of (setr TMP2 x s) Src = value_of s Src"
  "guest_operand Src \<Longrightarrow> value_of (setr TMP3 x s) Src = value_of s Src" "guest_operand Src \<Longrightarrow> value_of (setr TMP4 x s) Src = value_of s Src"
  by (cases Src; simp)+

lemma sext_sign: "sint (scast (w :: u8) :: u64) < 0 \<longleftrightarrow> bit w 7" "sint (scast (x :: u16) :: u64) < 0 \<longleftrightarrow> bit x 15"
    "sint (scast (y :: u32) :: u64) < 0 \<longleftrightarrow> bit y 31"
  by (simp_all add: sint_neg_iff bit_signed_iff)

lemma sext_zero: "(scast (w :: u8) :: u64) = 0 \<longleftrightarrow> w = 0" "(scast (x :: u16) :: u64) = 0 \<longleftrightarrow> x = 0"
    "(scast (y :: u32) :: u64) = 0 \<longleftrightarrow> y = 0"
proof -
  have "(ucast (scast w :: u64) :: u8) = w" "(ucast (scast x :: u64) :: u16) = x"
    by (rule bit_word_eqI, simp add: bit_unsigned_iff bit_signed_iff min_def le_less)+
  then show "(scast w :: u64) = 0 \<longleftrightarrow> w = 0" "(scast x :: u64) = 0 \<longleftrightarrow> x = 0" by force+
  show "(scast y :: u64) = 0 \<longleftrightarrow> y = 0" using low32_sext [of y] by (metis signed_0 unsigned_0)
qed

lemma no_carry_zero [simp]: "adc_carry 0 0 False = False" "adc_over 0 0 False = False"
  by (simp_all add: adc_carry_def adc_over_def)

lemma bit_xer_rest: "bit (NOT 0xE0000000 :: u64) n \<longleftrightarrow> n < 64 \<and> n \<noteq> 29 \<and> n \<noteq> 30 \<and> n \<noteq> 31"
proof -
  have e: "(0xE0000000 :: u64) = 2 ^ 29 OR 2 ^ 30 OR 2 ^ 31" by simp
  show ?thesis unfolding e by (simp only: bit_not_iff bit_or_iff bit_exp_iff) auto
qed

lemma bit_flag_at: "bit (push_bit k (of_bool B :: u64)) n \<longleftrightarrow> n < 64 \<and> n = k \<and> B"
  by (cases B) (auto simp: bit_push_bit_iff bit_1_iff simp del: push_bit_of_1)

lemma bit_xer_value:
  "bit (xer_value s) n \<longleftrightarrow> n < 64 \<and> (if n = 29 then ca s else if n = 30 then ov s else if n = 31 then so s else bit (xer s) n)"
  unfolding xer_value_def bit_or_iff bit_and_iff bit_xer_rest bit_flag_at by (auto dest: bit_imp_le_length)

lemma bit_inserted:
  assumes "k < 32"
  shows "bit (insert_mask (mask64 (63 - k) (63 - k)) (rotl32 k x) old) n \<longleftrightarrow> (if n = k then bit x 0 else bit old n)"
proof (cases "n < 64")
  case True
  then show ?thesis using assms
    by (auto simp: insert_mask_def bit_or_iff bit_and_iff bit_not_iff bit_mask64 rotl32_def Let_def bit_unsigned_iff bit_push_bit_iff
        bit_word_rotl_iff simp del: bit_0)
next
  case False
  then show ?thesis using assms by (auto dest: bit_imp_le_length)
qed

lemma xer_bits_kept:
  assumes "k = 29 \<or> k = 30"
  shows "insert_mask (mask64 (63 - k) (63 - k)) (rotl32 k x) (xer_value s) AND NOT 0xE0000000 = xer s AND NOT 0xE0000000"
proof (rule bit_word_eqI)
  fix n :: nat assume "n < LENGTH(64)"
  moreover have "k < 32" using assms by auto
  ultimately show "bit (insert_mask (mask64 (63 - k) (63 - k)) (rotl32 k x) (xer_value s) AND NOT 0xE0000000) n \<longleftrightarrow> bit (xer s AND NOT 0xE0000000) n"
    using assms unfolding bit_and_iff bit_xer_rest by (auto simp: bit_inserted bit_xer_value)
qed

definition xer_with :: "nat \<Rightarrow> u64 \<Rightarrow> PPC \<Rightarrow> PPC" where
  "xer_with k x s = set_xer (insert_mask (mask64 (63 - k) (63 - k)) (rotl32 k x) (xer_value s)) s"

lemma xer_with:
  "keeps_but_flags {} s (xer_with 29 x s)" "keeps_but_flags {} s (xer_with 30 x s)"
  "machine_flags (xer_with 29 x s) = (machine_flags s)\<lparr>FlagC := bit x 0\<rparr>"
  "machine_flags (xer_with 30 x s) = (machine_flags s)\<lparr>FlagV := bit x 0\<rparr>"
  using xer_bits_kept [of 29 x s] xer_bits_kept [of 30 x s] bit_inserted [of 29 x "xer_value s"] bit_inserted [of 30 x "xer_value s"]
  by (simp_all add: xer_with_def set_xer_def keeps_but_flags_def machine_flags_def bit_xer_value)

context ppc_isa
begin

lemma run_shifted_in:
  assumes "unat Sh < 64"
  shows "run step (shifted_in cfg tmp Sh Src) s = Some (setr tmp (push_bit (unat Sh) (value_of s Src)) s)"
  using assms by (cases Src) (simp_all add: shifted_in_def run_LoadConstant step_sldi_u32)

lemma flags_AddNZCV:
  assumes "guest_reg S1" "guest_operand Src2" "count_size Size"
  shows "sets_flags step (Op_AddNZCV cfg Size S1 Src2) s scratch (add_flags_at Size (gpr s S1) (value_of s Src2) False) (\<lambda>_. True)"
proof (cases "Size = i64Bit")
  case True
  then show ?thesis using assms(1,2)
    by (cases Src2) (simp_all add: sets_flags_def Op_AddNZCV_def size_le_32_def run_append run_LoadConstant step_addco_rc add_flags_at_def)
next
  case False
  with assms(3,1,2) show ?thesis by (cases rule: count_size_cases)
    (simp_all add: sets_flags_def Op_AddNZCV_def Let_def size_le_32_def run_append run_shifted_in step_sldi_u32 step_addco_rc
      add_flags_at_def shifted_flags)
qed

lemma flags_SubNZCV:
  assumes "guest_operand Src1" "guest_operand Src2" "\<not> (\<exists>C1 C2. Src1 = InlineConstant C1 \<and> Src2 = InlineConstant C2)" "count_size Size"
  shows "sets_flags step (Op_SubNZCV cfg Size Src1 Src2) s scratch (sub_flags_at Size (value_of s Src1) (value_of s Src2) True) (\<lambda>_. True)"
proof (cases "Size = i64Bit")
  case True
  have "add_flags (NOT b) a True = sub_flags a b True" for a b :: u64
    by (simp add: sub_flags_def add_flags_def Let_def ac_simps)
  then show ?thesis using True assms(1-3)
    by (cases Src1; cases Src2)
      (simp_all add: sets_flags_def Op_SubNZCV_def size_le_32_def run_append run_LoadConstant step_subfco_rc sub_flags_at_def)
next
  case False
  have "add_flags (NOT b) a True = add_flags a (NOT b) True" for a b :: u64 by (simp add: add_flags_def Let_def ac_simps)
  with assms(4,1,2) False show ?thesis by (cases rule: count_size_cases)
    (simp_all add: sets_flags_def Op_SubNZCV_def Let_def size_le_32_def run_append run_shifted_in step_subfco_rc sub_flags_at_def shifted_flags)
qed

lemma flags_AddWithFlags:
  assumes "guest_reg Dst" "guest_reg S1" "guest_operand Src2" "gpr_size Size"
  shows "sets_flags step (Op_AddWithFlags cfg Size Dst S1 Src2) s (insert Dst scratch) (add_flags_at Size (gpr s S1) (value_of s Src2) False)
    (\<lambda>s'. result_is Size False (gpr s' Dst) (gpr s S1 + value_of s Src2))"
proof -
  have p: "drop_bit 32 (push_bit 32 x + push_bit 32 y) = ucast (ucast (x + y) :: u32)" for x y :: u64
    by (simp only: drop_push_32 flip: push_bit_add)
  from assms(4,1-3) show ?thesis by (cases rule: gpr_size_cases; cases Src2)
    (simp_all add: sets_flags_def Op_AddWithFlags_def Let_def size_le_32_def run_append run_shifted_in run_LoadConstant step_sldi_u32
      step_addco_rc step_srdi add_flags_at_def shifted_flags result_is_def p)
qed

lemma flags_SubWithFlags:
  assumes "guest_reg Dst" "guest_operand Src1" "guest_operand Src2" "\<not> (\<exists>C1 C2. Src1 = InlineConstant C1 \<and> Src2 = InlineConstant C2)"
    and "gpr_size Size"
  shows "sets_flags step (Op_SubWithFlags cfg Size Dst Src1 Src2) s (insert Dst scratch)
    (sub_flags_at Size (value_of s Src1) (value_of s Src2) True)
    (\<lambda>s'. result_is Size False (gpr s' Dst) (value_of s Src1 - value_of s Src2))"
proof -
  have c: "add_flags (NOT b) a True = add_flags a (NOT b) True" "NOT b + a + 1 = a - b" for a b :: u64
    by (simp_all add: add_flags_def Let_def ac_simps not_eq_complement)
  have p: "drop_bit 32 (push_bit 32 x - push_bit 32 y) = ucast (ucast (x - y) :: u32)" for x y :: u64
    by (simp add: push_bit_eq_mult left_diff_distrib flip: drop_push_32)
  from assms(5,1-4) show ?thesis by (cases rule: gpr_size_cases; cases Src1; cases Src2)
    (simp_all add: sets_flags_def Op_SubWithFlags_def Let_def size_le_32_def operand_in_def run_append run_LoadConstant step_sldi_u32
      step_subfco_rc step_srdi sub_flags_at_def sub_flags_def c shifted_flags [unfolded sub_flags_def] result_is_def p)
qed

lemma run_and_recorded:
  assumes "guest_reg S1" "guest_operand Src2" "Dst \<noteq> TMP4"
  shows "\<exists>v t. run step (and_recorded cfg Size Dst S1 Src2) s = Some (put Dst v True t) \<and> (t = s \<or> (\<exists>x. t = setr TMP4 x s)) \<and>
    (if Size = i32Bit then (ucast v :: u32) = ucast (gpr s S1 AND value_of s Src2) else v = gpr s S1 AND value_of s Src2)"
proof (cases Src2)
  case (Reg S2)
  then show ?thesis by (auto simp: and_recorded_def step_and_rc intro!: exI [of _ s])
next
  case (InlineConstant C)
  let ?e = "EmitAndMaskRc (LogicalImmEnabled cfg) Dst S1 C (Size = i32Bit)"
  consider (low) "C AND 0xFFFF = C" | (high) "C AND 0xFFFF \<noteq> C" "LogicalImmEnabled cfg \<and> C AND 0xFFFF0000 = C"
    | (form) ins where "(C AND 0xFFFF = C) = False" "(LogicalImmEnabled cfg \<and> C AND 0xFFFF0000 = C) = False" "?e = Some ins"
    | (load) "(C AND 0xFFFF = C) = False" "(LogicalImmEnabled cfg \<and> C AND 0xFFFF0000 = C) = False" "?e = None"
    by (cases ?e) auto
  then show ?thesis
  proof cases
    case low
    then show ?thesis using InlineConstant low_half [OF low] by (auto simp: and_recorded_def step_andi_rc intro!: exI [of _ s])
  next
    case high
    then have e: "and_recorded cfg Size Dst S1 Src2 = [andis_rc Dst S1 (ucast (drop_bit 16 C))]" by (simp add: and_recorded_def InlineConstant)
    show ?thesis using high_half [of C] high(2) unfolding e by (auto simp: InlineConstant step_andis_rc intro!: exI [of _ s])
  next
    case form
    then have e: "and_recorded cfg Size Dst S1 Src2 = ins" by (simp only: and_recorded_def InlineConstant operand.case if_False option.case)
    show ?thesis
      using run_EmitAndMaskRc(1) [OF form(3), of s] ClassifyAndMask_applied [OF run_EmitAndMaskRc(2) [OF form(3)], of "gpr s S1"]
      unfolding e by (auto simp: InlineConstant low32_take_bit intro!: exI [of _ s] split: if_splits)
  next
    case load
    then have e: "and_recorded cfg Size Dst S1 Src2 = LoadConstant cfg TMP4 C @ [and_rc Dst S1 TMP4]"
      by (simp only: and_recorded_def InlineConstant operand.case if_False option.case)
    show ?thesis using assms(1)
      unfolding e by (auto simp: InlineConstant run_append run_LoadConstant step_and_rc intro!: exI [of _ "setr TMP4 C s"])
  qed
qed

text \<open>Clearing carry and overflow and refining N and Z to the operand size, after a recorded and.\<close>

lemma run_refine:
  assumes "count_size Size" "gpr t r0 = 0" "Dst \<noteq> r0" "Dst \<noteq> TMP1"
  shows "\<exists>t'. run step (test_tail Dst Size) (put Dst v True t) = Some t' \<and>
    keeps_but_flags (insert Dst scratch) t t' \<and> machine_flags t' = logic_flags_at Size v \<and> gpr t' Dst = v"
  using assms by (cases rule: count_size_cases)
    (auto simp: put_def test_tail_def EmitTestNZSetCR_def step_addco step_extsb_rc step_extsh_rc step_extsw_rc logic_flags_at_def logic_flags_def
      machine_flags_def [of t] sext_sign sext_zero sint_neg_iff [of v])

lemma keeps_but_flags_trans:
  "keeps_but_flags R s t \<Longrightarrow> keeps_but_flags R t u \<Longrightarrow> keeps_but_flags R s u"
  by (simp add: keeps_but_flags_def)

lemma run_tested:
  assumes "guest_reg S1" "guest_operand Src2" "count_size Size" "gpr s r0 = 0" "Dst \<noteq> r0" "Dst \<noteq> TMP1" "Dst \<noteq> TMP4"
  shows "\<exists>s'. run step (and_recorded cfg Size Dst S1 Src2 @ test_tail Dst Size) s = Some s' \<and>
    keeps_but_flags (insert Dst scratch) s s' \<and> machine_flags s' = logic_flags_at Size (gpr s S1 AND value_of s Src2) \<and>
    (if Size = i32Bit then (ucast (gpr s' Dst) :: u32) = ucast (gpr s S1 AND value_of s Src2) else gpr s' Dst = gpr s S1 AND value_of s Src2)"
proof -
  obtain v t where r: "run step (and_recorded cfg Size Dst S1 Src2) s = Some (put Dst v True t)" and t: "t = s \<or> (\<exists>x. t = setr TMP4 x s)"
    and v: "if Size = i32Bit then (ucast v :: u32) = ucast (gpr s S1 AND value_of s Src2) else v = gpr s S1 AND value_of s Src2"
    using run_and_recorded [OF assms(1,2,7)] by blast
  have "gpr t r0 = 0" "keeps_but_flags (insert Dst scratch) s t" using t assms(4) by auto
  with run_refine [OF assms(3) this(1) assms(5,6), of v] obtain t' where t': "run step (test_tail Dst Size) (put Dst v True t) = Some t'"
    "keeps_but_flags (insert Dst scratch) s t'" "machine_flags t' = logic_flags_at Size v" "gpr t' Dst = v"
    by (blast dest: keeps_but_flags_trans)
  have "logic_flags_at Size v = logic_flags_at Size (gpr s S1 AND value_of s Src2)"
    using v by (cases "Size = i32Bit") (simp_all add: logic_flags_at_def)
  then show ?thesis using r t' v by (simp add: run_append)
qed

lemma flags_TestNZ:
  assumes "guest_reg S1" "guest_operand Src2" "count_size Size" "gpr s r0 = 0"
  shows "sets_flags step (Op_TestNZ cfg Size S1 Src2) s scratch (logic_flags_at Size (gpr s S1 AND value_of s Src2)) (\<lambda>_. True)"
  using run_tested [OF assms, of TMP3 cfg] by (auto simp: sets_flags_def Op_TestNZ_def insert_absorb)

lemma flags_TestZ:
  assumes "guest_reg S1" "guest_operand Src2" "count_size Size" "gpr s r0 = 0"
  shows "sets_flags step (Op_TestZ cfg Size S1 Src2) s scratch (logic_flags_at Size (gpr s S1 AND value_of s Src2)) (\<lambda>_. True)"
proof -
  define ins where "ins = (case Src2 of
        InlineConstant Const \<Rightarrow>
          if Const AND 0xFFFF = Const then [andi_rc TMP3 S1 (ucast Const)]
          else LoadConstant cfg TMP4 Const @ [and_rc TMP3 S1 TMP4]
      | Reg S2 \<Rightarrow> [and_rc TMP3 S1 S2])"
  have "\<exists>t. run step ins s = Some (put TMP3 (gpr s S1 AND value_of s Src2) True t) \<and> (t = s \<or> (\<exists>x. t = setr TMP4 x s))"
  proof (cases Src2)
    case (InlineConstant C)
    then show ?thesis using assms(1) low_half [of C]
      by (cases "C AND 0xFFFF = C") (auto simp: ins_def run_append run_LoadConstant step_and_rc step_andi_rc)
  qed (auto simp: ins_def step_and_rc)
  then obtain t where t: "run step ins s = Some (put TMP3 (gpr s S1 AND value_of s Src2) True t)" "t = s \<or> (\<exists>x. t = setr TMP4 x s)"
    by blast
  have "gpr t r0 = 0" "keeps_but_flags (insert TMP3 scratch) s t" using t(2) assms(4) by auto
  with run_refine [OF assms(3) this(1), of TMP3 "gpr s S1 AND value_of s Src2"] show ?thesis
    unfolding Op_TestZ_def ins_def [symmetric] sets_flags_def
    by (auto simp: run_append t(1) insert_absorb dest: keeps_but_flags_trans)
qed

lemma flags_AndWithFlags:
  assumes "guest_reg Dst" "guest_reg S1" "guest_operand Src2" "count_size Size" "gpr s r0 = 0"
  shows "sets_flags step (Op_AndWithFlags cfg Size Dst S1 Src2) s (insert Dst scratch) (logic_flags_at Size (gpr s S1 AND value_of s Src2))
    (\<lambda>s'. gpr s' Dst = take_bit (8 * OpSizeToSize Size) (gpr s S1 AND value_of s Src2))"
proof -
  obtain t where t: "run step (and_recorded cfg Size Dst S1 Src2 @ test_tail Dst Size) s = Some t"
    "keeps_but_flags (insert Dst scratch) s t" "machine_flags t = logic_flags_at Size (gpr s S1 AND value_of s Src2)"
    "if Size = i32Bit then (ucast (gpr t Dst) :: u32) = ucast (gpr s S1 AND value_of s Src2) else gpr t Dst = gpr s S1 AND value_of s Src2"
    using run_tested [OF assms(2-5), of Dst cfg] assms(1) by auto
  have z: "ucast (ucast x :: u8) = take_bit 8 x" "ucast (ucast x :: u16) = take_bit 16 x" "ucast (ucast x :: u32) = take_bit 32 x" for x :: u64
    by (rule bit_word_eqI, auto simp: bit_unsigned_iff bit_take_bit_iff)+
  have "take_bit 64 x = x" for x :: u64 by (rule take_bit_length_eq [where 'a = 64, simplified])
  note z = z this
  have "run step (Op_AndWithFlags cfg Size Dst S1 Src2) s = run step (zext_to Size Dst Dst) t"
    unfolding Op_AndWithFlags_def run_append [of step "_ @ test_tail _ _"] t(1) option.case ..
  with assms(4) t(2-4) show ?thesis
    by (cases rule: count_size_cases) (auto simp: sets_flags_def zext_to_def step_zext z)
qed

lemma run_insert_xer:
  assumes "k = 29 \<or> k = 30" "b \<noteq> scr"
  shows "\<exists>v. run step [mfspr scr 1, rlwimi scr b (of_nat k) (of_nat (31 - k)) (of_nat (31 - k)), mtspr 1 scr] s = Some (xer_with k (gpr s b) (setr scr v s))"
  using assms by (auto simp: step_mfxer step_rlwimi step_mtxer xer_with_def xer_value_def)

lemma run_SetCAFromBit:
  assumes "gpr s b = of_bool B" "b \<noteq> scr"
  shows "\<exists>s'. run step (SetCAFromBit cfg b scr) s = Some s' \<and> keeps_but_flags {scr} s s' \<and> machine_flags s' = (machine_flags s)\<lparr>FlagC := B\<rparr>"
proof (cases "XERArithDisabled cfg")
  case False
  have "adc_carry (of_bool B) (- 1) False = B"
    by (cases B) (simp_all add: adc_carry_def unsigned_minus_1_eq_mask mask_eq_exp_minus_1)
  then show ?thesis using False assms by (simp add: SetCAFromBit_def step_addic)
next
  case True
  obtain v where "run step (SetCAFromBit cfg b scr) s = Some (xer_with 29 (gpr s b) (setr scr v s))"
    using run_insert_xer [of 29 b scr s] assms(2) True by (auto simp: SetCAFromBit_def)
  moreover have "keeps_but_flags {scr} s (xer_with 29 (gpr s b) (setr scr v s))"
    using xer_with(1) [of "setr scr v s"] by (auto simp: keeps_but_flags_def)
  ultimately show ?thesis using assms(1) by (simp add: xer_with)
qed

lemma run_SetOVFromBit:
  assumes "gpr s b = of_bool B" "b \<noteq> scr"
  shows "\<exists>s'. run step (SetOVFromBit cfg b scr) s = Some s' \<and> keeps_but_flags {scr} s s' \<and> machine_flags s' = (machine_flags s)\<lparr>FlagV := B\<rparr>"
proof (cases "XERArithDisabled cfg")
  case False
  have "adc_over (push_bit 62 (of_bool B)) (push_bit 62 (of_bool B)) False = B"
    by (cases B) (simp_all add: adc_over_def)
  then show ?thesis using False assms by (simp add: SetOVFromBit_def step_sldi_u32 step_addo)
next
  case True
  obtain v where "run step (SetOVFromBit cfg b scr) s = Some (xer_with 30 (gpr s b) (setr scr v s))"
    using run_insert_xer [of 30 b scr s] assms(2) True by (auto simp: SetOVFromBit_def)
  moreover have "keeps_but_flags {scr} s (xer_with 30 (gpr s b) (setr scr v s))"
    using xer_with(2) [of "setr scr v s"] by (auto simp: keeps_but_flags_def)
  ultimately show ?thesis using assms(1) by (simp add: xer_with)
qed

lemma keeps_but_flags_mono: "keeps_but_flags R s t \<Longrightarrow> R \<subseteq> R' \<Longrightarrow> keeps_but_flags R' s t"
  by (auto simp: keeps_but_flags_def)

lemma run_write_flags:
  assumes "gpr t cb = of_bool C" "gpr t vb = of_bool V" "cb \<noteq> TMP1" "vb \<noteq> TMP1"
  shows "\<exists>t'. run step (EmitTestNZSetCR res i32Bit @ SetCAFromBit cfg cb TMP1 @ SetOVFromBit cfg vb TMP1) t = Some t' \<and> keeps_but_flags {TMP1} t t' \<and>
    machine_flags t' = \<lparr>FlagN = bit (ucast (gpr t res) :: u32) 31, FlagZ = ((ucast (gpr t res) :: u32) = 0), FlagC = C, FlagV = V\<rparr>"
proof -
  define t1 where "t1 = put TMP1 (scast (ucast (gpr t res) :: u32)) True t"
  have t1: "run step (EmitTestNZSetCR res i32Bit) t = Some t1" "keeps_but_flags {TMP1} t t1"
    "machine_flags t1 = (machine_flags t)\<lparr>FlagN := bit (ucast (gpr t res) :: u32) 31, FlagZ := (ucast (gpr t res) :: u32) = 0\<rparr>"
    by (simp_all add: EmitTestNZSetCR_def step_extsw_rc t1_def put_def sext_sign sext_zero)
  have "gpr t1 cb = of_bool C" using t1(2) assms by (simp add: keeps_but_flags_def)
  from run_SetCAFromBit [OF this assms(3), of cfg] obtain t2 where t2: "run step (SetCAFromBit cfg cb TMP1) t1 = Some t2"
    "keeps_but_flags {TMP1} t1 t2" "machine_flags t2 = (machine_flags t1)\<lparr>FlagC := C\<rparr>" by blast
  have "gpr t2 vb = of_bool V" using t1(2) t2(2) assms by (simp add: keeps_but_flags_def)
  from run_SetOVFromBit [OF this assms(4), of cfg] obtain t3 where t3: "run step (SetOVFromBit cfg vb TMP1) t2 = Some t3"
    "keeps_but_flags {TMP1} t2 t3" "machine_flags t3 = (machine_flags t2)\<lparr>FlagV := V\<rparr>" by blast
  have "keeps_but_flags {TMP1} t t3" using t1(2) t2(2) t3(2) by (blast dest: keeps_but_flags_trans)
  moreover have "machine_flags t3 = \<lparr>FlagN = bit (ucast (gpr t res) :: u32) 31, FlagZ = ((ucast (gpr t res) :: u32) = 0), FlagC = C, FlagV = V\<rparr>"
    unfolding t3(3) t2(3) t1(3) by (simp add: machine_flags_def)
  ultimately show ?thesis using t1(1) t2(1) t3(1) by (simp add: run_append)
qed

lemma bit_isolated: "0 < n \<Longrightarrow> n < 64 \<Longrightarrow> word_rotl n x AND mask64 63 63 = (of_bool (bit x (64 - n)) :: u64)"
proof (rule bit_word_eqI)
  fix i :: nat assume "0 < n" "n < 64" "i < LENGTH(64)"
  then show "bit (word_rotl n x AND mask64 63 63) i \<longleftrightarrow> bit (of_bool (bit x (64 - n)) :: u64) i"
    by (cases "i = 0") (auto simp: bit_and_iff bit_mask64 bit_word_rotl_iff bit_1_iff)
qed

lemma step_isolate: "exec step (rldicl ra rs 33 63) s = Some (setr ra (of_bool (bit (gpr s rs) 31)) s)"
    "exec step (rldicl ra rs 32 63) s = Some (setr ra (of_bool (bit (gpr s rs) 32)) s)"
  using bit_isolated [of 33 "gpr s rs"] bit_isolated [of 32 "gpr s rs"] by (simp_all add: step_rldicl)

lemma sets_flags_written:
  assumes "run step pre s = Some t" "keeps_but_flags R s t" "TMP1 \<in> R" "gpr t cb = of_bool (FlagC F)" "gpr t vb = of_bool (FlagV F)"
    and "cb \<noteq> TMP1" "vb \<noteq> TMP1" "FlagN F = bit (ucast (gpr t res) :: u32) 31" "FlagZ F = ((ucast (gpr t res) :: u32) = 0)"
    and "\<And>t'. keeps_but_flags {TMP1} t t' \<Longrightarrow> ok t'"
  shows "sets_flags step (pre @ EmitTestNZSetCR res i32Bit @ SetCAFromBit cfg cb TMP1 @ SetOVFromBit cfg vb TMP1) s R F ok"
proof -
  obtain t' where t': "run step (EmitTestNZSetCR res i32Bit @ SetCAFromBit cfg cb TMP1 @ SetOVFromBit cfg vb TMP1) t = Some t'"
    "keeps_but_flags {TMP1} t t'" "machine_flags t' = \<lparr>FlagN = FlagN F, FlagZ = FlagZ F, FlagC = FlagC F, FlagV = FlagV F\<rparr>"
    using run_write_flags [OF assms(4-7), of res cfg] assms(8,9) by auto
  have "keeps_but_flags R s t'"
    using keeps_but_flags_trans [OF assms(2) keeps_but_flags_mono [OF t'(2)]] assms(3) by simp
  moreover have "run step (pre @ EmitTestNZSetCR res i32Bit @ SetCAFromBit cfg cb TMP1 @ SetOVFromBit cfg vb TMP1) s = Some t'"
    by (simp only: run_append [of step pre] assms(1) option.case t'(1))
  ultimately show ?thesis using t'(2,3) assms(10) by (auto simp: sets_flags_def)
qed

lemma flags_AdcWithFlags:
  assumes "guest_reg Dst" "guest_reg S1" "guest_reg S2" "gpr_size Size"
  shows "sets_flags step (Op_AdcWithFlags cfg Size Dst S1 S2) s (insert Dst scratch) (add_flags_at Size (gpr s S1) (gpr s S2) (ca s))
    (\<lambda>s'. result_is Size False (gpr s' Dst) (gpr s S1 + gpr s S2 + of_bool (ca s)))"
  using assms(4)
proof (cases rule: gpr_size_cases)
  case i64
  then show ?thesis by (simp add: sets_flags_def Op_AdcWithFlags_def step_addeo_rc add_flags_at_def result_is_def)
next
  case i32
  define a b where "a = (ucast (gpr s S1) :: u32)" and "b = (ucast (gpr s S2) :: u32)"
  define F where "F = add_flags a b (ca s)"
  obtain t where t: "run step [rldicl TMP1 S1 0 32, rldicl TMP2 S2 0 32, adde TMP3 TMP1 TMP2,
         xor_r TMP2 TMP2 TMP1, xor_r TMP1 TMP3 TMP1, andc TMP1 TMP1 TMP2, rldicl TMP2 TMP1 33 63,
         rldicl TMP4 TMP3 32 63, rldicl Dst TMP3 0 32] s = Some t"
    "keeps_but_flags (insert Dst scratch) s t" "gpr t Dst = ucast (a + b + of_bool (ca s))" "gpr t TMP4 = of_bool (FlagC F)" "gpr t TMP2 = of_bool (FlagV F)"
    using assms(1-3)
    by (simp add: step_zext32 step_adde step_xor step_andc step_isolate a_def [symmetric] b_def [symmetric] sum33_def [symmetric] low_sum33
        F_def carry_sum33 over_sum33)
  have "FlagN F = bit (ucast (gpr t Dst) :: u32) 31" "FlagZ F = ((ucast (gpr t Dst) :: u32) = 0)"
    by (simp_all add: t(3) F_def add_flags_def Let_def)
  moreover have "result_is Size False (gpr t' Dst) (gpr s S1 + gpr s S2 + of_bool (ca s))" if "keeps_but_flags {TMP1} t t'" for t'
    using that assms(1) t(3) i32 by (simp add: keeps_but_flags_def result_is_def a_def b_def low32_ring)
  ultimately have "sets_flags step (Op_AdcWithFlags cfg Size Dst S1 S2) s (insert Dst scratch) F
      (\<lambda>s'. result_is Size False (gpr s' Dst) (gpr s S1 + gpr s S2 + of_bool (ca s)))"
    unfolding Op_AdcWithFlags_def i32 using t(4,5) by (simp only: OpSize.distinct if_False) (intro sets_flags_written [OF t(1,2)]; simp)
  then show ?thesis by (simp add: F_def a_def b_def add_flags_at_def i32)
qed

lemma flags_AdcNZCV:
  assumes "guest_reg S1" "guest_reg S2" "gpr_size Size"
  shows "sets_flags step (Op_AdcNZCV cfg Size S1 S2) s scratch (add_flags_at Size (gpr s S1) (gpr s S2) (ca s)) (\<lambda>_. True)"
  using assms(3)
proof (cases rule: gpr_size_cases)
  case i64
  then show ?thesis by (simp add: sets_flags_def Op_AdcNZCV_def step_addeo_rc add_flags_at_def)
next
  case i32
  define a b where "a = (ucast (gpr s S1) :: u32)" and "b = (ucast (gpr s S2) :: u32)"
  define F where "F = add_flags a b (ca s)"
  obtain t where t: "run step [rldicl TMP1 S1 0 32, rldicl TMP2 S2 0 32, adde TMP3 TMP1 TMP2,
         xor_r TMP2 TMP2 TMP1, xor_r TMP1 TMP3 TMP1, andc TMP1 TMP1 TMP2, rldicl TMP2 TMP1 33 63, rldicl TMP4 TMP3 32 63] s = Some t"
    "keeps_but_flags scratch s t" "gpr t TMP3 = sum33 a b (ca s)" "gpr t TMP4 = of_bool (FlagC F)" "gpr t TMP2 = of_bool (FlagV F)"
    using assms(1,2)
    by (simp add: step_zext32 step_adde step_xor step_andc step_isolate a_def [symmetric] b_def [symmetric] sum33_def [symmetric]
        F_def carry_sum33 over_sum33)
  have "FlagN F = bit (ucast (gpr t TMP3) :: u32) 31" "FlagZ F = ((ucast (gpr t TMP3) :: u32) = 0)"
    by (simp_all add: t(3) low_sum33 F_def add_flags_def Let_def)
  then have "sets_flags step (Op_AdcNZCV cfg Size S1 S2) s scratch F (\<lambda>_. True)"
    unfolding Op_AdcNZCV_def i32 using t(4,5) by (simp only: OpSize.distinct if_False) (intro sets_flags_written [OF t(1,2)]; simp)
  then show ?thesis by (simp add: F_def a_def b_def add_flags_at_def i32)
qed

lemma flags_SbbWithFlags:
  assumes "guest_reg Dst" "guest_reg S1" "guest_reg S2" "gpr_size Size"
  shows "sets_flags step (Op_SbbWithFlags cfg Size Dst S1 S2) s (insert Dst scratch) (sub_flags_at Size (gpr s S1) (gpr s S2) (ca s))
    (\<lambda>s'. result_is Size False (gpr s' Dst) (gpr s S1 - gpr s S2 - of_bool (\<not> ca s)))"
  using assms(4)
proof (cases rule: gpr_size_cases)
  case i64
  have "add_flags (NOT y) x c = add_flags x (NOT y) c" "NOT y + x + of_bool c = x - y - of_bool (\<not> c)" for x y :: u64 and c
    by (simp_all add: add_flags_def Let_def ac_simps not_eq_complement)
  then show ?thesis using i64 by (simp add: sets_flags_def Op_SbbWithFlags_def step_subfeo_rc sub_flags_at_def sub_flags_def result_is_def)
next
  case i32
  define a b where "a = (ucast (gpr s S1) :: u32)" and "b = (ucast (gpr s S2) :: u32)"
  define F where "F = sub_flags a b (ca s)"
  define D where "D = sum33 a (NOT b) (ca s) - 2 ^ 32"
  have D: "NOT (ucast b) + ucast a + of_bool (ca s) = D" unfolding D_def diff33 [symmetric] by (simp add: ac_simps)
  have FD: "FlagC F \<longleftrightarrow> \<not> bit D 32" "FlagV F \<longleftrightarrow> bit ((D XOR ucast a) AND (ucast b XOR ucast a)) 31"
    unfolding F_def D_def by (simp only: sub_flags_def borrow_diff33) (rule over_diff33)
  have low: "(ucast D :: u32) = a + NOT b + of_bool (ca s)" unfolding D_def by (rule low_diff33)
  obtain t where t: "run step [rldicl TMP1 S1 0 32, rldicl TMP2 S2 0 32, subfe TMP3 TMP2 TMP1,
         xor_r TMP2 TMP2 TMP1, xor_r TMP1 TMP3 TMP1, and_r TMP1 TMP1 TMP2, rldicl TMP2 TMP1 33 63,
         rldicl TMP4 TMP3 32 63, xori TMP4 TMP4 1, rldicl Dst TMP3 0 32] s = Some t"
    "keeps_but_flags (insert Dst scratch) s t" "gpr t Dst = ucast (a + NOT b + of_bool (ca s))" "gpr t TMP4 = of_bool (FlagC F)" "gpr t TMP2 = of_bool (FlagV F)"
    using assms(1-3)
    by (simp add: step_zext32 step_subfe step_xor step_and step_xori step_isolate a_def [symmetric] b_def [symmetric] D low FD)
  have "FlagN F = bit (ucast (gpr t Dst) :: u32) 31" "FlagZ F = ((ucast (gpr t Dst) :: u32) = 0)"
    by (simp_all add: t(3) F_def sub_flags_def add_flags_def Let_def)
  moreover have "(ucast (gpr s S1 - gpr s S2 - of_bool (\<not> ca s)) :: u32) = a + NOT b + of_bool (ca s)"
    by (simp add: low32_ring a_def b_def not_eq_complement)
  then have "result_is Size False (gpr t' Dst) (gpr s S1 - gpr s S2 - of_bool (\<not> ca s))" if "keeps_but_flags {TMP1} t t'" for t'
    using that assms(1) t(3) i32 by (simp add: keeps_but_flags_def result_is_def)
  ultimately have "sets_flags step (Op_SbbWithFlags cfg Size Dst S1 S2) s (insert Dst scratch) F
      (\<lambda>s'. result_is Size False (gpr s' Dst) (gpr s S1 - gpr s S2 - of_bool (\<not> ca s)))"
    unfolding Op_SbbWithFlags_def i32 using t(4,5) by (simp only: OpSize.distinct if_False) (intro sets_flags_written [OF t(1,2)]; simp)
  then show ?thesis by (simp add: F_def a_def b_def sub_flags_at_def i32)
qed

lemma flags_SbbNZCV:
  assumes "guest_reg S1" "guest_reg S2" "gpr_size Size"
  shows "sets_flags step (Op_SbbNZCV cfg Size S1 S2) s scratch (sub_flags_at Size (gpr s S1) (gpr s S2) (ca s)) (\<lambda>_. True)"
  using assms(3)
proof (cases rule: gpr_size_cases)
  case i64
  have "add_flags (NOT y) x c = add_flags x (NOT y) c" for x y :: u64 and c
    by (simp add: add_flags_def Let_def ac_simps)
  then show ?thesis using i64 by (simp add: sets_flags_def Op_SbbNZCV_def step_subfeo_rc sub_flags_at_def sub_flags_def)
next
  case i32
  define a b where "a = (ucast (gpr s S1) :: u32)" and "b = (ucast (gpr s S2) :: u32)"
  define F where "F = sub_flags a b (ca s)"
  define D where "D = sum33 a (NOT b) (ca s) - 2 ^ 32"
  define r where "r = a + NOT b + of_bool (ca s)"
  have D: "NOT (ucast b) + ucast a + of_bool (ca s) = D" unfolding D_def diff33 [symmetric] by (simp add: ac_simps)
  have low: "(ucast D :: u32) = r" unfolding D_def r_def by (rule low_diff33)
  have FC: "FlagC F \<longleftrightarrow> \<not> bit D 32" unfolding F_def D_def by (simp only: sub_flags_def borrow_diff33)
  have FV: "FlagV F \<longleftrightarrow> bit r 31 \<noteq> bit a 31 \<and> bit b 31 \<noteq> bit a 31"
    by (auto simp: F_def sub_flags_def over_bits r_def bit_not_iff)
  have ab: "bit (gpr s S1) 31 \<longleftrightarrow> bit a 31" "bit (gpr s S2) 31 \<longleftrightarrow> bit b 31" by (simp_all add: a_def b_def bit_unsigned_iff)
  have bools: "(of_bool p XOR of_bool q :: u64) = of_bool (p \<noteq> q)" "(of_bool p AND of_bool q :: u64) = of_bool (p \<and> q)" for p q
    by (cases p; cases q; simp)+
  define pre where "pre = [rldicl TMP1 S1 0 32, rldicl TMP2 S2 0 32, subfe TMP3 TMP2 TMP1, rldicl TMP4 TMP3 0 32] @
        EmitTestNZSetCR TMP4 i32Bit @
        [rldicl TMP3 TMP3 32 63, xori TMP3 TMP3 1,
         rldicl TMP1 S1 33 63, rldicl TMP2 S2 33 63, rldicl TMP4 TMP4 33 63,
         xor_r TMP2 TMP2 TMP1, xor_r TMP4 TMP4 TMP1, and_r TMP4 TMP4 TMP2]"
  obtain t where t: "run step pre s = Some t" "keeps_but_flags scratch s t"
    "FlagN (machine_flags t) = FlagN F" "FlagZ (machine_flags t) = FlagZ F" "gpr t TMP3 = of_bool (FlagC F)" "gpr t TMP4 = of_bool (FlagV F)"
    using assms(1,2)
    by (simp add: pre_def step_zext32 step_subfe step_xor step_and step_xori step_isolate EmitTestNZSetCR_def step_extsw_rc put_def
        a_def [symmetric] b_def [symmetric] D low FC FV ab bools sext_sign sext_zero bit_unsigned_iff)
      (simp add: F_def sub_flags_def add_flags_def Let_def r_def)
  from run_SetCAFromBit [OF t(5), of TMP1 cfg] obtain t2 where t2: "run step (SetCAFromBit cfg TMP3 TMP1) t = Some t2"
    "keeps_but_flags {TMP1} t t2" "machine_flags t2 = (machine_flags t)\<lparr>FlagC := FlagC F\<rparr>" by auto
  have "gpr t2 TMP4 = of_bool (FlagV F)" using t2(2) t(6) by (simp add: keeps_but_flags_def)
  from run_SetOVFromBit [OF this, of TMP1 cfg] obtain t3 where t3: "run step (SetOVFromBit cfg TMP4 TMP1) t2 = Some t3"
    "keeps_but_flags {TMP1} t2 t3" "machine_flags t3 = (machine_flags t2)\<lparr>FlagV := FlagV F\<rparr>" by auto
  have k: "keeps_but_flags scratch s t3"
    using t(2) keeps_but_flags_mono [OF t2(2), of scratch] keeps_but_flags_mono [OF t3(2), of scratch] by (auto dest: keeps_but_flags_trans)
  have "machine_flags t3 = F" unfolding t3(3) t2(3) using t(3,4) by (cases "machine_flags t"; cases F) simp
  moreover have "Op_SbbNZCV cfg Size S1 S2 = pre @ SetCAFromBit cfg TMP3 TMP1 @ SetOVFromBit cfg TMP4 TMP1"
    by (simp add: Op_SbbNZCV_def i32 pre_def)
  then have "run step (Op_SbbNZCV cfg Size S1 S2) s = Some t3" by (simp add: run_append t(1) t2(1) t3(1))
  ultimately show ?thesis using k by (simp add: sets_flags_def F_def a_def b_def sub_flags_at_def i32)
qed

lemma flags_AdcZeroWithFlags:
  assumes "guest_reg Dst" "guest_reg Src" "gpr_size Size"
  shows "sets_flags step (Op_AdcZeroWithFlags cfg Size Dst Src) s (insert Dst scratch) (add_flags_at Size (gpr s Src) 0 (\<not> ca s))
    (\<lambda>s'. result_is Size False (gpr s' Dst) (gpr s Src + of_bool (\<not> ca s)))"
proof -
  have inv: "NOT x + x + of_bool c = - of_bool (\<not> c)" for x :: u64 and c by (cases c) (simp_all add: not_eq_complement)
  have fl: "add_flags x (of_bool c) False = add_flags x 0 c" for x :: u64 and c
    by (cases c) (simp_all add: add_flags_def Let_def)
  show ?thesis using assms(3)
  proof (cases rule: gpr_size_cases)
    case i64
    then show ?thesis using assms(1,2)
      by (simp add: sets_flags_def Op_AdcZeroWithFlags_def step_subfe step_neg step_addco_rc inv fl add_flags_at_def result_is_def)
  next
    case i32
    define a where "a = (ucast (gpr s Src) :: u32)"
    define F where "F = add_flags a 0 (\<not> ca s)"
    have sum: "ucast a + of_bool (\<not> ca s) = sum33 a 0 (\<not> ca s)" by (simp add: sum33_def)
    have FV: "FlagV F \<longleftrightarrow> bit (sum33 a 0 (\<not> ca s)) 31 \<and> \<not> bit a 31"
      by (auto simp: F_def over_bits sign_sum33)
    have bools: "(of_bool p XOR 1 :: u64) = of_bool (\<not> p)" "(of_bool p AND of_bool q :: u64) = of_bool (p \<and> q)" for p q
      by (cases p; cases q; simp)+
    obtain t where t: "run step ([subfe TMP4 r0 r0, neg TMP4 TMP4] @
        [rldicl TMP1 Src 0 32, add TMP3 TMP1 TMP4, rldicl TMP4 TMP3 33 63, rldicl TMP1 TMP1 33 63, xori TMP1 TMP1 1,
         and_r TMP4 TMP4 TMP1, rldicl TMP2 TMP3 32 63, rldicl Dst TMP3 0 32]) s = Some t"
      "keeps_but_flags (insert Dst scratch) s t" "gpr t Dst = ucast (a + 0 + of_bool (\<not> ca s))" "gpr t TMP2 = of_bool (FlagC F)" "gpr t TMP4 = of_bool (FlagV F)"
      using assms(1,2)
      by (simp add: step_subfe step_neg inv step_zext32 step_add step_isolate step_xori step_and a_def [symmetric] sum bools low_sum33 FV
          carry_sum33 [of a 0 "\<not> ca s", folded F_def] bit_unsigned_iff)
    have "FlagN F = bit (ucast (gpr t Dst) :: u32) 31" "FlagZ F = ((ucast (gpr t Dst) :: u32) = 0)"
      by (simp_all add: t(3) F_def add_flags_def Let_def)
    moreover have "result_is Size False (gpr t' Dst) (gpr s Src + of_bool (\<not> ca s))" if "keeps_but_flags {TMP1} t t'" for t'
      using that assms(1) t(3) i32 by (simp add: keeps_but_flags_def result_is_def a_def low32_ring)
    ultimately have "sets_flags step (Op_AdcZeroWithFlags cfg Size Dst Src) s (insert Dst scratch) F
        (\<lambda>s'. result_is Size False (gpr s' Dst) (gpr s Src + of_bool (\<not> ca s)))"
      unfolding Op_AdcZeroWithFlags_def i32 using t(4,5)
      by (simp only: OpSize.distinct if_False append_assoc [symmetric, of "[_, _]"]) (intro sets_flags_written [OF t(1,2)]; simp)
    then show ?thesis by (simp add: F_def a_def add_flags_at_def i32)
  qed
qed

lemma adc_value_only: "adc r a b c False False s = setr r (a + b + of_bool c) (s\<lparr>ca := adc_carry a b c\<rparr>)"
  by (simp add: adc_def put_def Let_def)

lemma flags_Adc:
  assumes "guest_reg Dst" "guest_reg S1" "guest_reg S2" "gpr_size Size"
  shows "sets_flags step (Op_Adc Size Dst S1 S2) s (insert Dst scratch) ((machine_flags s)\<lparr>FlagC := adc_carry (gpr s S1) (gpr s S2) (ca s)\<rparr>)
    (\<lambda>s'. result_is Size False (gpr s' Dst) (gpr s S1 + gpr s S2 + of_bool (ca s)))"
  using assms by (simp add: sets_flags_def Op_Adc_def step_adde step_zext32 result_is_def)

lemma flags_Sbb:
  assumes "guest_reg Dst" "guest_reg S1" "guest_reg S2" "gpr_size Size"
  shows "sets_flags step (Op_Sbb Size Dst S1 S2) s (insert Dst scratch) ((machine_flags s)\<lparr>FlagC := adc_carry (NOT (gpr s S2)) (gpr s S1) (ca s)\<rparr>)
    (\<lambda>s'. result_is Size False (gpr s' Dst) (gpr s S1 - gpr s S2 - of_bool (\<not> ca s)))"
proof -
  define v where "v = NOT (gpr s S2) + gpr s S1 + of_bool (ca s)"
  have v: "gpr s S1 - gpr s S2 - of_bool (\<not> ca s) = v" by (simp add: v_def not_eq_complement)
  show ?thesis unfolding v using assms
    by (simp add: sets_flags_def Op_Sbb_def step_subfe step_zext32 result_is_def flip: v_def)
qed

lemma computes_AdcZero:
  assumes "guest_reg Dst" "guest_reg Src" "gpr_size Size"
  shows "computes step (Op_AdcZero Size Dst Src) s Dst (\<lambda>v. result_is Size False v (gpr s Src + of_bool (\<not> ca s)))"
proof -
  have inv: "NOT x + x + of_bool c = - of_bool (\<not> c)" for x :: u64 and c by (cases c) (simp_all add: not_eq_complement)
  have "adc_carry (NOT x) x c = c" for x c by (simp add: adc_carry_def uint_not)
  then have "adc TMP2 (NOT (gpr s r0)) (gpr s r0) (ca s) False False s = setr TMP2 (- of_bool (\<not> ca s)) s"
    by (simp add: adc_value_only inv)
  then show ?thesis using assms
    by (simp add: computes_def Op_AdcZero_def step_subfe step_subf step_zext32 result_is_def)
qed

lemma step_low_bit: "exec step (rldicl ra rs 0 63) s = Some (setr ra (of_bool (bit (gpr s rs) 0)) s)"
proof -
  have "word_rotl 0 x AND mask64 63 63 = (of_bool (bit x 0) :: u64)" for x :: u64
    by (intro bit_word_eqI) (auto simp: bit_and_iff bit_mask64 bit_1_iff bit_word_rotl_iff simp del: bit_0 intro!: gr0I)
  then show ?thesis by (simp add: step_rldicl del: bit_0)
qed

lemma over_doubled: "adc_over (push_bit 62 (of_bool B)) (push_bit 62 (of_bool B)) False = B"
  by (cases B) (simp_all add: adc_over_def)

lemma run_small_overflow:
  fixes n :: u32
  assumes "guest_reg Src" "n = 7 \<or> n = 15"
  shows "\<exists>s'. run step [srdi TMP2 Src n, srdi TMP3 TMP2 1, xor_r TMP2 TMP2 TMP3, rldicl TMP2 TMP2 0 63, sldi TMP2 TMP2 62, addo TMP2 TMP2 TMP2] s = Some s'
    \<and> keeps_but_flags scratch s s' \<and> machine_flags s' = (machine_flags s)\<lparr>FlagV := bit (gpr s Src) (Suc (unat n)) \<noteq> bit (gpr s Src) (unat n)\<rparr>"
proof -
  have "bit (drop_bit (unat n) x XOR drop_bit 1 (drop_bit (unat n) x)) 0 \<longleftrightarrow> bit x (Suc (unat n)) \<noteq> bit x (unat n)" for x :: u64
    by (auto simp: bit_xor_iff bit_drop_bit_eq simp del: bit_0)
  moreover have "0 < unat n" "unat n < 64" using assms(2) by auto
  ultimately show ?thesis using assms(1)
    by (simp add: step_srdi step_xor step_low_bit step_sldi_u32 step_addo over_doubled del: bit_0 drop_bit_drop_bit)
qed

lemma flags_SetSmallNZV:
  assumes "guest_reg Src" "(Size, w) = (i8Bit, 8) \<or> (Size, w) = (i16Bit, 16)"
  shows "sets_flags step (Op_SetSmallNZV Size Src) s scratch
    ((logic_flags_at Size (gpr s Src))\<lparr>FlagC := ca s, FlagV := bit (gpr s Src) w \<noteq> bit (gpr s Src) (w - 1)\<rparr>) (\<lambda>_. True)"
proof -
  define ext where "ext = (if Size = i8Bit then extsb_rc TMP1 Src else extsh_rc TMP1 Src)"
  define n :: u32 where "n = (if Size = i8Bit then 7 else 15)"
  define v :: u64 where "v = (if Size = i8Bit then scast (ucast (gpr s Src) :: u8) else scast (ucast (gpr s Src) :: u16))"
  have ext: "exec step ext s = Some (put TMP1 v True s)"
    by (simp add: ext_def v_def step_extsb_rc step_extsh_rc)
  have n: "n = 7 \<or> n = 15" "unat n = w - 1" "Suc (unat n) = w" using assms(2) by (auto simp: n_def)
  have src: "gpr (put TMP1 v True s) Src = gpr s Src" using assms(1) by (simp add: put_def set_cr0_def)
  obtain s' where s': "run step [srdi TMP2 Src n, srdi TMP3 TMP2 1, xor_r TMP2 TMP2 TMP3, rldicl TMP2 TMP2 0 63, sldi TMP2 TMP2 62, addo TMP2 TMP2 TMP2] (put TMP1 v True s) = Some s'"
    "keeps_but_flags scratch (put TMP1 v True s) s'"
    "machine_flags s' = (machine_flags (put TMP1 v True s))\<lparr>FlagV := bit (gpr s Src) w \<noteq> bit (gpr s Src) (w - 1)\<rparr>"
    using run_small_overflow [OF assms(1) n(1), of "put TMP1 v True s", unfolded n(3) src] unfolding n(2) by blast
  have "keeps_but_flags scratch s s'"
    using keeps_but_flags_trans [OF _ s'(2), of s] by (simp add: put_def)
  moreover have "machine_flags s' = (logic_flags_at Size (gpr s Src))\<lparr>FlagC := ca s, FlagV := bit (gpr s Src) w \<noteq> bit (gpr s Src) (w - 1)\<rparr>"
    unfolding s'(3) using assms(2)
    by (auto simp: put_def v_def logic_flags_at_def logic_flags_def sext_sign sext_zero machine_flags_def [of s])
  moreover have "Op_SetSmallNZV Size Src = ext # [srdi TMP2 Src n, srdi TMP3 TMP2 1, xor_r TMP2 TMP2 TMP3, rldicl TMP2 TMP2 0 63, sldi TMP2 TMP2 62, addo TMP2 TMP2 TMP2]"
    by (simp add: Op_SetSmallNZV_def ext_def n_def)
  ultimately show ?thesis using s'(1) by (auto simp: sets_flags_def ext simp del: run.simps(2) simp: run_Cons)
qed

end

end
