(* ===== verification/Alu_Wide.thy ===== *)
theory Alu_Wide
  imports Alu_Flags
begin

text \<open>
  What the flag-setting operations of \<open>ALUOps.cpp\<close> promise to the code around them: additions and
  subtractions over a pair of registers, whose carry travels from one operation to the next in XER, the
  comparisons and tests the branches read, and the small-width forms.
\<close>

subsection \<open>Two-register arithmetic\<close>

lemma uint_pair: "uint (word_cat a b :: 128 word) = uint (a :: u64) * 2 ^ 64 + uint (b :: u64)"
proof -
  have "uint (word_cat a b :: 128 word) = take_bit 128 (concat_bit 64 (uint b) (uint a))"
    by (simp add: word_cat_eq' uint_word_of_int_eq)
  also have "concat_bit 64 (uint b) (uint a) = uint a * 2 ^ 64 + uint b"
    using take_bit_uint [of b] by (simp add: concat_bit_eq push_bit_eq_mult)
  also have "take_bit 128 (uint a * 2 ^ 64 + uint b) = uint a * 2 ^ 64 + uint b"
    using uint_bounded [of a] uint_bounded [of b] by (intro take_bit_int_eq_self) simp_all
  finally show ?thesis .
qed

lemma top_pair: "bit (word_cat a b :: 128 word) 127 \<longleftrightarrow> bit (a :: u64) 63" for b :: u64
  by (simp add: bit_word_cat_iff)

lemma sint_pair: "sint (word_cat a b :: 128 word) = sint (a :: u64) * 2 ^ 64 + uint (b :: u64)"
  using uint_pair [of a b] top_pair [of a b] by (simp add: sint_msb)

lemma scaled_bounds:
  fixes l X :: int
  assumes "0 \<le> l" "l < 2 ^ 64"
  shows "2 ^ 128 \<le> X * 2 ^ 64 + l \<longleftrightarrow> 2 ^ 64 \<le> X" "- (2 ^ 127) \<le> X * 2 ^ 64 + l \<longleftrightarrow> - (2 ^ 63) \<le> X" "X * 2 ^ 64 + l < 2 ^ 127 \<longleftrightarrow> X < 2 ^ 63"
  using assms by (simp_all, linarith+)

lemma add_pair:
  fixes a1 a0 b1 b0 :: u64
  defines "c \<equiv> FlagC (add_flags a0 b0 False)" and "A \<equiv> (word_cat a1 a0 :: 128 word)" and "B \<equiv> (word_cat b1 b0 :: 128 word)"
  shows "word_cat (a1 + b1 + of_bool c) (a0 + b0) = A + B"
    "FlagN (add_flags a1 b1 c) = FlagN (add_flags A B False)"
    "FlagC (add_flags a1 b1 c) = FlagC (add_flags A B False)"
    "FlagV (add_flags a1 b1 c) = FlagV (add_flags A B False)"
proof -
  have lo: "uint a0 + uint b0 = uint (a0 + b0) + 2 ^ 64 * of_bool c"
    using uint_bounded [of a0] uint_bounded [of b0] by (auto simp: c_def add_flags_def Let_def uint_plus_if')
  have bounds: "0 \<le> uint (a0 + b0)" "uint (a0 + b0) < 2 ^ 64" using uint_bounded [of "a0 + b0"] by simp_all
  have hi: "uint (a1 + b1 + of_bool c) mod 2 ^ 64 = (uint a1 + uint b1 + of_bool c) mod 2 ^ 64"
    by (simp add: uint_word_ariths mod_simps)
  show sum: "word_cat (a1 + b1 + of_bool c) (a0 + b0) = A + B"
  proof (rule word_uint_eqI)
    define k where "k = (uint a1 + uint b1 + of_bool c) div 2 ^ 64"
    have k: "uint a1 + uint b1 + of_bool c = uint (a1 + b1 + of_bool c) + 2 ^ 64 * k"
      using hi uint_bounded [of "a1 + b1 + of_bool c"] mult_div_mod_eq [of "2 ^ 64" "uint a1 + uint b1 + of_bool c"] unfolding k_def by simp
    have "uint A + uint B = uint (word_cat (a1 + b1 + of_bool c) (a0 + b0) :: 128 word) + 2 ^ 128 * k"
      using k lo by (simp add: A_def B_def uint_pair algebra_simps)
    then show "uint (word_cat (a1 + b1 + of_bool c) (a0 + b0) :: 128 word) = uint (A + B)"
      using uint_bounded [of "word_cat (a1 + b1 + of_bool c) (a0 + b0) :: 128 word"] by (simp add: uint_word_arith_bintrs(1) take_bit_eq_mod)
  qed
  show "FlagN (add_flags a1 b1 c) = FlagN (add_flags A B False)"
    by (simp add: add_flags_def Let_def top_pair flip: sum)
  have wide: "uint A + uint B = (uint a1 + uint b1 + of_bool c) * 2 ^ 64 + uint (a0 + b0)"
    "sint A + sint B = (sint a1 + sint b1 + of_bool c) * 2 ^ 64 + uint (a0 + b0)"
    using lo by (simp_all add: A_def B_def uint_pair sint_pair algebra_simps)
  have flags: "FlagC (add_flags A B False) \<longleftrightarrow> 2 ^ 128 \<le> uint A + uint B"
    "FlagV (add_flags A B False) \<longleftrightarrow> \<not> (- (2 ^ 127) \<le> sint A + sint B \<and> sint A + sint B < 2 ^ 127)"
    by (simp_all add: add_flags_def Let_def)
  show "FlagC (add_flags a1 b1 c) = FlagC (add_flags A B False)" "FlagV (add_flags a1 b1 c) = FlagV (add_flags A B False)"
    unfolding flags wide scaled_bounds [OF bounds] by (simp_all add: add_flags_def Let_def)
qed

subsection \<open>The generated code\<close>

text \<open>C26: A 128-bit addition made of \<open>DEF_OP(AddWithFlags)\<close> on the low registers and \<open>DEF_OP(AdcWithFlags)\<close> on the high ones leaves the
  128-bit sum in the pair, and the sign, carry and overflow the machine then holds are those of the 128-bit addition: the carry the
  first operation leaves in XER is the one the second consumes.\<close>
theorem wide_addition:
  assumes "guest_reg Lo" "guest_reg Hi" "guest_reg A0" "guest_reg A1" "guest_reg B0" "guest_reg B1" "Lo \<notin> {Hi, A1, B1}"
  defines "A s \<equiv> (word_cat (gpr s A1) (gpr s A0) :: 128 word)" and "B s \<equiv> (word_cat (gpr s B1) (gpr s B0) :: 128 word)"
  shows "\<exists>s'. run isa_step (Op_AddWithFlags cfg i64Bit Lo A0 (Reg B0) @ Op_AdcWithFlags cfg i64Bit Hi A1 B1) s = Some s' \<and>
    word_cat (gpr s' Hi) (gpr s' Lo) = A s + B s \<and>
    FlagN (machine_flags s') = FlagN (add_flags (A s) (B s) False) \<and>
    FlagC (machine_flags s') = FlagC (add_flags (A s) (B s) False) \<and>
    FlagV (machine_flags s') = FlagV (add_flags (A s) (B s) False) \<and>
    keeps_but_flags ({Lo, Hi} \<union> scratch) s s'"
proof -
  define c where "c = FlagC (add_flags (gpr s A0) (gpr s B0) False)"
  have size: "gpr_size i64Bit" "guest_operand (Reg B0)" using assms(5) by (simp_all add: gpr_size_def)
  obtain t where t: "run isa_step (Op_AddWithFlags cfg i64Bit Lo A0 (Reg B0)) s = Some t" "keeps_but_flags (insert Lo scratch) s t"
    "machine_flags t = add_flags (gpr s A0) (gpr s B0) False" "gpr t Lo = gpr s A0 + gpr s B0"
    using ppc.flags_AddWithFlags [OF assms(1,3) size(2,1), of cfg s] by (auto simp: sets_flags_def result_is_def add_flags_at_def)
  have "FlagC (machine_flags t) = c" unfolding t(3) c_def ..
  then have c: "ca t = c" by (simp add: machine_flags_def)
  obtain u where u: "run isa_step (Op_AdcWithFlags cfg i64Bit Hi A1 B1) t = Some u" "keeps_but_flags (insert Hi scratch) t u"
    "machine_flags u = add_flags (gpr t A1) (gpr t B1) c" "gpr u Hi = gpr t A1 + gpr t B1 + of_bool c"
    using ppc.flags_AdcWithFlags [OF assms(2,4,6) size(1), of cfg t] c by (auto simp: sets_flags_def result_is_def add_flags_at_def)
  have same: "gpr t A1 = gpr s A1" "gpr t B1 = gpr s B1" "gpr u Lo = gpr t Lo"
    using t(2) u(2) assms by (auto simp: keeps_but_flags_def scratch_def)
  have "keeps_but_flags ({Lo, Hi} \<union> scratch) s u"
    by (rule ppc.keeps_but_flags_trans [OF ppc.keeps_but_flags_mono [OF t(2)] ppc.keeps_but_flags_mono [OF u(2)]]) auto
  then show ?thesis
    using t(1,4) u(1,3,4) add_pair [of "gpr s A1" "gpr s B1" "gpr s A0" "gpr s B0", folded c_def]
    by (auto simp: run_append same A_def B_def)
qed

theorem wide_addition_witness:
  "\<exists>s'. run isa_step (Op_AddWithFlags default_config i64Bit 7 7 (Reg 9) @ Op_AdcWithFlags default_config i64Bit 8 8 10)
      (machine_at [(7, 0xFFFFFFFFFFFFFFFF), (8, 1), (9, 1), (10, 2)]) = Some s' \<and>
    word_cat (gpr s' 8) (gpr s' 7) = (4 * 2 ^ 64 :: 128 word) \<and> \<not> FlagC (machine_flags s')"
proof -
  let ?s = "machine_at [(7, 0xFFFFFFFFFFFFFFFF), (8, 1), (9, 1), (10, 2)]"
  have g: "guest_reg 7" "guest_reg 8" "guest_reg 9" "guest_reg 10" "(7 :: GPR) \<notin> {8, 8, 10}" by (simp_all add: guest_regs_decide)
  have cat: "word_cat (gpr ?s 8) (gpr ?s 7) = (0x1FFFFFFFFFFFFFFFF :: 128 word)" "word_cat (gpr ?s 10) (gpr ?s 9) = (0x20000000000000001 :: 128 word)"
    by (simp_all add: word_cat_eq)
  have sum: "0x1FFFFFFFFFFFFFFFF + 0x20000000000000001 = (4 * 2 ^ 64 :: 128 word)" by simp
  have "\<not> FlagC (add_flags (0x1FFFFFFFFFFFFFFFF :: 128 word) 0x20000000000000001 False)" by (simp add: add_flags_def)
  then show ?thesis
    using wide_addition [OF g(1,2,1,2,3,4,5), of default_config ?s, unfolded cat sum] by metis
qed

text \<open>C27: The compare and add-compare operations (\<open>DEF_OP(SubNZCV)\<close>, \<open>DEF_OP(AddNZCV)\<close>), at 8, 16, 32 and 64 bits and for registers and
  inline constants, leave in CR0.LT, CR0.EQ, XER.CA and XER.OV exactly the sign, zero, carry and overflow of the subtraction or
  addition at that width, ignoring the bits above it, and write no guest register.\<close>
theorem compares_correct:
  assumes "guest_reg S1" "guest_operand Src2" "count_size Size"
  shows "sets_flags isa_step (Op_SubNZCV cfg Size (Reg S1) Src2) s scratch (sub_flags_at Size (gpr s S1) (value_of s Src2) True) (\<lambda>_. True) \<and>
    sets_flags isa_step (Op_AddNZCV cfg Size S1 Src2) s scratch (add_flags_at Size (gpr s S1) (value_of s Src2) False) (\<lambda>_. True)"
  using ppc.flags_AddNZCV [OF assms, of cfg s] ppc.flags_SubNZCV [of "Reg S1" Src2 Size cfg s] assms by simp

theorem compares_correct_witness:
  "sets_flags isa_step (Op_SubNZCV default_config i8Bit (Reg 7) (InlineConstant 1)) (machine_at [(7, 0x7780)]) scratch
     \<lparr>FlagN = False, FlagZ = False, FlagC = True, FlagV = True\<rparr> (\<lambda>_. True)"
  using compares_correct [of 7 "InlineConstant 1" i8Bit default_config "machine_at [(7, 0x7780)]"]
  by (simp add: decide_operation count_size_def sub_flags_at_def sub_flags_def add_flags_def Let_def bit_iff_odd)

text \<open>C28: The additions and subtractions with carry (\<open>DEF_OP(AdcWithFlags)\<close>, \<open>SbbWithFlags\<close>, \<open>AdcZeroWithFlags\<close>), at 32 and 64 bits,
  consume XER.CA, leave the result and the four flags of the operation at that width, and do so both with the carry and
  overflow synthesised by arithmetic and with them inserted into XER (\<open>FEX_NOXERARITH\<close>).\<close>
theorem carries_correct:
  assumes "guest_reg Dst" "guest_reg S1" "guest_reg S2" "gpr_size Size"
  shows "sets_flags isa_step (Op_AdcWithFlags cfg Size Dst S1 S2) s (insert Dst scratch) (add_flags_at Size (gpr s S1) (gpr s S2) (ca s))
      (\<lambda>s'. result_is Size False (gpr s' Dst) (gpr s S1 + gpr s S2 + of_bool (ca s))) \<and>
    sets_flags isa_step (Op_SbbWithFlags cfg Size Dst S1 S2) s (insert Dst scratch) (sub_flags_at Size (gpr s S1) (gpr s S2) (ca s))
      (\<lambda>s'. result_is Size False (gpr s' Dst) (gpr s S1 - gpr s S2 - of_bool (\<not> ca s))) \<and>
    sets_flags isa_step (Op_AdcZeroWithFlags cfg Size Dst S1) s (insert Dst scratch) (add_flags_at Size (gpr s S1) 0 (\<not> ca s))
      (\<lambda>s'. result_is Size False (gpr s' Dst) (gpr s S1 + of_bool (\<not> ca s)))"
  using ppc.flags_AdcWithFlags [OF assms] ppc.flags_SbbWithFlags [OF assms] ppc.flags_AdcZeroWithFlags [OF assms(1,2,4)] by blast

theorem carries_correct_witness:
  "sets_flags isa_step (Op_SbbWithFlags default_config i64Bit 8 7 9) (machine_at [(7, 5), (9, 5)]) (insert 8 scratch)
     \<lparr>FlagN = True, FlagZ = False, FlagC = False, FlagV = False\<rparr> (\<lambda>s'. gpr s' 8 = - 1)"
  using carries_correct [of 8 7 9 i64Bit default_config "machine_at [(7, 5), (9, 5)]"]
  by (simp add: decide_operation sub_flags_at_def sub_flags_def add_flags_def Let_def)

text \<open>C29: The tests (\<open>DEF_OP(TestNZ)\<close>, \<open>DEF_OP(TestZ)\<close>) and the conjunction with flags (\<open>DEF_OP(AndWithFlags)\<close>), at 8, 16, 32 and 64 bits
  and for registers and every inline mask, set sign and zero from the conjunction at that width and clear carry and overflow;
  the latter also writes the conjunction, zero-extended.\<close>
theorem tests_correct:
  assumes "guest_reg Dst" "guest_reg S1" "guest_operand Src2" "count_size Size" "gpr s r0 = 0"
  shows "sets_flags isa_step (Op_TestNZ cfg Size S1 Src2) s scratch (logic_flags_at Size (gpr s S1 AND value_of s Src2)) (\<lambda>_. True) \<and>
    sets_flags isa_step (Op_TestZ cfg Size S1 Src2) s scratch (logic_flags_at Size (gpr s S1 AND value_of s Src2)) (\<lambda>_. True) \<and>
    sets_flags isa_step (Op_AndWithFlags cfg Size Dst S1 Src2) s (insert Dst scratch) (logic_flags_at Size (gpr s S1 AND value_of s Src2))
      (\<lambda>s'. gpr s' Dst = take_bit (8 * OpSizeToSize Size) (gpr s S1 AND value_of s Src2))"
  using ppc.flags_TestNZ [OF assms(2-5)] ppc.flags_TestZ [OF assms(2-5)] ppc.flags_AndWithFlags [OF assms] by blast

theorem tests_correct_witness:
  "sets_flags isa_step (Op_TestNZ default_config i8Bit 7 (InlineConstant 0x80)) (machine_at [(7, 0x1F0)]) scratch
     \<lparr>FlagN = True, FlagZ = False, FlagC = False, FlagV = False\<rparr> (\<lambda>_. True)"
  using tests_correct [of 8 7 "InlineConstant 0x80" i8Bit "machine_at [(7, 0x1F0)]" default_config]
  by (simp add: decide_operation count_size_def logic_flags_at_def logic_flags_def bit_iff_odd)

text \<open>\<open>DEF_OP(SetSmallNZV)\<close>, which follows an 8- or 16-bit increment or decrement computed at 32 bits, takes sign and zero from the
  low byte or halfword, overflow from the disagreement of its top bit with the bit above it, and preserves carry.\<close>
lemma Op_SetSmallNZV_correct:
  assumes "guest_reg Src" "(Size, w) = (i8Bit, 8) \<or> (Size, w) = (i16Bit, 16)"
  shows "sets_flags isa_step (Op_SetSmallNZV Size Src) s scratch
    ((logic_flags_at Size (gpr s Src))\<lparr>FlagC := ca s, FlagV := bit (gpr s Src) w \<noteq> bit (gpr s Src) (w - 1)\<rparr>) (\<lambda>_. True)"
  by (rule ppc.flags_SetSmallNZV [OF assms])

end
