(* ===== verification/Alu_Cond.thy ===== *)
theory Alu_Cond
  imports Alu_Flags
begin

text \<open>
  Conditions over the guest flags (\<open>MapNZCVCC\<close> and \<open>ProjectXERToCR1\<close> in \<open>JIT/PPC64LE/JIT.cpp\<close>) and the
  operations of \<open>ALUOps.cpp\<close> that consume or move those flags: the selects, the conditional negation, and the
  loads, stores, inversions and insertions of NZCV.

  The host keeps N and Z in CR0.LT and CR0.EQ, C and V in XER.CA and XER.OV.  A condition that needs C or V first
  copies them to CR1; composite conditions are formed in CR3.  \<open>XERProjectionValid\<close>, which lets a second
  condition skip the copy, is an argument and a result of the emitting functions.  The hosts considered are those
  of Power ISA 2.07: with \<open>SupportsISA30\<close> the copy is the \<open>mcrxrx\<close> instruction, which the machine does not have.
\<close>

subsection \<open>Conditions\<close>

datatype CondClass = EQ | NEQ | UGE | ULT | MI | PL | VS | VC | UGT | ULE | SGE | SLT | SGT | SLE | TSTZ | TSTNZ
  | FLU | FGE | FLEU | FGT | FU | FNU | AL

definition IntegerNZCVCond :: "CondClass \<Rightarrow> CondClass" where
  "IntegerNZCVCond C = (if C = FU then VS else if C = FNU then VC else C)"

definition XEROVBitIndex :: "bool \<Rightarrow> u32" where
  "XEROVBitIndex SupportsISA30 = (if SupportsISA30 then 4 else 5)"

definition ProjectXERToCR1 :: "bool \<Rightarrow> bool \<Rightarrow> insn list" where
  "ProjectXERToCR1 SupportsISA30 XERProjectionValid =
     (if XERProjectionValid then []
      else if SupportsISA30 then [mcrxrx 1]
      else [mfspr TMP1 1, rlwinm TMP2 TMP1 28 0 31, mtocrf 0x40 TMP2])"

text \<open>The instructions, the condition to test afterwards, and whether the projection is then in CR1.\<close>

definition MapNZCVCC :: "bool \<Rightarrow> bool \<Rightarrow> CondClass \<Rightarrow> insn list \<times> Cond \<times> bool" where
  "MapNZCVCC SupportsISA30 XERProjectionValid C =
     (let OVBit = XEROVBitIndex SupportsISA30; project = ProjectXERToCR1 SupportsISA30 XERProjectionValid in
      case C of
        EQ \<Rightarrow> ([], \<lparr>BO = 12, BI = 2\<rparr>, XERProjectionValid)
      | NEQ \<Rightarrow> ([], \<lparr>BO = 4, BI = 2\<rparr>, XERProjectionValid)
      | MI \<Rightarrow> ([], \<lparr>BO = 12, BI = 0\<rparr>, XERProjectionValid)
      | PL \<Rightarrow> ([], \<lparr>BO = 4, BI = 0\<rparr>, XERProjectionValid)
      | UGE \<Rightarrow> (project, \<lparr>BO = 12, BI = 6\<rparr>, True)
      | ULT \<Rightarrow> (project, \<lparr>BO = 4, BI = 6\<rparr>, True)
      | VS \<Rightarrow> (project, \<lparr>BO = 12, BI = OVBit\<rparr>, True)
      | VC \<Rightarrow> (project, \<lparr>BO = 4, BI = OVBit\<rparr>, True)
      | UGT \<Rightarrow> (project @ [crandc 12 6 2], \<lparr>BO = 12, BI = 12\<rparr>, True)
      | ULE \<Rightarrow> (project @ [crandc 12 6 2], \<lparr>BO = 4, BI = 12\<rparr>, True)
      | SLT \<Rightarrow> (project @ [crxor 12 0 OVBit], \<lparr>BO = 12, BI = 12\<rparr>, True)
      | SGE \<Rightarrow> (project @ [crxor 12 0 OVBit], \<lparr>BO = 4, BI = 12\<rparr>, True)
      | SGT \<Rightarrow> (project @ [crxor 12 0 OVBit, crnor 13 12 2], \<lparr>BO = 12, BI = 13\<rparr>, True)
      | SLE \<Rightarrow> (project @ [crxor 12 0 OVBit, crnor 13 12 2], \<lparr>BO = 4, BI = 13\<rparr>, True)
      | FLU \<Rightarrow> (project @ [cror 12 0 OVBit], \<lparr>BO = 12, BI = 12\<rparr>, True)
      | FGE \<Rightarrow> (project @ [crnor 12 0 OVBit], \<lparr>BO = 12, BI = 12\<rparr>, True)
      | FLEU \<Rightarrow> ([], \<lparr>BO = 4, BI = 1\<rparr>, XERProjectionValid)
      | FGT \<Rightarrow> ([], \<lparr>BO = 12, BI = 1\<rparr>, XERProjectionValid)
      | FU \<Rightarrow> (project, \<lparr>BO = 12, BI = OVBit\<rparr>, True)
      | FNU \<Rightarrow> (project, \<lparr>BO = 4, BI = OVBit\<rparr>, True)
      | _ \<Rightarrow> ([None], \<lparr>BO = 12, BI = 2\<rparr>, XERProjectionValid))"

subsection \<open>Selects and conditional negation\<close>

definition Op_NZCVSelect :: "Config \<Rightarrow> bool \<Rightarrow> bool \<Rightarrow> OpSize \<Rightarrow> bool \<Rightarrow> CondClass \<Rightarrow> GPR \<Rightarrow> operand \<Rightarrow> operand \<Rightarrow> insn list" where
  "Op_NZCVSelect cfg SupportsISA30 Valid Size Elided C Dst TrueVal FalseVal =
     (let (pre, CC, _) = MapNZCVCC SupportsISA30 Valid (IntegerNZCVCond C);
          all_ones = (if Size = i64Bit then 0xFFFFFFFFFFFFFFFF else 0xFFFFFFFF :: u64);
          tail = (if size_le_32 Size then Mask32Tail Elided Dst else [])
      in case TrueVal of
           InlineConstant const_true \<Rightarrow>
             if FalseVal = InlineConstant 0 \<and> (const_true = 1 \<or> const_true = all_ones) then
               pre @ LoadConstant cfg TMP1 (if const_true = all_ones then 0xFFFFFFFFFFFFFFFF else 1) @ [iselcc Dst CC TMP1 0] @ tail
             else [None]
         | Reg T \<Rightarrow>
             (case FalseVal of
                InlineConstant const_false \<Rightarrow> pre @ LoadConstant cfg TMP1 const_false @ [iselcc Dst CC T TMP1] @ tail
              | Reg F \<Rightarrow> pre @ [iselcc Dst CC T F] @ tail))"

definition Op_NZCVSelectIncrement :: "Config \<Rightarrow> bool \<Rightarrow> bool \<Rightarrow> OpSize \<Rightarrow> bool \<Rightarrow> CondClass \<Rightarrow> GPR \<Rightarrow> operand \<Rightarrow> operand \<Rightarrow> insn list" where
  "Op_NZCVSelectIncrement cfg SupportsISA30 Valid Size Elided C Dst TrueVal FalseVal =
     (let (pre, CC, _) = MapNZCVCC SupportsISA30 Valid (IntegerNZCVCond C);
          plus_one = (case FalseVal of InlineConstant const_false \<Rightarrow> LoadConstant cfg TMP2 (const_false + 1) | Reg F \<Rightarrow> [addi TMP2 F 1]);
          (load, TrueReg) = operand_in cfg TMP1 TrueVal
      in pre @ plus_one @ load @ [iselcc Dst CC TrueReg TMP2] @ (if size_le_32 Size then Mask32Tail Elided Dst else []))"

definition Op_Neg :: "bool \<Rightarrow> bool \<Rightarrow> OpSize \<Rightarrow> bool \<Rightarrow> CondClass \<Rightarrow> GPR \<Rightarrow> GPR \<Rightarrow> insn list" where
  "Op_Neg SupportsISA30 Valid Size Elided C Dst Src =
     (if C = AL then [neg Dst Src]
      else let (pre, CC, _) = MapNZCVCC SupportsISA30 Valid (IntegerNZCVCond C) in [neg TMP4 Src] @ pre @ [iselcc Dst CC TMP4 Src]) @
     tail32 Size Elided Dst"

subsection \<open>Moving the flags\<close>

definition Op_LoadNZCV :: "GPR \<Rightarrow> insn list" where
  "Op_LoadNZCV Dst =
     [mfocrf TMP1 0x80, mfspr TMP2 1, rlwinm Dst TMP1 0 0 0, rlwimi Dst TMP1 1 1 1, rlwimi Dst TMP2 0 2 2, rlwimi Dst TMP2 30 3 3]"

definition Op_StoreNZCV :: "Config \<Rightarrow> GPR \<Rightarrow> insn list" where
  "Op_StoreNZCV cfg Src =
     [rlwinm TMP1 Src 0 0 0, rlwimi TMP1 Src 31 2 2, mtocrf 0x80 TMP1] @
     [rlwinm TMP1 Src 3 31 31] @ SetCAFromBit cfg TMP1 TMP2 @ [rlwinm TMP1 Src 4 31 31] @ SetOVFromBit cfg TMP1 TMP2"

definition Op_CarryInvert :: "insn list" where
  "Op_CarryInvert = [subfe TMP1 r0 r0, addic TMP1 TMP1 1]"

subsection \<open>What a condition means\<close>

fun cond_holds :: "CondClass \<Rightarrow> Flags \<Rightarrow> bool" where
  "cond_holds EQ F = FlagZ F"
| "cond_holds NEQ F = (\<not> FlagZ F)"
| "cond_holds MI F = FlagN F"
| "cond_holds PL F = (\<not> FlagN F)"
| "cond_holds UGE F = FlagC F"
| "cond_holds ULT F = (\<not> FlagC F)"
| "cond_holds VS F = FlagV F"
| "cond_holds VC F = (\<not> FlagV F)"
| "cond_holds UGT F = (FlagC F \<and> \<not> FlagZ F)"
| "cond_holds ULE F = (\<not> (FlagC F \<and> \<not> FlagZ F))"
| "cond_holds SGE F = (FlagN F = FlagV F)"
| "cond_holds SLT F = (FlagN F \<noteq> FlagV F)"
| "cond_holds SGT F = (FlagN F = FlagV F \<and> \<not> FlagZ F)"
| "cond_holds SLE F = (\<not> (FlagN F = FlagV F \<and> \<not> FlagZ F))"
| "cond_holds FU F = FlagV F"
| "cond_holds FNU F = (\<not> FlagV F)"
| "cond_holds AL F = True"
| "cond_holds _ F = False"

definition flag_cond :: "CondClass \<Rightarrow> bool" where
  "flag_cond C \<longleftrightarrow> C \<in> {EQ, NEQ, MI, PL, UGE, ULT, VS, VC, UGT, ULE, SGE, SLT, SGT, SLE, FU, FNU}"

text \<open>After a comparison of \<open>a\<close> with \<open>b\<close> the relational conditions decide the relations they are named after.\<close>

fun relation :: "CondClass \<Rightarrow> 'a::len word \<Rightarrow> 'a word \<Rightarrow> bool" where
  "relation EQ a b = (a = b)"
| "relation NEQ a b = (a \<noteq> b)"
| "relation UGE a b = (b \<le> a)"
| "relation ULT a b = (a < b)"
| "relation UGT a b = (b < a)"
| "relation ULE a b = (a \<le> b)"
| "relation SGE a b = (sint b \<le> sint a)"
| "relation SLT a b = (sint a < sint b)"
| "relation SGT a b = (sint b < sint a)"
| "relation SLE a b = (sint a \<le> sint b)"
| "relation _ a b = False"

definition relational :: "CondClass \<Rightarrow> bool" where
  "relational C \<longleftrightarrow> C \<in> {EQ, NEQ, UGE, ULT, UGT, ULE, SGE, SLT, SGT, SLE}"

lemma sub_flags_meaning:
  fixes a b :: "'a::len word"
  shows "FlagZ (sub_flags a b True) \<longleftrightarrow> a = b" "FlagC (sub_flags a b True) \<longleftrightarrow> b \<le> a"
    "FlagN (sub_flags a b True) = FlagV (sub_flags a b True) \<longleftrightarrow> sint b \<le> sint a"
proof -
  have r: "a + NOT b + 1 = a - b" by (simp add: not_eq_complement)
  show "FlagZ (sub_flags a b True) \<longleftrightarrow> a = b" by (simp add: sub_flags_def add_flags_def Let_def r)
  show "FlagC (sub_flags a b True) \<longleftrightarrow> b \<le> a"
    by (simp add: sub_flags_def add_flags_def Let_def uint_not word_le_def)
  obtain n where n: "LENGTH('a) = Suc n" using len_gt_0 [where 'a = 'a] by (cases "LENGTH('a)") auto
  have range: "- (2 ^ n) \<le> sint a" "sint a < 2 ^ n" "- (2 ^ n) \<le> sint b" "sint b < 2 ^ n"
    using sint_greater_eq [of a] sint_less [of a] sint_greater_eq [of b] sint_less [of b] by (simp_all add: n)
  have N: "FlagN (sub_flags a b True) \<longleftrightarrow> sint (a - b) < 0"
    by (simp add: sub_flags_def add_flags_def Let_def r sint_neg_iff)
  have V: "FlagV (sub_flags a b True) \<longleftrightarrow> \<not> (- (2 ^ n) \<le> sint a - sint b \<and> sint a - sint b < 2 ^ n)"
    by (simp add: sub_flags_def add_flags_def Let_def sint_not n)
  have "sint (a - b) = signed_take_bit n (sint a - sint b)"
    by (simp add: sint_word_ariths n)
  moreover have "signed_take_bit n k = (if k < - (2 ^ n) then k + 2 ^ Suc n else if 2 ^ n \<le> k then k - 2 ^ Suc n else k)"
    if "- (2 ^ Suc n) \<le> k" "k < 2 ^ Suc n" for k :: int
  proof -
    have "signed_take_bit n k = take_bit (Suc n) (k + 2 ^ n) - 2 ^ n" by (rule signed_take_bit_eq_take_bit_shift)
    moreover have "take_bit (Suc n) (k + 2 ^ n) = (if k < - (2 ^ n) then k + 2 ^ n + 2 ^ Suc n else if 2 ^ n \<le> k then k + 2 ^ n - 2 ^ Suc n else k + 2 ^ n)"
    proof -
      have low: "(k + 2 ^ n) mod 2 ^ Suc n = k + 2 ^ n + 2 ^ Suc n" if "k < - (2 ^ n)"
        using that \<open>- (2 ^ Suc n) \<le> k\<close> mod_add_self2 [of "k + 2 ^ n" "2 ^ Suc n"] by (simp add: mod_pos_pos_trivial del: mod_add_self2)
      have high: "(k + 2 ^ n) mod 2 ^ Suc n = k + 2 ^ n - 2 ^ Suc n" if "2 ^ n \<le> k"
        using that \<open>k < 2 ^ Suc n\<close> minus_mod_self2 [of "k + 2 ^ n" "2 ^ Suc n"] by (simp add: mod_pos_pos_trivial del: minus_mod_self2)
      show ?thesis using low high that by (auto simp: take_bit_eq_mod mod_pos_pos_trivial)
    qed
    ultimately show ?thesis by simp
  qed
  ultimately show "FlagN (sub_flags a b True) = FlagV (sub_flags a b True) \<longleftrightarrow> sint b \<le> sint a"
    using range unfolding N V by (auto split: if_splits)
qed

lemma relation_of_flags: "relational C \<Longrightarrow> cond_holds C (sub_flags a b True) \<longleftrightarrow> relation C a b"
proof -
  have sint_eq: "a = b \<longleftrightarrow> sint a = sint b" by (fact word_eq_iff_signed)
  have s: "sint b < sint a \<longleftrightarrow> sint b \<le> sint a \<and> a \<noteq> b" "sint a \<le> sint b \<longleftrightarrow> \<not> (sint b \<le> sint a \<and> a \<noteq> b)"
    using sint_eq by auto
  show "relational C \<Longrightarrow> cond_holds C (sub_flags a b True) \<longleftrightarrow> relation C a b"
    by (auto simp: relational_def sub_flags_meaning s)
qed

subsection \<open>The host side of a condition\<close>

definition cond_met :: "Cond \<Rightarrow> PPC \<Rightarrow> bool" where
  "cond_met CC s \<longleftrightarrow> cr s (unat (BI CC)) = (BO CC AND 8 \<noteq> 0)"

text \<open>CR1 mirrors carry and overflow.\<close>

definition projected :: "PPC \<Rightarrow> bool" where
  "projected s \<longleftrightarrow> cr s 6 = ca s \<and> cr s 5 = ov s"

text \<open>Evaluating a condition may write CR1 and CR3 besides the registers listed.\<close>

definition keeps_cond :: "GPR set \<Rightarrow> PPC \<Rightarrow> PPC \<Rightarrow> bool" where
  "keeps_cond R s s' \<longleftrightarrow> (\<forall>r. r \<notin> R \<longrightarrow> gpr s' r = gpr s r) \<and> (\<forall>n. n div 4 \<noteq> 1 \<longrightarrow> n div 4 \<noteq> 3 \<longrightarrow> cr s' n = cr s n) \<and>
     ca s' = ca s \<and> ov s' = ov s \<and> so s' = so s \<and> xer s' = xer s \<and> mem s' = mem s"

lemma projected_setr [simp]: "projected (setr r v s) = projected s"
  by (simp add: projected_def)

lemma keeps_cond_simps [simp]:
  "keeps_cond R s s" "r \<in> R \<Longrightarrow> keeps_cond R s (setr r v t) = keeps_cond R s t"
  "n div 4 = 1 \<or> n div 4 = 3 \<Longrightarrow> keeps_cond R s (set_cr_bit n b t) = keeps_cond R s t"
  by (auto simp: keeps_cond_def set_cr_bit_def)

lemma set_cr_bit_simps [simp]:
  "gpr (set_cr_bit n b s) = gpr s" "cr (set_cr_bit n b s) = (cr s)(n := b)" "ca (set_cr_bit n b s) = ca s" "ov (set_cr_bit n b s) = ov s"
  by (simp_all add: set_cr_bit_def)

lemma keeps_cond_flags: "keeps_cond R s s' \<Longrightarrow> machine_flags s' = machine_flags s"
  by (simp add: keeps_cond_def machine_flags_def)

lemma cr_set_fields:
  "cr (set_cr_fields 0x40 v s) = (\<lambda>n. if n div 4 = 1 then bit v (31 - n) else cr s n)"
  "cr (set_cr_fields 0x80 v s) = (\<lambda>n. if n div 4 = 0 then bit v (31 - n) else cr s n)"
proof -
  have e: "(0x40 :: u8) = 2 ^ 6" "(0x80 :: u8) = 2 ^ 7" by simp_all
  have "n < 32 \<and> bit (0x40 :: u8) (7 - n div 4) \<longleftrightarrow> n div 4 = 1" "n < 32 \<and> bit (0x80 :: u8) (7 - n div 4) \<longleftrightarrow> n div 4 = 0" for n
    unfolding e bit_exp_iff by auto
  then show "cr (set_cr_fields 0x40 v s) = (\<lambda>n. if n div 4 = 1 then bit v (31 - n) else cr s n)"
    "cr (set_cr_fields 0x80 v s) = (\<lambda>n. if n div 4 = 0 then bit v (31 - n) else cr s n)"
    by (simp_all only: set_cr_fields_def) simp_all
qed

lemma set_cr_fields_simps [simp]:
  "gpr (set_cr_fields f v s) = gpr s" "ca (set_cr_fields f v s) = ca s" "ov (set_cr_fields f v s) = ov s" "so (set_cr_fields f v s) = so s"
  "xer (set_cr_fields f v s) = xer s" "mem (set_cr_fields f v s) = mem s"
  by (simp_all add: set_cr_fields_def)

definition select_operands :: "OpSize \<Rightarrow> operand \<Rightarrow> operand \<Rightarrow> bool" where
  "select_operands Size TrueVal FalseVal \<longleftrightarrow> guest_operand TrueVal \<and> guest_operand FalseVal \<and>
     (\<forall>c. TrueVal = InlineConstant c \<longrightarrow> FalseVal = InlineConstant 0 \<and>
       (c = 1 \<or> c = (if Size = i64Bit then 0xFFFFFFFFFFFFFFFF else 0xFFFFFFFF)))"

lemma result_is_ones: "result_is Size Elided v 0xFFFFFFFFFFFFFFFF \<Longrightarrow> gpr_size Size \<Longrightarrow>
    result_is Size Elided v (if Size = i64Bit then 0xFFFFFFFFFFFFFFFF else 0xFFFFFFFF)"
  by (auto simp: result_is_def gpr_size_def)

lemma cond_holds_integer [simp]: "cond_holds (IntegerNZCVCond C) F = cond_holds C F" "flag_cond (IntegerNZCVCond C) = flag_cond C"
  by (cases C; simp add: IntegerNZCVCond_def flag_cond_def)+

lemma keeps_cond_load: "keeps_cond R s t \<Longrightarrow> r \<in> R \<Longrightarrow> keeps_cond R s (setr r v t)"
  by simp

subsection \<open>The packed flags\<close>

definition packed_NZCV :: "Flags \<Rightarrow> u64" where
  "packed_NZCV F = push_bit 31 (of_bool (FlagN F)) OR push_bit 30 (of_bool (FlagZ F)) OR push_bit 29 (of_bool (FlagC F)) OR
     push_bit 28 (of_bool (FlagV F))"

definition unpacked_NZCV :: "u64 \<Rightarrow> Flags" where
  "unpacked_NZCV w = \<lparr>FlagN = bit w 31, FlagZ = bit w 30, FlagC = bit w 29, FlagV = bit w 28\<rparr>"

lemma bit_packed: "bit (packed_NZCV F) n \<longleftrightarrow> n = 31 \<and> FlagN F \<or> n = 30 \<and> FlagZ F \<or> n = 29 \<and> FlagC F \<or> n = 28 \<and> FlagV F"
  unfolding packed_NZCV_def bit_or_iff bit_flag_at by auto

lemma unpacked_packed: "unpacked_NZCV (packed_NZCV F) = F"
  by (simp add: unpacked_NZCV_def bit_packed)

lemma bit_rotl32:
  assumes "n < 32" "k < 32"
  shows "bit (rotl32 k x) n \<longleftrightarrow> bit x ((n + 32 - k) mod 32)"
proof -
  have "(n + 32 - k) mod 32 = (if n < k then n + 32 - k else n - k)" using assms by (auto simp: mod_if)
  then show ?thesis using assms
    by (auto simp: rotl32_def Let_def bit_or_iff bit_push_bit_iff bit_unsigned_iff bit_word_rotl_iff mod_if)
qed

lemma bit_moved:
  assumes "p < 32" "k < 32"
  shows "bit (insert_mask (mask64 (63 - p) (63 - p)) (rotl32 k x) old) n \<longleftrightarrow> (if n = p then bit x ((p + 32 - k) mod 32) else bit old n)"
    "bit (rotl32 k x AND mask64 (63 - p) (63 - p)) n \<longleftrightarrow> n = p \<and> bit x ((p + 32 - k) mod 32)"
proof -
  have m: "bit (mask64 (63 - p) (63 - p)) n \<longleftrightarrow> n = p" using assms(1) by (auto simp: bit_mask64)
  show "bit (rotl32 k x AND mask64 (63 - p) (63 - p)) n \<longleftrightarrow> n = p \<and> bit x ((p + 32 - k) mod 32)"
    using assms by (auto simp: bit_and_iff m bit_rotl32)
  then show "bit (insert_mask (mask64 (63 - p) (63 - p)) (rotl32 k x) old) n \<longleftrightarrow> (if n = p then bit x ((p + 32 - k) mod 32) else bit old n)"
    by (auto simp: insert_mask_def bit_or_iff bit_and_iff bit_not_iff m dest: bit_imp_le_length)
qed

context ppc_isa
begin

lemma run_project:
  assumes "Valid \<longrightarrow> projected s"
  shows "\<exists>s'. run step (ProjectXERToCR1 False Valid) s = Some s' \<and> keeps_cond {TMP1, TMP2} s s' \<and> projected s'"
proof (cases Valid)
  case True
  then show ?thesis using assms by (auto simp: ProjectXERToCR1_def)
next
  case False
  define x where "x = rotl32 28 (xer_value s) AND mask64 32 63"
  have x: "bit x 25 = ca s" "bit x 26 = ov s"
    by (simp_all add: x_def rotl32_def Let_def bit_and_iff bit_or_iff bit_push_bit_iff bit_mask64 bit_unsigned_iff bit_word_rotl_iff bit_xer_value)
  define t where "t = setr TMP2 x (setr TMP1 (xer_value s) s)"
  have "run step (ProjectXERToCR1 False Valid) s = Some (set_cr_fields 0x40 (gpr t TMP2) t)"
    using False by (simp add: ProjectXERToCR1_def step_mfxer step_rlwinm step_mtocrf t_def x_def)
  moreover have "keeps_cond {TMP1, TMP2} s (set_cr_fields 0x40 (gpr t TMP2) t)" "projected (set_cr_fields 0x40 (gpr t TMP2) t)"
    using x by (auto simp: t_def keeps_cond_def cr_set_fields projected_def)
  ultimately show ?thesis by blast
qed

lemma run_MapNZCVCC_narrow:
  assumes "flag_cond C" "Valid \<longrightarrow> projected s" "MapNZCVCC False Valid C = (pre, CC, Valid')"
  shows "\<exists>s'. run step pre s = Some s' \<and> keeps_cond {TMP1, TMP2} s s' \<and> (Valid' \<longrightarrow> projected s') \<and>
    (cond_met CC s' \<longleftrightarrow> cond_holds C (machine_flags s)) \<and> unat (BI CC) < 32"
proof -
  obtain t where t: "run step (ProjectXERToCR1 False Valid) s = Some t" "keeps_cond {TMP1, TMP2} s t" "projected t"
    using run_project [OF assms(2)] by blast
  have f: "cr t 0 = cr s 0" "cr t 2 = cr s 2" "ca t = ca s" "ov t = ov s" using t(2) by (simp_all add: keeps_cond_def)
  note step_laws = step_crandc step_crxor step_crnor
  show ?thesis using assms(1,3) unfolding flag_cond_def
    apply (elim insertE emptyE; simp add: MapNZCVCC_def XEROVBitIndex_def Let_def; elim conjE; hypsubst)
    using assms(2) t f by (simp_all add: run_append step_laws cond_met_def machine_flags_def projected_def)
qed

lemma run_MapNZCVCC:
  assumes "flag_cond C" "Valid \<longrightarrow> projected s" "MapNZCVCC False Valid C = (pre, CC, Valid')"
  shows "\<exists>s'. run step pre s = Some s' \<and> keeps_cond scratch s s' \<and> gpr s' TMP3 = gpr s TMP3 \<and> gpr s' TMP4 = gpr s TMP4 \<and>
    (Valid' \<longrightarrow> projected s') \<and> (cond_met CC s' \<longleftrightarrow> cond_holds C (machine_flags s)) \<and> unat (BI CC) < 32"
proof -
  have "keeps_cond {TMP1, TMP2} s t \<Longrightarrow> keeps_cond scratch s t \<and> gpr t TMP3 = gpr s TMP3 \<and> gpr t TMP4 = gpr s TMP4" for t
    by (auto simp: keeps_cond_def scratch_def)
  then show ?thesis using run_MapNZCVCC_narrow [OF assms] by metis
qed

lemma step_iselcc:
  assumes "unat (BI CC) < 32" "vtrue \<noteq> 0 \<or> gpr s 0 = 0" "vfalse \<noteq> 0 \<or> gpr s 0 = 0"
  shows "exec step (iselcc Dst CC vtrue vfalse) s = Some (setr Dst (if cond_met CC s then gpr s vtrue else gpr s vfalse) s)"
  using assms by (auto simp: iselcc_def step_isel cond_met_def)

lemma run_tail32:
  assumes "gpr_size Size"
  shows "\<exists>v. run step (tail32 Size Elided Dst) t = Some (setr Dst v t) \<and> result_is Size Elided v (gpr t Dst)"
  using assms by (cases rule: gpr_size_cases)
    (auto simp: tail32_def Mask32Tail_def step_zext32 result_is_def intro: exI [of _ "gpr t Dst"] simp: setr_same)

lemma run_select:
  assumes "guest_reg Dst" "gpr_size Size" "keeps_cond scratch s t" "cond_met CC t \<longleftrightarrow> P" "unat (BI CC) < 32"
    and "vtrue \<noteq> 0 \<or> gpr t 0 = 0" "vfalse \<noteq> 0 \<or> gpr t 0 = 0"
  shows "\<exists>s'. run step ([iselcc Dst CC vtrue vfalse] @ tail32 Size Elided Dst) t = Some s' \<and> keeps_cond (insert Dst scratch) s s' \<and>
    (projected t \<longrightarrow> projected s') \<and> result_is Size Elided (gpr s' Dst) (if P then gpr t vtrue else gpr t vfalse)"
proof -
  define w where "w = (if P then gpr t vtrue else gpr t vfalse)"
  have "exec step (iselcc Dst CC vtrue vfalse) t = Some (setr Dst w t)" using step_iselcc [OF assms(5-7)] assms(4) by (simp add: w_def)
  moreover obtain v where "run step (tail32 Size Elided Dst) (setr Dst w t) = Some (setr Dst v (setr Dst w t))" "result_is Size Elided v w"
    using run_tail32 [OF assms(2), of Elided Dst "setr Dst w t"] by auto
  moreover have "keeps_cond (insert Dst scratch) s t" using assms(3) by (auto simp: keeps_cond_def)
  ultimately show ?thesis by (simp flip: w_def)
qed

lemma select_NZCVSelect:
  assumes "guest_reg Dst" "gpr_size Size" "select_operands Size TrueVal FalseVal" "flag_cond C" "Valid \<longrightarrow> projected s" "gpr s r0 = 0"
  shows "\<exists>s'. run step (Op_NZCVSelect cfg False Valid Size Elided C Dst TrueVal FalseVal) s = Some s' \<and> keeps_cond (insert Dst scratch) s s' \<and>
    (snd (snd (MapNZCVCC False Valid (IntegerNZCVCond C))) \<longrightarrow> projected s') \<and>
    result_is Size Elided (gpr s' Dst) (if cond_holds C (machine_flags s) then value_of s TrueVal else value_of s FalseVal)"
proof -
  obtain pre CC Valid' where m: "MapNZCVCC False Valid (IntegerNZCVCond C) = (pre, CC, Valid')" by (metis prod_cases3)
  define P where "P = cond_holds C (machine_flags s)"
  obtain t where t: "run step pre s = Some t" "keeps_cond scratch s t" "cond_met CC t \<longleftrightarrow> P" "unat (BI CC) < 32" "Valid' \<longrightarrow> projected t"
    using run_MapNZCVCC [OF _ assms(5) m] assms(4) by (auto simp: P_def)
  have r0: "gpr t 0 = 0" using t(2) assms(6) by (auto simp: keeps_cond_def r0_def scratch_def tmp_defs)
  have tail: "(if size_le_32 Size then Mask32Tail Elided Dst else []) = tail32 Size Elided Dst"
    using assms(2) by (simp add: tail32_def size_le_32_iff)
  have same: "guest_reg r \<Longrightarrow> gpr t r = gpr s r" for r using t(2) by (auto simp: keeps_cond_def scratch_def)
  have met: "cond_met CC (setr TMP1 c t) \<longleftrightarrow> P" for c using t(3) by (simp add: cond_met_def)
  have zero: "gpr (setr TMP1 c t) 0 = 0" for c using r0 by (simp add: TMP1_def)
  note sel = run_select [OF assms(1,2) _ _ t(4), of s _ P]
  show ?thesis
  proof (cases TrueVal)
    case (InlineConstant c)
    with assms(3) have ops: "FalseVal = InlineConstant 0" "c = 1 \<or> c = (if Size = i64Bit then 0xFFFFFFFFFFFFFFFF else 0xFFFFFFFF)"
      by (simp_all add: select_operands_def)
    define k :: u64 where "k = (if c = (if Size = i64Bit then 0xFFFFFFFFFFFFFFFF else 0xFFFFFFFF) then 0xFFFFFFFFFFFFFFFF else 1)"
    have "Op_NZCVSelect cfg False Valid Size Elided C Dst TrueVal FalseVal =
        pre @ LoadConstant cfg TMP1 k @ [iselcc Dst CC TMP1 0] @ tail32 Size Elided Dst"
      using ops InlineConstant by (simp only: Op_NZCVSelect_def m Let_def prod.case operand.case simp_thms if_True tail k_def)
    moreover obtain s' where s': "run step ([iselcc Dst CC TMP1 0] @ tail32 Size Elided Dst) (setr TMP1 k t) = Some s'"
      "keeps_cond (insert Dst scratch) s s'" "Valid' \<longrightarrow> projected s'" "result_is Size Elided (gpr s' Dst) (if P then k else 0)"
      using sel [of "setr TMP1 k t" TMP1 0 Elided] t(2,5) met zero [of k] by (auto cong: if_cong)
    moreover have "result_is Size Elided (gpr s' Dst) (if P then c else 0)"
      using s'(4) result_is_ones [OF _ assms(2)] ops(2) by (auto simp: k_def split: if_splits)
    ultimately show ?thesis using InlineConstant ops(1) t(1)
      by (simp only: run_append run_LoadConstant option.case value_of.simps m prod.sel flip: P_def) blast
  next
    case (Reg T)
    note T = this
    with assms(3) have gT: "guest_reg T" by (simp add: select_operands_def)
    show ?thesis
    proof (cases FalseVal)
      case (InlineConstant c)
      have "Op_NZCVSelect cfg False Valid Size Elided C Dst TrueVal FalseVal =
          pre @ LoadConstant cfg TMP1 c @ [iselcc Dst CC T TMP1] @ tail32 Size Elided Dst"
        by (simp only: Op_NZCVSelect_def m Let_def prod.case operand.case T InlineConstant tail)
      moreover obtain s' where s': "run step ([iselcc Dst CC T TMP1] @ tail32 Size Elided Dst) (setr TMP1 c t) = Some s'"
        "keeps_cond (insert Dst scratch) s s'" "Valid' \<longrightarrow> projected s'" "result_is Size Elided (gpr s' Dst) (if P then gpr s T else c)"
        using sel [of "setr TMP1 c t" T TMP1 Elided] t(2,5) met gT same [OF gT] by (auto simp: r0 cong: if_cong)
      ultimately show ?thesis using InlineConstant T t(1)
        by (simp only: run_append run_LoadConstant option.case value_of.simps m prod.sel flip: P_def) blast
    next
      case (Reg F)
      with assms(3) have gF: "guest_reg F" by (simp add: select_operands_def)
      have "Op_NZCVSelect cfg False Valid Size Elided C Dst TrueVal FalseVal = pre @ [iselcc Dst CC T F] @ tail32 Size Elided Dst"
        by (simp only: Op_NZCVSelect_def m Let_def prod.case operand.case T Reg tail)
      moreover obtain s' where s': "run step ([iselcc Dst CC T F] @ tail32 Size Elided Dst) t = Some s'"
        "keeps_cond (insert Dst scratch) s s'" "Valid' \<longrightarrow> projected s'" "result_is Size Elided (gpr s' Dst) (if P then gpr s T else gpr s F)"
        using sel [OF t(2,3), of T F Elided] t(5) gT gF same [OF gT] same [OF gF] by (auto cong: if_cong)
      ultimately show ?thesis using Reg T t(1)
        by (simp only: run_append option.case value_of.simps m prod.sel flip: P_def) blast
    qed
  qed
qed

lemma select_Neg:
  assumes "guest_reg Dst" "guest_reg Src" "gpr_size Size" "C = AL \<or> flag_cond C" "Valid \<longrightarrow> projected s"
  shows "\<exists>s'. run step (Op_Neg False Valid Size Elided C Dst Src) s = Some s' \<and> keeps_cond (insert Dst scratch) s s' \<and>
    result_is Size Elided (gpr s' Dst) (if cond_holds C (machine_flags s) then - gpr s Src else gpr s Src)"
proof (cases "C = AL")
  case True
  obtain v where "run step (tail32 Size Elided Dst) (setr Dst (- gpr s Src) s) = Some (setr Dst v (setr Dst (- gpr s Src) s))"
    "result_is Size Elided v (- gpr s Src)"
    using run_tail32 [OF assms(3), of Elided Dst "setr Dst (- gpr s Src) s"] by auto
  then show ?thesis using True by (simp add: Op_Neg_def step_neg)
next
  case False
  obtain pre CC Valid' where m: "MapNZCVCC False Valid (IntegerNZCVCond C) = (pre, CC, Valid')" by (metis prod_cases3)
  define P where "P = cond_holds C (machine_flags s)"
  define u where "u = setr TMP4 (- gpr s Src) s"
  have "Valid \<longrightarrow> projected u" using assms(5) by (simp add: u_def projected_def)
  then obtain t where t: "run step pre u = Some t" "keeps_cond scratch u t" "cond_met CC t \<longleftrightarrow> P" "unat (BI CC) < 32"
    and t4: "gpr t TMP4 = gpr u TMP4"
    using run_MapNZCVCC [OF _ _ m, of u] assms(4) False by (auto simp: P_def u_def)
  have k: "keeps_cond scratch s t" using t(2) by (auto simp: keeps_cond_def u_def scratch_def)
  have vals: "gpr t TMP4 = - gpr s Src" "gpr t Src = gpr s Src" using t4 k assms(2) by (auto simp: u_def keeps_cond_def scratch_def)
  obtain s' where "run step ([iselcc Dst CC TMP4 Src] @ tail32 Size Elided Dst) t = Some s'"
    "keeps_cond (insert Dst scratch) s s'" "result_is Size Elided (gpr s' Dst) (if P then - gpr s Src else gpr s Src)"
    using run_select [OF assms(1,3) k t(3,4), of TMP4 Src Elided] assms(2) vals by (auto cong: if_cong)
  moreover have "Op_Neg False Valid Size Elided C Dst Src = [neg TMP4 Src] @ pre @ [iselcc Dst CC TMP4 Src] @ tail32 Size Elided Dst"
    using False by (simp add: Op_Neg_def m)
  moreover have "run step [neg TMP4 Src] s = Some u" by (simp add: step_neg u_def)
  ultimately show ?thesis using t(1) unfolding P_def [symmetric] by (simp only: run_append option.case) blast
qed

lemma computes_LoadNZCV:
  assumes "guest_reg Dst"
  shows "computes step (Op_LoadNZCV Dst) s Dst (\<lambda>v. v = packed_NZCV (machine_flags s))"
proof -
  obtain v where v: "exec step (mfocrf TMP1 0x80) s = Some (setr TMP1 v s)" "\<And>n. n < 32 \<Longrightarrow> bit (0x80 :: u32) (7 - n div 4) \<Longrightarrow> bit v (31 - n) = cr s n"
    using step_mfocrf [where fxm = "0x80" and rt = TMP1 and s = s] by auto
  have "(0x80 :: u32) = 2 ^ 7" by simp
  then have vb: "bit v 31 = cr s 0" "bit v 29 = cr s 2" using v(2) [of 0] v(2) [of 2] by (simp_all only: bit_exp_iff) simp_all
  define d where "d = insert_mask (mask64 35 35) (rotl32 30 (xer_value s)) (insert_mask (mask64 34 34) (rotl32 0 (xer_value s))
    (insert_mask (mask64 33 33) (rotl32 1 v) (rotl32 0 v AND mask64 32 32)))"
  have "d = packed_NZCV (machine_flags s)"
  proof (rule bit_word_eqI)
    fix n :: nat assume "n < LENGTH(64)"
    show "bit d n = bit (packed_NZCV (machine_flags s)) n"
      using bit_moved [of 28 30 "xer_value s"] bit_moved [of 29 0 "xer_value s"] bit_moved [of 30 1 v] bit_moved [of 31 0 v] vb
      by (auto simp: d_def bit_packed machine_flags_def bit_xer_value)
  qed
  moreover have "run step (Op_LoadNZCV Dst) s = Some (setr Dst d (setr TMP2 (xer_value s) (setr TMP1 v s)))"
    using assms by (simp add: Op_LoadNZCV_def v(1) step_mfxer step_rlwinm step_rlwimi d_def xer_value_def)
  ultimately show ?thesis by (simp add: computes_def)
qed

lemma moved_to_zero: "k < 32 \<Longrightarrow> 0 < k \<Longrightarrow> rotl32 k x AND mask64 63 63 = of_bool (bit x (32 - k))"
  using bit_moved(2) [of 0 k x] by (intro bit_word_eqI) (auto simp: bit_1_iff simp del: bit_0)

lemma flags_StoreNZCV:
  assumes "guest_reg Src"
  shows "sets_flags step (Op_StoreNZCV cfg Src) s scratch (unpacked_NZCV (gpr s Src)) (\<lambda>_. True)"
proof -
  define x where "x = gpr s Src"
  define d where "d = insert_mask (mask64 34 34) (rotl32 31 x) (rotl32 0 x AND mask64 32 32)"
  have db: "bit d 31 = bit x 31" "bit d 29 = bit x 30"
    using bit_moved [of 29 31 x] bit_moved [of 31 0 x] by (simp_all add: d_def)
  define t where "t = set_cr_fields 0x80 d (setr TMP1 d s)"
  define t1 where "t1 = setr TMP1 (of_bool (bit x 29)) t"
  have "rotl32 3 x AND mask64 63 63 = of_bool (bit x 29)" "rotl32 4 x AND mask64 63 63 = of_bool (bit x 28)"
    using moved_to_zero [of 3 x] moved_to_zero [of 4 x] by simp_all
  note low = this
  have r1: "run step ([rlwinm TMP1 Src 0 0 0, rlwimi TMP1 Src 31 2 2, mtocrf 0x80 TMP1] @ [rlwinm TMP1 Src 3 31 31]) s = Some t1"
    using assms low(1) by (simp add: step_rlwinm step_rlwimi step_mtocrf t1_def t_def d_def x_def)
  obtain t2 where t2: "run step (SetCAFromBit cfg TMP1 TMP2) t1 = Some t2" "keeps_but_flags {TMP2} t1 t2"
    "machine_flags t2 = (machine_flags t1)\<lparr>FlagC := bit x 29\<rparr>"
    using run_SetCAFromBit [of t1 TMP1 "bit x 29" TMP2 cfg] by (auto simp: t1_def)
  define t3 where "t3 = setr TMP1 (of_bool (bit x 28)) t2"
  have "gpr t2 Src = x" using t2(2) assms by (simp add: keeps_but_flags_def t1_def t_def x_def)
  then have r3: "run step [rlwinm TMP1 Src 4 31 31] t2 = Some t3" using low(2) by (simp add: step_rlwinm t3_def)
  obtain t4 where t4: "run step (SetOVFromBit cfg TMP1 TMP2) t3 = Some t4" "keeps_but_flags {TMP2} t3 t4"
    "machine_flags t4 = (machine_flags t3)\<lparr>FlagV := bit x 28\<rparr>"
    using run_SetOVFromBit [of t3 TMP1 "bit x 28" TMP2 cfg] by (auto simp: t3_def)
  have r: "run step (Op_StoreNZCV cfg Src) s = Some t4"
    using run_append [of step "[rlwinm TMP1 Src 0 0 0, rlwimi TMP1 Src 31 2 2, mtocrf 0x80 TMP1] @ [rlwinm TMP1 Src 3 31 31]"
        "SetCAFromBit cfg TMP1 TMP2 @ [rlwinm TMP1 Src 4 31 31] @ SetOVFromBit cfg TMP1 TMP2" s]
    unfolding r1 option.case run_append [of step "SetCAFromBit cfg TMP1 TMP2"] t2(1) run_append [of step "[rlwinm TMP1 Src 4 31 31]"] r3 t4(1)
    by (simp only: Op_StoreNZCV_def append_assoc)
  have "keeps_but_flags scratch s t1" by (auto simp: keeps_but_flags_def t1_def t_def cr_set_fields scratch_def)
  then have "keeps_but_flags scratch s t2"
    using keeps_but_flags_mono [OF t2(2), of scratch] keeps_but_flags_trans by simp
  then have "keeps_but_flags scratch s t3" by (simp add: t3_def)
  then have k: "keeps_but_flags scratch s t4"
    using keeps_but_flags_mono [OF t4(2), of scratch] keeps_but_flags_trans by simp
  have "machine_flags t1 = \<lparr>FlagN = bit x 31, FlagZ = bit x 30, FlagC = ca s, FlagV = ov s\<rparr>"
    using db by (simp add: machine_flags_def t1_def t_def cr_set_fields)
  then have "machine_flags t4 = unpacked_NZCV x" using t4(3) t2(3) by (simp add: t3_def unpacked_NZCV_def)
  then show ?thesis using r k by (simp add: sets_flags_def x_def)
qed

lemma flags_CarryInvert: "sets_flags step Op_CarryInvert s scratch ((machine_flags s)\<lparr>FlagC := \<not> ca s\<rparr>) (\<lambda>_. True)"
proof -
  have inv: "NOT x + x + of_bool c = - of_bool (\<not> c)" for x :: u64 and c by (cases c) (simp_all add: not_eq_complement)
  have "adc_carry (- of_bool (\<not> ca s)) 1 False = (\<not> ca s)"
    by (simp add: adc_carry_def unsigned_minus_1_eq_mask mask_eq_exp_minus_1)
  then show ?thesis by (simp add: sets_flags_def Op_CarryInvert_def step_subfe step_addic inv)
qed

lemma select_NZCVSelectIncrement:
  assumes "guest_reg Dst" "gpr_size Size" "guest_operand TrueVal" "guest_operand FalseVal" "flag_cond C" "Valid \<longrightarrow> projected s"
  shows "\<exists>s'. run step (Op_NZCVSelectIncrement cfg False Valid Size Elided C Dst TrueVal FalseVal) s = Some s' \<and> keeps_cond (insert Dst scratch) s s' \<and>
    (snd (snd (MapNZCVCC False Valid (IntegerNZCVCond C))) \<longrightarrow> projected s') \<and>
    result_is Size Elided (gpr s' Dst) (if cond_holds C (machine_flags s) then value_of s TrueVal else value_of s FalseVal + 1)"
proof -
  obtain pre CC Valid' where m: "MapNZCVCC False Valid (IntegerNZCVCond C) = (pre, CC, Valid')" by (metis prod_cases3)
  define P where "P = cond_holds C (machine_flags s)"
  obtain t where t: "run step pre s = Some t" "keeps_cond scratch s t" "cond_met CC t \<longleftrightarrow> P" "unat (BI CC) < 32" "Valid' \<longrightarrow> projected t"
    using run_MapNZCVCC [OF _ assms(6) m] assms(5) by (auto simp: P_def)
  have same: "guest_reg r \<Longrightarrow> gpr t r = gpr s r" for r using t(2) by (auto simp: keeps_cond_def scratch_def)
  define plus_one where "plus_one = (case FalseVal of InlineConstant c \<Rightarrow> LoadConstant cfg TMP2 (c + 1) | Reg F \<Rightarrow> [addi TMP2 F 1])"
  define t1 where "t1 = setr TMP2 (value_of s FalseVal + 1) t"
  have p: "run step plus_one t = Some t1"
    using assms(4) same by (cases FalseVal) (simp_all add: plus_one_def run_LoadConstant step_addi t1_def)
  obtain load TrueReg where l: "operand_in cfg TMP1 TrueVal = (load, TrueReg)" by fastforce
  obtain t2 where t2: "run step load t1 = Some t2" "keeps_cond scratch s t2 \<and> cr t2 = cr t \<and> (projected t \<longrightarrow> projected t2)" "gpr t2 TrueReg = value_of s TrueVal"
    "gpr t2 TMP2 = value_of s FalseVal + 1" "TrueReg \<noteq> 0"
    using l assms(3) same t(2) by (cases TrueVal) (auto simp: operand_in_def run_LoadConstant t1_def)
  have k: "keeps_cond scratch s t2" "cond_met CC t2 \<longleftrightarrow> P" using t(3) t2(2) by (simp_all add: cond_met_def)
  obtain s' where "run step ([iselcc Dst CC TrueReg TMP2] @ tail32 Size Elided Dst) t2 = Some s'" "keeps_cond (insert Dst scratch) s s'" "Valid' \<longrightarrow> projected s'"
    "result_is Size Elided (gpr s' Dst) (if P then value_of s TrueVal else value_of s FalseVal + 1)"
    using run_select [OF assms(1,2) k t(4), of TrueReg TMP2 Elided] t2 t(5) by (auto cong: if_cong)
  moreover have "(if size_le_32 Size then Mask32Tail Elided Dst else []) = tail32 Size Elided Dst"
    using assms(2) by (simp add: tail32_def size_le_32_iff)
  then have "Op_NZCVSelectIncrement cfg False Valid Size Elided C Dst TrueVal FalseVal =
      pre @ plus_one @ load @ [iselcc Dst CC TrueReg TMP2] @ tail32 Size Elided Dst"
    by (simp only: Op_NZCVSelectIncrement_def m l Let_def prod.case plus_one_def)
  ultimately show ?thesis unfolding P_def [symmetric]
    by (simp only: run_append [of step pre] run_append [of step plus_one] run_append [of step load] t(1) p t2(1) option.case m prod.sel) blast
qed

end

subsection \<open>The generated code\<close>

definition relation_at :: "OpSize \<Rightarrow> CondClass \<Rightarrow> u64 \<Rightarrow> u64 \<Rightarrow> bool" where
  "relation_at Size C a b =
     (case Size of
        i8Bit \<Rightarrow> relation C (ucast a :: u8) (ucast b)
      | i16Bit \<Rightarrow> relation C (ucast a :: u16) (ucast b)
      | i32Bit \<Rightarrow> relation C (ucast a :: u32) (ucast b)
      | _ \<Rightarrow> relation C a b)"

lemma relation_at_flags: "relational C \<Longrightarrow> cond_holds C (sub_flags_at Size a b True) \<longleftrightarrow> relation_at Size C a b"
  by (cases Size) (simp_all add: sub_flags_at_def relation_at_def relation_of_flags)

text \<open>C30: A comparison followed by a select on its flags (x86 \<open>CMP\<close> and \<open>CMOVcc\<close>: \<open>DEF_OP(SubNZCV)\<close> and \<open>DEF_OP(NZCVSelect)\<close>) chooses
  the first value exactly when the relation the condition is named after holds between the compared operands, signed or
  unsigned, at 8, 16, 32 or 64 bits.\<close>
theorem compare_then_select:
  assumes "guest_reg S1" "guest_operand Src2" "count_size CompareSize" "guest_reg Dst" "gpr_size Size" "select_operands Size TrueVal FalseVal"
    and "relational C" "gpr s r0 = 0"
  shows "\<exists>s'. run isa_step (Op_SubNZCV cfg CompareSize (Reg S1) Src2 @ Op_NZCVSelect cfg False False Size Elided C Dst TrueVal FalseVal) s = Some s' \<and>
    result_is Size Elided (gpr s' Dst)
      (if relation_at CompareSize C (gpr s S1) (value_of s Src2) then value_of s TrueVal else value_of s FalseVal)"
proof -
  obtain t where t: "run isa_step (Op_SubNZCV cfg CompareSize (Reg S1) Src2) s = Some t" "keeps_but_flags scratch s t"
    "machine_flags t = sub_flags_at CompareSize (gpr s S1) (value_of s Src2) True"
    using ppc.flags_SubNZCV [of "Reg S1" Src2 CompareSize cfg s] assms(1-3) by (auto simp: sets_flags_def)
  have "gpr t r0 = 0" using t(2) assms(8) by (auto simp: keeps_but_flags_def scratch_def)
  moreover have "flag_cond C" using assms(7) by (auto simp: relational_def flag_cond_def)
  moreover have "value_of t TrueVal = value_of s TrueVal" "value_of t FalseVal = value_of s FalseVal"
    using t(2) assms(6) by (cases TrueVal; cases FalseVal; auto simp: select_operands_def keeps_but_flags_def scratch_def)+
  ultimately obtain u where "run isa_step (Op_NZCVSelect cfg False False Size Elided C Dst TrueVal FalseVal) t = Some u"
    "result_is Size Elided (gpr u Dst) (if cond_holds C (machine_flags t) then value_of s TrueVal else value_of s FalseVal)"
    using ppc.select_NZCVSelect [OF assms(4-6), of C False t cfg Elided] by (auto cong: if_cong)
  then show ?thesis using t(1) by (auto simp: run_append t(3) relation_at_flags [OF assms(7)])
qed

theorem compare_then_select_witness:
  "\<exists>s'. run isa_step (Op_SubNZCV default_config i64Bit (Reg 7) (InlineConstant 1) @ Op_NZCVSelect default_config False False i64Bit False SLT 8 (Reg 9) (Reg 10))
      (machine_at [(7, - 1), (9, 20), (10, 30)]) = Some s' \<and> gpr s' 8 = 20"
proof -
  have "sint (- 1 :: u64) < sint (1 :: u64)" by simp
  then show ?thesis
    using compare_then_select [of 7 "InlineConstant 1" i64Bit 8 i64Bit "Reg 9" "Reg 10" SLT "machine_at [(7, - 1), (9, 20), (10, 30)]" default_config False]
    by (simp add: decide_operation count_size_def select_operands_def relational_def relation_at_def)
qed

text \<open>C31: The packed flags \<open>DEF_OP(LoadNZCV)\<close> leaves in a register restore the flags: whatever happens to the machine in between, as long
  as the register keeps its value, \<open>DEF_OP(StoreNZCV)\<close> on it reinstates the sign, zero, carry and overflow of the moment of the load.\<close>
theorem NZCV_saved_and_restored:
  assumes "guest_reg R" "run isa_step (Op_LoadNZCV R) s = Some t" "gpr u R = gpr t R"
  shows "sets_flags isa_step (Op_StoreNZCV cfg R) u scratch (machine_flags s) (\<lambda>_. True)"
proof -
  have "gpr u R = packed_NZCV (machine_flags s)" using ppc.computes_LoadNZCV [OF assms(1), of s] assms(2,3) by (auto simp: computes_def)
  then show ?thesis using ppc.flags_StoreNZCV [OF assms(1), of cfg u] by (simp add: unpacked_packed)
qed

lemma load_zero_flags: "\<exists>t. run isa_step (Op_LoadNZCV 7) (machine_at []) = Some t \<and> gpr t 7 = 0"
proof -
  have "packed_NZCV (machine_flags (machine_at [])) = 0" by (simp add: packed_NZCV_def machine_flags_def machine_at_def)
  then show ?thesis using ppc.computes_LoadNZCV [of 7 "machine_at []"] by (auto simp: computes_def guest_regs_decide)
qed

theorem NZCV_saved_and_restored_witness:
  "sets_flags isa_step (Op_StoreNZCV default_config 7) (machine_at [])
     scratch \<lparr>FlagN = False, FlagZ = False, FlagC = False, FlagV = False\<rparr> (\<lambda>_. True)"
proof -
  obtain t where "run isa_step (Op_LoadNZCV 7) (machine_at []) = Some t" "gpr t 7 = 0" using load_zero_flags by blast
  then show ?thesis using NZCV_saved_and_restored [of 7 "machine_at []" t "machine_at []" default_config]
    by (simp add: guest_regs_decide machine_flags_def machine_at_def)
qed

end
