(* ===== verification/Ppc_Mem.thy ===== *)
theory Ppc_Mem
  imports Ppc_Isa
begin

text \<open>
  Loads, stores and barriers of the processor: the interface \<open>ppc_mem\<close> extends \<open>ppc_isa\<close> with their laws, and
  the decoder satisfies it.  A single processor sees its own accesses in program order, so a barrier changes
  nothing here.
\<close>

locale ppc_mem = ppc_isa +
  assumes step_lbz: "exec step (lbz rt d ra) s = Some (setr rt (load_le 1 s (or_zero s ra + scast d)) s)"
    and step_lhz: "exec step (lhz rt d ra) s = Some (setr rt (load_le 2 s (or_zero s ra + scast d)) s)"
    and step_lwz: "exec step (lwz rt d ra) s = Some (setr rt (load_le 4 s (or_zero s ra + scast d)) s)"
    and step_ld: "d AND 3 = 0 \<Longrightarrow> exec step (ld rt d ra) s = Some (setr rt (load_le 8 s (or_zero s ra + scast d)) s)"
    and step_stb: "exec step (stb rs d ra) s = Some (store_le 1 (gpr s rs) (or_zero s ra + scast d) s)"
    and step_sth: "exec step (sth rs d ra) s = Some (store_le 2 (gpr s rs) (or_zero s ra + scast d) s)"
    and step_stw: "exec step (stw rs d ra) s = Some (store_le 4 (gpr s rs) (or_zero s ra + scast d) s)"
    and step_std: "d AND 3 = 0 \<Longrightarrow> exec step (std rs d ra) s = Some (store_le 8 (gpr s rs) (or_zero s ra + scast d) s)"
    and step_lbzx: "exec step (lbzx rt ra rb) s = Some (setr rt (load_le 1 s (or_zero s ra + gpr s rb)) s)"
    and step_lhzx: "exec step (lhzx rt ra rb) s = Some (setr rt (load_le 2 s (or_zero s ra + gpr s rb)) s)"
    and step_lwzx: "exec step (lwzx rt ra rb) s = Some (setr rt (load_le 4 s (or_zero s ra + gpr s rb)) s)"
    and step_ldx: "exec step (ldx rt ra rb) s = Some (setr rt (load_le 8 s (or_zero s ra + gpr s rb)) s)"
    and step_stbx: "exec step (stbx rs ra rb) s = Some (store_le 1 (gpr s rs) (or_zero s ra + gpr s rb) s)"
    and step_sthx: "exec step (sthx rs ra rb) s = Some (store_le 2 (gpr s rs) (or_zero s ra + gpr s rb) s)"
    and step_stwx: "exec step (stwx rs ra rb) s = Some (store_le 4 (gpr s rs) (or_zero s ra + gpr s rb) s)"
    and step_stdx: "exec step (stdx rs ra rb) s = Some (store_le 8 (gpr s rs) (or_zero s ra + gpr s rb) s)"
    and step_lhbrx: "exec step (lhbrx rt ra rb) s = Some (setr rt (load_be 2 s (or_zero s ra + gpr s rb)) s)"
    and step_lwbrx: "exec step (lwbrx rt ra rb) s = Some (setr rt (load_be 4 s (or_zero s ra + gpr s rb)) s)"
    and step_ldbrx: "exec step (ldbrx rt ra rb) s = Some (setr rt (load_be 8 s (or_zero s ra + gpr s rb)) s)"
    and step_sthbrx: "exec step (sthbrx rs ra rb) s = Some (store_be 2 (gpr s rs) (or_zero s ra + gpr s rb) s)"
    and step_stwbrx: "exec step (stwbrx rs ra rb) s = Some (store_be 4 (gpr s rs) (or_zero s ra + gpr s rb) s)"
    and step_stdbrx: "exec step (stdbrx rs ra rb) s = Some (store_be 8 (gpr s rs) (or_zero s ra + gpr s rb) s)"
    and step_lwsync: "exec step lwsync s = Some s"
    and step_hwsync: "exec step hwsync s = Some s"

subsection \<open>The decoder is such a processor\<close>

lemma DS_form:
  assumes "d AND 3 = 0"
  shows "ld rt d ra = EmitD 58 (idx rt) (idx ra) d" "std rt d ra = EmitD 62 (idx rt) (idx ra) d"
proof -
  have z: "d AND mask 2 = 0" using assms by (simp add: mask_eq_exp_minus_1)
  have "\<not> (bit d n \<and> n < 2)" for n
  proof
    assume n: "bit d n \<and> n < 2"
    then have "bit (d AND mask 2) n" by (simp add: bit_and_iff bit_mask_iff)
    then show False using z by simp
  qed
  moreover
  have m: "(0xFFFC :: u32) = mask 16 AND NOT (mask 2)" by (simp add: mask_eq_exp_minus_1)
  ultimately have "(ucast d :: u32) AND 0xFFFC = ucast d" unfolding m
    by (intro bit_word_eqI) (auto simp: bit_and_iff bit_not_iff bit_mask_iff bit_unsigned_iff dest: bit_imp_le_length)
  then show "ld rt d ra = EmitD 58 (idx rt) (idx ra) d" "std rt d ra = EmitD 62 (idx rt) (idx ra) d"
    by (simp_all add: ld_def std_def EmitD_def)
qed

lemma sync_forms: "lwsync = EmitX 31 (idx 1) (idx 0) (idx 0) 598 0" "hwsync = EmitX 31 (idx 0) (idx 0) (idx 0) 598 0"
  by (simp_all add: lwsync_def hwsync_def sync_def EmitX_def idx_def)

lemmas mem_mnemonics = lbz_def lhz_def lwz_def stb_def sth_def stw_def lbzx_def lhzx_def lwzx_def ldx_def stbx_def sthx_def stwx_def
  stdx_def lhbrx_def lwbrx_def ldbrx_def sthbrx_def stwbrx_def stdbrx_def sync_forms DS_form

interpretation ppcm: ppc_mem isa_step
  by unfold_locales (simp_all add: mem_mnemonics exec_X exec_D isa_31_def isa_D_def isa_31_mem_def isa_D_mem_def insn_field Let_def)

subsection \<open>Memory\<close>

lemma store_simps [simp]:
  "gpr (store_bytes bs ea s) = gpr s" "cr (store_bytes bs ea s) = cr s" "ca (store_bytes bs ea s) = ca s" "ov (store_bytes bs ea s) = ov s"
  "so (store_bytes bs ea s) = so s" "xer (store_bytes bs ea s) = xer s"
  by (simp_all add: store_bytes_def)

lemmas store_defs = store_le_def store_be_def

lemma load_bytes_cong: "mem s = mem t \<Longrightarrow> load_bytes n s ea = load_bytes n t ea"
  by (simp add: load_bytes_def)

lemma load_setr [simp]: "load_le n (setr r v s) ea = load_le n s ea" "load_be n (setr r v s) ea = load_be n s ea"
  "load_bytes n (setr r v s) ea = load_bytes n s ea"
  by (simp_all add: load_le_def load_be_def load_bytes_def)

lemma store_setr: "store_le n v ea (setr r w s) = setr r w (store_le n v ea s)" "store_be n v ea (setr r w s) = setr r w (store_be n v ea s)"
  by (simp_all add: store_defs store_bytes_def setr_def cong: if_cong)

lemma length_load_bytes [simp]: "length (load_bytes n s ea) = n"
  by (simp add: load_bytes_def)

lemma load_after_store:
  assumes "length bs \<le> 2 ^ 64"
  shows "load_bytes (length bs) (store_bytes bs ea s) ea = bs"
proof (rule nth_equalityI)
  fix i assume i: "i < length (load_bytes (length bs) (store_bytes bs ea s) ea)"
  then have "i < 2 ^ 64" using assms by simp
  then have "unat (of_nat i :: u64) = i" by (simp add: unat_of_nat take_bit_nat_eq_self)
  then show "load_bytes (length bs) (store_bytes bs ea s) ea ! i = bs ! i"
    using i by (simp add: load_bytes_def store_bytes_def)
qed simp

text \<open>Two accesses do not overlap when neither starts inside the other.\<close>

definition disjoint_at :: "nat \<Rightarrow> u64 \<Rightarrow> nat \<Rightarrow> u64 \<Rightarrow> bool" where
  "disjoint_at n a m b \<longleftrightarrow> n \<le> unat (b - a) \<and> m \<le> unat (a - b)"

lemma disjoint_points:
  fixes a b x :: u64
  assumes "disjoint_at n a m b" "unat (x - a) < n"
  shows "m \<le> unat (x - b)"
proof -
  have d: "n \<le> unat (b - a)" "m \<le> unat (a - b)" using assms(1) by (simp_all add: disjoint_at_def)
  have e: "x - b = (x - a) - (b - a)" by simp
  have "unat (x - b) = 2 ^ 64 + unat (x - a) - unat (b - a)" using assms(2) d(1) unfolding e by (subst unat_sub_if') auto
  moreover have "0 < unat (b - a)" using d(1) assms(2) by linarith
  then have "unat (a - b) = 2 ^ 64 - unat (b - a)" using unat_sub_if' [of 0 "b - a"] by simp
  ultimately show ?thesis using d(2) unat_less_exp [of "b - a"] by simp
qed

lemma load_other_store:
  assumes "disjoint_at n ea (length bs) ea'" "n \<le> 2 ^ 63"
  shows "load_bytes n (store_bytes bs ea' s) ea = load_bytes n s ea"
proof (rule nth_equalityI)
  fix i assume "i < length (load_bytes n (store_bytes bs ea' s) ea)"
  then have i: "i < n" by simp
  then have "unat (of_nat i :: u64) = i" using assms(2) by (simp add: unat_of_nat take_bit_nat_eq_self)
  then have "length bs \<le> unat (ea + of_nat i - ea')" using disjoint_points [OF assms(1), of "ea + of_nat i"] i by simp
  then show "load_bytes n (store_bytes bs ea' s) ea ! i = load_bytes n s ea ! i"
    using i by (simp add: load_bytes_def store_bytes_def)
qed simp

lemma store_commute:
  assumes "disjoint_at (length bs) a (length cs) b"
  shows "store_bytes bs a (store_bytes cs b s) = store_bytes cs b (store_bytes bs a s)"
proof -
  have "mem (store_bytes bs a (store_bytes cs b s)) x = mem (store_bytes cs b (store_bytes bs a s)) x" for x
    using disjoint_points [OF assms, of x] by (auto simp: store_bytes_def)
  then show ?thesis by (simp add: store_bytes_def fun_eq_iff)
qed

lemma le_word_take: "n \<le> 8 \<Longrightarrow> (le_word (le_bytes n (v :: u64)) :: u64) = take_bit (8 * n) v"
proof (rule bit_word_eqI)
  fix i :: nat assume n: "n \<le> 8" and "i < LENGTH(64)"
  moreover have "8 * (i div 8) + i mod 8 = i" by simp
  moreover have "i div 8 < n \<longleftrightarrow> i < 8 * n" by auto
  ultimately show "bit (le_word (le_bytes n v) :: u64) i = bit (take_bit (8 * n) v) i"
    by (auto simp: bit_le_word le_bytes_def bit_unsigned_iff bit_drop_bit_eq bit_take_bit_iff)
qed

lemma load_le_store_le: "n \<le> 8 \<Longrightarrow> load_le n (store_le n v ea s) ea = take_bit (8 * n) v"
  using load_after_store [of "le_bytes n v" ea s] by (simp add: load_le_def store_le_def le_word_take)

lemma load_be_store_be: "n \<le> 8 \<Longrightarrow> load_be n (store_be n v ea s) ea = take_bit (8 * n) v"
  using load_after_store [of "rev (le_bytes n v)" ea s] by (simp add: load_be_def store_be_def le_word_take)

lemma load_le_small: "take_bit (8 * n) (load_le n s ea) = load_le n s ea"
  by (rule bit_word_eqI) (auto simp: bit_take_bit_iff load_le_def bit_le_word)

end
