(* ===== verification/Mem_Ops.thy ===== *)
theory Mem_Ops
  imports Ppc_Mem Alu_Bits
begin

text \<open>
  Integer memory operations of \<open>JIT/PPC64LE/MemoryOps.cpp\<close>: the choice of addressing form, loads and stores with
  and without barriers, byte-reversed accesses, pairs, register spills, and the moves between
  guest registers and temporaries.  The vector-class arms of these handlers are not modelled.

  A store is specified by the memory it leaves: the value's low bytes at the effective address.
\<close>

subsection \<open>Registers and moves\<close>

definition STATE :: GPR where "STATE = 27"
definition r1 :: GPR where "r1 = 1"

definition Op_LoadRegister :: "GPR \<Rightarrow> GPR \<Rightarrow> insn list" where
  "Op_LoadRegister Dst Src = (if Dst \<noteq> Src then [mr Dst Src] else [])"

definition Op_StoreRegister :: "GPR \<Rightarrow> GPR \<Rightarrow> insn list" where
  "Op_StoreRegister Dst Src = (if Dst \<noteq> Src then [mr Dst Src] else [])"

definition Op_LoadPF :: "GPR \<Rightarrow> insn list" where
  "Op_LoadPF Dst = (if Dst \<noteq> REG_PF then [mr Dst REG_PF] else [])"

definition Op_LoadAF :: "GPR \<Rightarrow> insn list" where
  "Op_LoadAF Dst = (if Dst \<noteq> REG_AF then [mr Dst REG_AF] else [])"

definition Op_StorePF :: "GPR \<Rightarrow> insn list" where
  "Op_StorePF Src = (if REG_PF \<noteq> Src then [mr REG_PF Src] else [])"

definition Op_StoreAF :: "GPR \<Rightarrow> insn list" where
  "Op_StoreAF Src = (if REG_AF \<noteq> Src then [mr REG_AF Src] else [])"

definition Op_RMWHandle :: "GPR \<Rightarrow> GPR \<Rightarrow> insn list" where
  "Op_RMWHandle Dst Src = (if Dst \<noteq> Src then [mr Dst Src] else [])"

subsection \<open>Addressing forms\<close>

datatype MemOffsetType = SXTX | UXTW | SXTW

record MemAddrForm =
  Addr_Base :: GPR
  Addr_Index :: GPR
  Addr_Disp :: u32
  HasIndex :: bool

record MemOffsetOperand =
  Off_Valid :: bool
  Off_IsConst :: bool
  Off_Const :: u64
  Off_Reg :: GPR
  Off_Type :: MemOffsetType
  Off_Scale :: u8

text \<open>What a handler reads from the offset operand of its node, an absent operand being \<open>None\<close>.\<close>

definition offset_operand :: "operand option \<Rightarrow> MemOffsetType \<Rightarrow> u8 \<Rightarrow> MemOffsetOperand" where
  "offset_operand Offset OffsetType OffsetScale =
     \<lparr>Off_Valid = (Offset \<noteq> None), Off_IsConst = (case Offset of Some (InlineConstant c) \<Rightarrow> True | _ \<Rightarrow> False),
      Off_Const = (case Offset of Some (InlineConstant c) \<Rightarrow> c | _ \<Rightarrow> 0),
      Off_Reg = (case Offset of Some (Reg r) \<Rightarrow> r | _ \<Rightarrow> r0), Off_Type = OffsetType, Off_Scale = OffsetScale\<rparr>"

definition MakeAddrForm :: "Config \<Rightarrow> GPR \<Rightarrow> MemOffsetOperand \<Rightarrow> insn list \<times> MemAddrForm" where
  "MakeAddrForm cfg Base Off =
     (let A = \<lparr>Addr_Base = Base, Addr_Index = Base, Addr_Disp = 0, HasIndex = False\<rparr> in
      if \<not> Off_Valid Off then ([], A)
      else if Off_IsConst Off then
        (let sOff = Off_Const Off * ucast (Off_Scale Off) in
         if - 32768 \<le> sint sOff \<and> sint sOff \<le> 32767 then ([], A\<lparr>Addr_Disp := ucast sOff\<rparr>)
         else (LoadConstant cfg TMP3 sOff, A\<lparr>Addr_Index := TMP3, HasIndex := True\<rparr>))
      else
        (let (extend, OffReg) =
               (if Off_Type Off = UXTW then ([rldicl TMP3 (Off_Reg Off) 0 32], TMP3)
                else if Off_Type Off = SXTW then ([extsw TMP3 (Off_Reg Off)], TMP3)
                else ([], Off_Reg Off));
             (scale, OffReg) =
               (if 1 < Off_Scale Off then ([sldi TMP3 OffReg (of_nat (countr_zero (ucast (Off_Scale Off) :: u32)))], TMP3)
                else ([], OffReg))
         in (extend @ scale, A\<lparr>Addr_Index := OffReg, HasIndex := True\<rparr>)))"

definition MaterializeAddr :: "MemAddrForm \<Rightarrow> insn list \<times> GPR" where
  "MaterializeAddr A =
     (if HasIndex A then ([add TMP3 (Addr_Base A) (Addr_Index A)], TMP3)
      else if Addr_Disp A = 0 then ([], Addr_Base A)
      else ([addi TMP3 (Addr_Base A) (ucast (Addr_Disp A))], TMP3))"

definition CanUseDForm :: "MemAddrForm \<Rightarrow> OpSize \<Rightarrow> bool" where
  "CanUseDForm A Size =
     (if HasIndex A then False
      else if sint (Addr_Disp A) < - 32768 \<or> 32767 < sint (Addr_Disp A) then False
      else if Size = i64Bit \<and> Addr_Disp A AND 3 \<noteq> 0 then False
      else True)"

definition AssertNonZeroBase :: "MemAddrForm \<Rightarrow> insn list" where
  "AssertNonZeroBase A = (if Addr_Base A \<noteq> r0 then [] else [None])"

definition LegalizeForm :: "Config \<Rightarrow> MemAddrForm \<Rightarrow> OpSize \<Rightarrow> insn list \<times> MemAddrForm" where
  "LegalizeForm cfg A Size =
     (if HasIndex A \<or> CanUseDForm A Size then ([], A)
      else (LoadConstant cfg TMP3 (scast (Addr_Disp A)), A\<lparr>Addr_Index := TMP3, HasIndex := True\<rparr>))"

definition EmitLoadGPR :: "Config \<Rightarrow> OpSize \<Rightarrow> GPR \<Rightarrow> MemAddrForm \<Rightarrow> insn list" where
  "EmitLoadGPR cfg Size Dst A0 =
     (let (pre, A) = LegalizeForm cfg A0 Size; D = ucast (Addr_Disp A); Index = (if HasIndex A then Addr_Index A else r0) in
      pre @
      (if CanUseDForm A Size then
         AssertNonZeroBase A @
         (case Size of i8Bit \<Rightarrow> [lbz Dst D (Addr_Base A)] | i16Bit \<Rightarrow> [lhz Dst D (Addr_Base A)] | i32Bit \<Rightarrow> [lwz Dst D (Addr_Base A)]
          | i64Bit \<Rightarrow> [ld Dst D (Addr_Base A)] | _ \<Rightarrow> [])
       else
         (case Size of i8Bit \<Rightarrow> [lbzx Dst (Addr_Base A) Index] | i16Bit \<Rightarrow> [lhzx Dst (Addr_Base A) Index]
          | i32Bit \<Rightarrow> [lwzx Dst (Addr_Base A) Index] | i64Bit \<Rightarrow> [ldx Dst (Addr_Base A) Index] | _ \<Rightarrow> [])))"

definition EmitStoreGPR :: "Config \<Rightarrow> OpSize \<Rightarrow> GPR \<Rightarrow> MemAddrForm \<Rightarrow> insn list" where
  "EmitStoreGPR cfg Size Src A0 =
     (let (pre, A) = LegalizeForm cfg A0 Size; D = ucast (Addr_Disp A); Index = (if HasIndex A then Addr_Index A else r0) in
      pre @
      (if CanUseDForm A Size then
         AssertNonZeroBase A @
         (case Size of i8Bit \<Rightarrow> [stb Src D (Addr_Base A)] | i16Bit \<Rightarrow> [sth Src D (Addr_Base A)] | i32Bit \<Rightarrow> [stw Src D (Addr_Base A)]
          | i64Bit \<Rightarrow> [std Src D (Addr_Base A)] | _ \<Rightarrow> [])
       else
         (case Size of i8Bit \<Rightarrow> [stbx Src (Addr_Base A) Index] | i16Bit \<Rightarrow> [sthx Src (Addr_Base A) Index]
          | i32Bit \<Rightarrow> [stwx Src (Addr_Base A) Index] | i64Bit \<Rightarrow> [stdx Src (Addr_Base A) Index] | _ \<Rightarrow> [])))"

subsection \<open>Loads and stores of guest memory\<close>

text \<open>The common start of the handlers: the base register, an inline constant going to TMP4, and the addressing form.\<close>

definition access_form :: "Config \<Rightarrow> operand \<Rightarrow> operand option \<Rightarrow> MemOffsetType \<Rightarrow> u8 \<Rightarrow> insn list \<times> MemAddrForm" where
  "access_form cfg Addr Offset OffsetType OffsetScale =
     (let (base, R) = (case Addr of InlineConstant c \<Rightarrow> (LoadConstant cfg TMP4 c, TMP4) | Reg r \<Rightarrow> ([], r));
          (form, A) = MakeAddrForm cfg R (offset_operand Offset OffsetType OffsetScale)
      in (base @ form, A))"

text \<open>The register a stored value is taken from: r0, which holds zero, or TMP1 for an inline constant.\<close>

definition stored_value :: "Config \<Rightarrow> operand \<Rightarrow> insn list \<times> GPR" where
  "stored_value cfg Value =
     (case Value of InlineConstant c \<Rightarrow> if c = 0 then ([], r0) else (LoadConstant cfg TMP1 c, TMP1) | Reg r \<Rightarrow> ([], r))"

definition Op_LoadMem :: "Config \<Rightarrow> OpSize \<Rightarrow> GPR \<Rightarrow> operand \<Rightarrow> operand option \<Rightarrow> MemOffsetType \<Rightarrow> u8 \<Rightarrow> insn list" where
  "Op_LoadMem cfg Size Dst Addr Offset OffsetType OffsetScale =
     (let (pre, EAF) = access_form cfg Addr Offset OffsetType OffsetScale in pre @ EmitLoadGPR cfg Size Dst EAF)"

definition Op_StoreMem :: "Config \<Rightarrow> OpSize \<Rightarrow> operand \<Rightarrow> operand \<Rightarrow> operand option \<Rightarrow> MemOffsetType \<Rightarrow> u8 \<Rightarrow> insn list" where
  "Op_StoreMem cfg Size Value Addr Offset OffsetType OffsetScale =
     (let (pre, EAF) = access_form cfg Addr Offset OffsetType OffsetScale; (val, GSrc) = stored_value cfg Value
      in pre @ val @ EmitStoreGPR cfg Size GSrc EAF)"

definition Op_LoadMemTSO :: "Config \<Rightarrow> OpSize \<Rightarrow> GPR \<Rightarrow> operand \<Rightarrow> operand option \<Rightarrow> MemOffsetType \<Rightarrow> u8 \<Rightarrow> insn list" where
  "Op_LoadMemTSO cfg Size Dst Addr Offset OffsetType OffsetScale =
     (let (pre, EAF) = access_form cfg Addr Offset OffsetType OffsetScale in pre @ EmitLoadGPR cfg Size Dst EAF @ [lwsync])"

definition Op_StoreMemTSO :: "Config \<Rightarrow> bool \<Rightarrow> OpSize \<Rightarrow> operand \<Rightarrow> operand \<Rightarrow> operand option \<Rightarrow> MemOffsetType \<Rightarrow> u8 \<Rightarrow> insn list" where
  "Op_StoreMemTSO cfg ElideLeadingBarrier Size Value Addr Offset OffsetType OffsetScale =
     (let (pre, EAF) = access_form cfg Addr Offset OffsetType OffsetScale; (val, GSrc) = stored_value cfg Value
      in pre @ (if ElideLeadingBarrier then [] else [lwsync]) @ val @ EmitStoreGPR cfg Size GSrc EAF)"

definition Op_LoadMemRev :: "bool \<Rightarrow> OpSize \<Rightarrow> GPR \<Rightarrow> GPR \<Rightarrow> insn list" where
  "Op_LoadMemRev TSO Size Dst Addr =
     (case Size of i16Bit \<Rightarrow> [lhbrx Dst Addr r0] | i32Bit \<Rightarrow> [lwbrx Dst Addr r0] | i64Bit \<Rightarrow> [ldbrx Dst Addr r0] | _ \<Rightarrow> [None]) @
     (if TSO then [lwsync] else [])"

definition Op_StoreMemRev :: "bool \<Rightarrow> OpSize \<Rightarrow> GPR \<Rightarrow> GPR \<Rightarrow> insn list" where
  "Op_StoreMemRev TSO Size Value Addr =
     (if TSO then [lwsync] else []) @
     (case Size of i16Bit \<Rightarrow> [sthbrx Value Addr r0] | i32Bit \<Rightarrow> [stwbrx Value Addr r0] | i64Bit \<Rightarrow> [stdbrx Value Addr r0] | _ \<Rightarrow> [None])"

subsection \<open>Pairs and spills\<close>

definition ComputeOffsetAddrInto :: "Config \<Rightarrow> GPR \<Rightarrow> u64 \<Rightarrow> GPR \<Rightarrow> insn list \<times> GPR" where
  "ComputeOffsetAddrInto cfg Addr Offset scratch_reg =
     (if Offset = 0 then ([], Addr)
      else if - 32768 \<le> sint Offset \<and> sint Offset \<le> 32767 then ([addi scratch_reg Addr (ucast Offset)], scratch_reg)
      else (LoadConstant cfg scratch_reg Offset @ [add scratch_reg Addr scratch_reg], scratch_reg))"

definition Op_LoadMemPair :: "Config \<Rightarrow> OpSize \<Rightarrow> GPR \<Rightarrow> GPR \<Rightarrow> GPR \<Rightarrow> u32 \<Rightarrow> insn list" where
  "Op_LoadMemPair cfg Size D1 D2 Addr Offset =
     (let (pre, Base) = ComputeOffsetAddrInto cfg Addr (scast Offset) TMP1; S = of_nat (OpSizeToSize Size) in
      pre @ (case Size of i8Bit \<Rightarrow> [lbz D1 0 Base, lbz D2 S Base] | i16Bit \<Rightarrow> [lhz D1 0 Base, lhz D2 S Base]
             | i32Bit \<Rightarrow> [lwz D1 0 Base, lwz D2 S Base] | i64Bit \<Rightarrow> [ld D1 0 Base, ld D2 S Base] | _ \<Rightarrow> []))"

text \<open>The register of an operand that may be an inline zero.  The register byte of any other inline constant is stale.\<close>

definition GetZeroableReg :: "operand \<Rightarrow> GPR option" where
  "GetZeroableReg Src = (case Src of InlineConstant c \<Rightarrow> if c = 0 then Some r0 else None | Reg r \<Rightarrow> Some r)"

definition Op_StoreMemPair :: "Config \<Rightarrow> OpSize \<Rightarrow> operand \<Rightarrow> operand \<Rightarrow> GPR \<Rightarrow> u32 \<Rightarrow> insn list" where
  "Op_StoreMemPair cfg Size Value1 Value2 Addr Offset =
     (let (pre, Base) = ComputeOffsetAddrInto cfg Addr (scast Offset) TMP1; S = of_nat (OpSizeToSize Size) in
      case (GetZeroableReg Value1, GetZeroableReg Value2) of
        (Some S1, Some S2) \<Rightarrow>
          pre @ (case Size of i8Bit \<Rightarrow> [stb S1 0 Base, stb S2 S Base] | i16Bit \<Rightarrow> [sth S1 0 Base, sth S2 S Base]
                 | i32Bit \<Rightarrow> [stw S1 0 Base, stw S2 S Base] | i64Bit \<Rightarrow> [std S1 0 Base, std S2 S Base] | _ \<Rightarrow> [])
      | _ \<Rightarrow> [None])"

definition SpillOffset :: "u32 \<Rightarrow> u32" where
  "SpillOffset slot = 96 + slot * 32"

definition Op_SpillRegister :: "Config \<Rightarrow> OpSize \<Rightarrow> GPR \<Rightarrow> u32 \<Rightarrow> insn list" where
  "Op_SpillRegister cfg Size GSrc Slot =
     (let SlotOffset = SpillOffset Slot; SZ = OpSizeToSize Size in
      if SZ = 1 then [stb GSrc (ucast SlotOffset) r1]
      else if SZ = 2 then [sth GSrc (ucast SlotOffset) r1]
      else if SZ = 4 then [stw GSrc (ucast SlotOffset) r1]
      else if SZ = 8 then
        (if SlotOffset AND 3 = 0 \<and> - 32768 \<le> sint SlotOffset \<and> sint SlotOffset \<le> 32764 then [std GSrc (ucast SlotOffset) r1]
         else LoadConstant cfg TMP1 (scast SlotOffset) @ [stdx GSrc r1 TMP1])
      else [])"

definition Op_FillRegister :: "Config \<Rightarrow> OpSize \<Rightarrow> GPR \<Rightarrow> u32 \<Rightarrow> insn list" where
  "Op_FillRegister cfg Size GDst Slot =
     (let SlotOffset = SpillOffset Slot; SZ = OpSizeToSize Size in
      if SZ = 1 then [lbz GDst (ucast SlotOffset) r1]
      else if SZ = 2 then [lhz GDst (ucast SlotOffset) r1]
      else if SZ = 4 then [lwz GDst (ucast SlotOffset) r1]
      else if SZ = 8 then
        (if SlotOffset AND 3 = 0 \<and> - 32768 \<le> sint SlotOffset \<and> sint SlotOffset \<le> 32764 then [ld GDst (ucast SlotOffset) r1]
         else LoadConstant cfg TMP1 (scast SlotOffset) @ [ldx GDst r1 TMP1])
      else [])"

subsection \<open>What an access means\<close>

definition offset_value :: "PPC \<Rightarrow> operand option \<Rightarrow> MemOffsetType \<Rightarrow> u8 \<Rightarrow> u64" where
  "offset_value s Offset OffsetType OffsetScale =
     (case Offset of None \<Rightarrow> 0
      | Some (InlineConstant c) \<Rightarrow> c * ucast OffsetScale
      | Some (Reg r) \<Rightarrow> (case OffsetType of SXTX \<Rightarrow> gpr s r | UXTW \<Rightarrow> ucast (ucast (gpr s r) :: u32) | SXTW \<Rightarrow> scast (ucast (gpr s r) :: u32)) * ucast OffsetScale)"

definition effective_address :: "PPC \<Rightarrow> operand \<Rightarrow> operand option \<Rightarrow> MemOffsetType \<Rightarrow> u8 \<Rightarrow> u64" where
  "effective_address s Addr Offset OffsetType OffsetScale = value_of s Addr + offset_value s Offset OffsetType OffsetScale"

text \<open>The operands register allocation leaves: guest registers or inline constants, and an element size as scale.\<close>

definition access_operands :: "operand \<Rightarrow> operand option \<Rightarrow> u8 \<Rightarrow> bool" where
  "access_operands Addr Offset OffsetScale \<longleftrightarrow>
     guest_operand Addr \<and> (\<forall>x. Offset = Some x \<longrightarrow> guest_operand x) \<and> OffsetScale \<in> {1, 2, 4, 8}"

definition stores :: "(u32 \<Rightarrow> PPC \<Rightarrow> PPC option) \<Rightarrow> insn list \<Rightarrow> PPC \<Rightarrow> nat \<Rightarrow> u64 \<Rightarrow> u64 \<Rightarrow> bool" where
  "stores step is s n v ea \<longleftrightarrow> (\<exists>s'. run step is s = Some s' \<and> keeps scratch (store_le n v ea s) s')"

definition form_address :: "PPC \<Rightarrow> MemAddrForm \<Rightarrow> u64" where
  "form_address s A = gpr s (Addr_Base A) + (if HasIndex A then gpr s (Addr_Index A) else scast (Addr_Disp A))"

lemma scast_narrow_disp:
  fixes x :: u64
  assumes "- 32768 \<le> sint x" "sint x \<le> 32767"
  shows "scast (ucast x :: u32) = x" "scast (ucast (ucast x :: u32) :: u16) = x" "scast (ucast x :: u16) = x"
    "sint (ucast x :: u32) = sint x"
proof -
  show x: "scast (ucast x :: u32) = x" and "scast (ucast x :: u16) = x" using assms by (auto intro!: scast_ucast_id)
  moreover have "(ucast (ucast x :: u32) :: u16) = ucast x" by (rule bit_word_eqI) (simp add: bit_unsigned_iff)
  ultimately show "scast (ucast (ucast x :: u32) :: u16) = x" by simp
  have "sint (scast (ucast x :: u32) :: u64) = sint (ucast x :: u32)" by (rule sint_up_scast) (simp add: is_up)
  then show "sint (ucast x :: u32) = sint x" by (simp add: x)
qed

lemma scast_disp16:
  fixes d :: u32
  assumes "- 32768 \<le> sint d" "sint d \<le> 32767"
  shows "(scast (ucast d :: u16) :: u64) = scast d"
proof -
  have "scast (ucast d :: u16) = d" using assms by (auto intro!: scast_ucast_id)
  moreover have "sint (scast (ucast d :: u16) :: u32) = sint (ucast d :: u16)" by (rule sint_up_scast) (simp add: is_up)
  ultimately show ?thesis by (simp only: scast_eq)
qed

lemma scale_shifts: "countr_zero (2 :: u32) = 1" "countr_zero (4 :: u32) = 2" "countr_zero (8 :: u32) = 3"
  by (simp_all add: countr_zero_def upt_conv_Cons)

lemma scale_bits: "push_bit 1 (x :: u64) = x * 2" "push_bit 2 x = x * 4" "push_bit 3 x = x * 8"
  by (simp_all add: push_bit_eq_mult)

subsection \<open>Address computation\<close>

context ppc_mem
begin

lemma step_mr: "exec step (mr ra rs) s = Some (setr ra (gpr s rs) s)"
  by (simp add: mr_def step_or)

lemma step_scale: "exec step (sldi ra rs (of_nat (countr_zero (2 :: u32)))) s = Some (setr ra (gpr s rs * 2) s)"
  "exec step (sldi ra rs (of_nat (countr_zero (4 :: u32)))) s = Some (setr ra (gpr s rs * 4) s)"
  "exec step (sldi ra rs (of_nat (countr_zero (8 :: u32)))) s = Some (setr ra (gpr s rs * 8) s)"
  using step_sldi [of 1] step_sldi [of 2] step_sldi [of 3] by (simp_all add: scale_shifts scale_bits del: One_nat_def)

lemma run_MakeAddrForm:
  assumes "MakeAddrForm cfg Base (offset_operand Offset OffsetType OffsetScale) = (pre, A)"
    and "\<And>x. Offset = Some x \<Longrightarrow> guest_operand x" and "OffsetScale \<in> {1, 2, 4, 8}" and "Base \<noteq> TMP3"
  shows "\<exists>t. run step pre s = Some t \<and> keeps {TMP3} s t \<and> Addr_Base A = Base \<and>
    form_address t A = gpr s Base + offset_value s Offset OffsetType OffsetScale \<and>
    (HasIndex A \<longrightarrow> Addr_Index A \<noteq> TMP1)"
proof (cases Offset)
  case None
  then show ?thesis using assms(1) by (auto simp: MakeAddrForm_def offset_operand_def form_address_def offset_value_def)
next
  case (Some x)
  show ?thesis
  proof (cases x)
    case (InlineConstant c)
    define k where "k = c * ucast OffsetScale"
    show ?thesis
    proof (cases "- 32768 \<le> sint k \<and> sint k \<le> 32767")
      case True
      then show ?thesis using assms(1) Some InlineConstant
        by (auto simp: MakeAddrForm_def offset_operand_def form_address_def offset_value_def scast_narrow_disp simp flip: k_def)
    next
      case False
      then show ?thesis using assms(1,4) Some InlineConstant
        by (auto simp: MakeAddrForm_def offset_operand_def form_address_def offset_value_def run_LoadConstant simp flip: k_def)
    qed
  next
    case (Reg r)
    then have "guest_reg r" using assms(2) [OF Some] by simp
    then show ?thesis using assms(1,3,4) Some Reg
      by (cases OffsetType) (auto simp: MakeAddrForm_def offset_operand_def form_address_def offset_value_def step_scale step_zext32 step_extsw)
  qed
qed

lemma run_access_form:
  assumes "access_form cfg Addr Offset OffsetType OffsetScale = (pre, A)" "access_operands Addr Offset OffsetScale"
  shows "\<exists>t. run step pre s = Some t \<and> keeps {TMP3, TMP4} s t \<and> (guest_reg (Addr_Base A) \<or> Addr_Base A = TMP4) \<and>
    form_address t A = effective_address s Addr Offset OffsetType OffsetScale \<and>
    (HasIndex A \<longrightarrow> Addr_Index A \<noteq> TMP1)"
proof -
  define Base where "Base = (case Addr of InlineConstant c \<Rightarrow> TMP4 | Reg r \<Rightarrow> r)"
  define load where "load = (case Addr of InlineConstant c \<Rightarrow> LoadConstant cfg TMP4 c | Reg r \<Rightarrow> [])"
  obtain form where form: "MakeAddrForm cfg Base (offset_operand Offset OffsetType OffsetScale) = (form, A)" "pre = load @ form"
    using assms(1) by (auto simp: access_form_def Base_def load_def split: operand.splits prod.splits)
  obtain t where t: "run step load s = Some t" "keeps {TMP4} s t" "gpr t Base = value_of s Addr"
    by (cases Addr) (auto simp: load_def Base_def run_LoadConstant)
  have base: "guest_reg Base \<or> Base = TMP4" "Base \<noteq> TMP3" using assms(2) by (cases Addr; auto simp: Base_def access_operands_def)+
  have "offset_value t Offset OffsetType OffsetScale = offset_value s Offset OffsetType OffsetScale"
    using t(2) assms(2) by (cases OffsetType) (auto simp: offset_value_def access_operands_def keeps_def split: option.splits operand.splits)
  moreover obtain u where "run step form t = Some u" "keeps {TMP3} t u" "Addr_Base A = Base"
    "form_address u A = gpr t Base + offset_value t Offset OffsetType OffsetScale"
    "HasIndex A \<longrightarrow> Addr_Index A \<noteq> TMP1"
    using run_MakeAddrForm [OF form(1) _ _ base(2), of t] assms(2) unfolding access_operands_def by auto
  ultimately show ?thesis using t base(1) by (auto simp: form(2) run_append keeps_def effective_address_def)
qed

lemma run_LegalizeForm:
  assumes "LegalizeForm cfg A Size = (pre, B)" "Addr_Base A \<noteq> TMP3"
  shows "\<exists>t. run step pre s = Some t \<and> keeps {TMP3} s t \<and> Addr_Base B = Addr_Base A \<and> form_address t B = form_address s A \<and>
    (HasIndex B \<or> CanUseDForm B Size)"
  using assms by (auto simp: LegalizeForm_def form_address_def run_LoadConstant split: if_splits)

end

lemma DForm_displacement:
  assumes "CanUseDForm A Size"
  shows "\<not> HasIndex A" "(scast (ucast (Addr_Disp A) :: u16) :: u64) = scast (Addr_Disp A)"
    "Size = i64Bit \<Longrightarrow> (ucast (Addr_Disp A) :: u16) AND 3 = 0"
proof -
  show "\<not> HasIndex A" "(scast (ucast (Addr_Disp A) :: u16) :: u64) = scast (Addr_Disp A)"
    using assms by (auto simp: CanUseDForm_def scast_disp16 split: if_splits)
  assume "Size = i64Bit"
  then have "Addr_Disp A AND mask 2 = 0" using assms by (auto simp: CanUseDForm_def mask_eq_exp_minus_1 split: if_splits)
  then have "(ucast (Addr_Disp A AND mask 2) :: u16) = 0" by simp
  moreover have "(ucast (Addr_Disp A AND mask 2) :: u16) = ucast (Addr_Disp A) AND mask 2"
    by (rule bit_word_eqI) (auto simp: bit_unsigned_iff bit_and_iff bit_mask_iff)
  ultimately show "(ucast (Addr_Disp A) :: u16) AND 3 = 0" by (simp add: mask_eq_exp_minus_1)
qed

context ppc_mem
begin

lemma run_EmitLoadGPR:
  assumes "count_size Size" "Addr_Base A \<noteq> 0" "Addr_Base A \<noteq> TMP3"
  shows "\<exists>t. run step (EmitLoadGPR cfg Size Dst A) s = Some (setr Dst (load_le (OpSizeToSize Size) s (form_address s A)) t) \<and> keeps {TMP3} s t"
proof -
  obtain pre B where pre: "LegalizeForm cfg A Size = (pre, B)" by fastforce
  obtain t where t: "run step pre s = Some t" "keeps {TMP3} s t" "Addr_Base B = Addr_Base A" "form_address t B = form_address s A"
    "HasIndex B \<or> CanUseDForm B Size" using run_LegalizeForm [OF pre assms(3)] by blast
  have m: "load_le n s a = load_le n t a" for n a using t(2) by (simp add: load_le_def load_bytes_def keeps_def)
  have base: "or_zero t (Addr_Base B) = gpr t (Addr_Base B)" using assms(2) t(3) by (simp add: or_zero_def)
  show ?thesis
  proof (cases "CanUseDForm B Size")
    case True
    note d = DForm_displacement [OF True]
    have ea: "gpr t (Addr_Base B) + scast (Addr_Disp B) = form_address s A" using t(4) d(1) by (simp add: form_address_def)
    have b: "AssertNonZeroBase B = []" using assms(2) t(3) by (simp add: AssertNonZeroBase_def r0_def)
    from assms(1) show ?thesis using t(1,2) pre True d b ea
      by (cases rule: count_size_cases)
        (auto simp: EmitLoadGPR_def run_append step_lbz step_lhz step_lwz step_ld base m)
  next
    case False
    then have ea: "HasIndex B" "gpr t (Addr_Base B) + gpr t (Addr_Index B) = form_address s A" using t(4,5) by (auto simp: form_address_def)
    from assms(1) show ?thesis using t(1,2) pre False ea
      by (cases rule: count_size_cases)
        (auto simp: EmitLoadGPR_def run_append step_lbzx step_lhzx step_lwzx step_ldx base m)
  qed
qed

lemma run_EmitStoreGPR:
  assumes "count_size Size" "Addr_Base A \<noteq> 0" "Addr_Base A \<noteq> TMP3" "Src \<noteq> TMP3"
  shows "\<exists>t. run step (EmitStoreGPR cfg Size Src A) s = Some (store_le (OpSizeToSize Size) (gpr s Src) (form_address s A) t) \<and> keeps {TMP3} s t"
proof -
  obtain pre B where pre: "LegalizeForm cfg A Size = (pre, B)" by fastforce
  obtain t where t: "run step pre s = Some t" "keeps {TMP3} s t" "Addr_Base B = Addr_Base A" "form_address t B = form_address s A"
    "HasIndex B \<or> CanUseDForm B Size" using run_LegalizeForm [OF pre assms(3)] by blast
  have v: "gpr t Src = gpr s Src" using t(2) assms(4) by (simp add: keeps_def)
  have base: "or_zero t (Addr_Base B) = gpr t (Addr_Base B)" using assms(2) t(3) by (simp add: or_zero_def)
  show ?thesis
  proof (cases "CanUseDForm B Size")
    case True
    note d = DForm_displacement [OF True]
    have ea: "gpr t (Addr_Base B) + scast (Addr_Disp B) = form_address s A" using t(4) d(1) by (simp add: form_address_def)
    have b: "AssertNonZeroBase B = []" using assms(2) t(3) by (simp add: AssertNonZeroBase_def r0_def)
    from assms(1) show ?thesis using t(1,2) pre True d b ea
      by (cases rule: count_size_cases)
        (auto simp: EmitStoreGPR_def run_append step_stb step_sth step_stw step_std base v)
  next
    case False
    then have ea: "HasIndex B" "gpr t (Addr_Base B) + gpr t (Addr_Index B) = form_address s A" using t(4,5) by (auto simp: form_address_def)
    from assms(1) show ?thesis using t(1,2) pre False ea
      by (cases rule: count_size_cases)
        (auto simp: EmitStoreGPR_def run_append step_stbx step_sthx step_stwx step_stdx base v)
  qed
qed

subsection \<open>The operations\<close>

lemma keeps_trans: "keeps R s t \<Longrightarrow> keeps R t u \<Longrightarrow> keeps R s u"
  by (auto simp: keeps_def)

lemma keeps_mono: "keeps R s t \<Longrightarrow> R \<subseteq> R' \<Longrightarrow> keeps R' s t"
  by (auto simp: keeps_def)

lemma keeps_store: "keeps R s t \<Longrightarrow> keeps R (store_le n v ea s) (store_le n v ea t)"
  by (auto simp: keeps_def store_le_def store_bytes_def)

lemma keeps_same_load: "keeps R s t \<Longrightarrow> load_le n t ea = load_le n s ea"
  by (simp add: load_le_def load_bytes_def keeps_def)

lemma computes_LoadMem:
  assumes "count_size Size" "access_operands Addr Offset OffsetScale"
  shows "computes step (Op_LoadMem cfg Size Dst Addr Offset OffsetType OffsetScale) s Dst
    (\<lambda>v. v = load_le (OpSizeToSize Size) s (effective_address s Addr Offset OffsetType OffsetScale))"
proof -
  obtain pre A where pre: "access_form cfg Addr Offset OffsetType OffsetScale = (pre, A)" by fastforce
  obtain t where t: "run step pre s = Some t" "keeps {TMP3, TMP4} s t" "guest_reg (Addr_Base A) \<or> Addr_Base A = TMP4"
    "form_address t A = effective_address s Addr Offset OffsetType OffsetScale"
    using run_access_form [OF pre assms(2)] by blast
  then obtain u where "run step (EmitLoadGPR cfg Size Dst A) t = Some (setr Dst (load_le (OpSizeToSize Size) t (form_address t A)) u)" "keeps {TMP3} t u"
    using run_EmitLoadGPR [OF assms(1), of A cfg Dst t] by auto
  moreover from this(2) have "keeps (insert Dst scratch) s u"
    using keeps_trans [OF keeps_mono [OF t(2), of "insert Dst scratch"] keeps_mono [of "{TMP3}" t u]] by simp
  ultimately show ?thesis using t(1,4) keeps_same_load [OF t(2)]
    by (auto simp: computes_def Op_LoadMem_def pre run_append)
qed

lemma run_stored_value:
  assumes "stored_value cfg Value = (val, GSrc)" "guest_operand Value" "gpr s r0 = 0"
  shows "\<exists>t. run step val s = Some t \<and> keeps {TMP1} s t \<and> gpr t GSrc = value_of s Value \<and> GSrc \<noteq> TMP3"
  using assms by (auto simp: stored_value_def run_LoadConstant split: operand.splits if_splits)

lemma stores_StoreMemTSO:
  assumes "count_size Size" "access_operands Addr Offset OffsetScale" "guest_operand Value" "gpr s r0 = 0"
  shows "stores step (Op_StoreMemTSO cfg Elide Size Value Addr Offset OffsetType OffsetScale) s
    (OpSizeToSize Size) (value_of s Value) (effective_address s Addr Offset OffsetType OffsetScale)"
proof -
  obtain pre A where pre: "access_form cfg Addr Offset OffsetType OffsetScale = (pre, A)" by fastforce
  obtain val GSrc where val: "stored_value cfg Value = (val, GSrc)" by fastforce
  obtain t where t: "run step pre s = Some t" "keeps {TMP3, TMP4} s t" "guest_reg (Addr_Base A) \<or> Addr_Base A = TMP4"
    "form_address t A = effective_address s Addr Offset OffsetType OffsetScale" "HasIndex A \<longrightarrow> Addr_Index A \<noteq> TMP1"
    using run_access_form [OF pre assms(2)] by blast
  have "gpr t r0 = 0" "value_of t Value = value_of s Value" using t(2) assms(3,4) by (cases Value; auto simp: keeps_def)+
  then obtain u where u: "run step val t = Some u" "keeps {TMP1} t u" "gpr u GSrc = value_of s Value" "GSrc \<noteq> TMP3"
    using run_stored_value [OF val assms(3), of t] by auto
  have "form_address u A = form_address t A" using u(2) t(3,5) by (auto simp: form_address_def keeps_def)
  then obtain w where w: "run step (EmitStoreGPR cfg Size GSrc A) u = Some (store_le (OpSizeToSize Size) (value_of s Value) (form_address t A) w)" "keeps {TMP3} u w"
    using run_EmitStoreGPR [OF assms(1), of A GSrc cfg u] t(3) u(3,4) by auto
  have "keeps scratch s w"
    using keeps_trans [OF keeps_mono [OF t(2)] keeps_trans [OF keeps_mono [OF u(2)] keeps_mono [OF w(2)]], of scratch] by simp
  then show ?thesis using t(1,4) u(1) w(1)
    by (auto simp: stores_def Op_StoreMemTSO_def pre val run_append step_lwsync intro: keeps_store)
qed

lemma StoreMem_TSO: "Op_StoreMem cfg Size Value Addr Offset OffsetType OffsetScale = Op_StoreMemTSO cfg True Size Value Addr Offset OffsetType OffsetScale"
  by (simp add: Op_StoreMem_def Op_StoreMemTSO_def)

lemmas stores_StoreMem = stores_StoreMemTSO [where Elide = True, folded StoreMem_TSO]

lemma run_LoadMemTSO: "run step (Op_LoadMemTSO cfg Size Dst Addr Offset OffsetType OffsetScale) s = run step (Op_LoadMem cfg Size Dst Addr Offset OffsetType OffsetScale) s"
  by (auto simp: Op_LoadMemTSO_def Op_LoadMem_def run_append step_lwsync split: prod.splits option.splits)

lemma computes_moves:
  "computes step (Op_LoadRegister Dst Src) s Dst (\<lambda>v. v = gpr s Src)"
  "computes step (Op_StoreRegister Dst Src) s Dst (\<lambda>v. v = gpr s Src)"
  "computes step (Op_RMWHandle Dst Src) s Dst (\<lambda>v. v = gpr s Src)"
  "computes step (Op_LoadPF Dst) s Dst (\<lambda>v. v = gpr s REG_PF)" "computes step (Op_LoadAF Dst) s Dst (\<lambda>v. v = gpr s REG_AF)"
  "computes step (Op_StorePF Src) s REG_PF (\<lambda>v. v = gpr s Src)" "computes step (Op_StoreAF Src) s REG_AF (\<lambda>v. v = gpr s Src)"
  by (auto simp: computes_def Op_LoadRegister_def Op_StoreRegister_def Op_RMWHandle_def Op_LoadPF_def Op_LoadAF_def Op_StorePF_def
      Op_StoreAF_def step_mr)

lemma computes_LoadMemRev:
  assumes "Size = i16Bit \<or> Size = i32Bit \<or> Size = i64Bit" "guest_reg Addr" "gpr s r0 = 0"
  shows "computes step (Op_LoadMemRev TSO Size Dst Addr) s Dst (\<lambda>v. v = load_be (OpSizeToSize Size) s (gpr s Addr))"
  using assms by (auto simp: computes_def Op_LoadMemRev_def step_lhbrx step_lwbrx step_ldbrx step_lwsync or_zero_def)

lemma run_StoreMemRev:
  assumes "Size = i16Bit \<or> Size = i32Bit \<or> Size = i64Bit" "guest_reg Addr" "gpr s r0 = 0"
  shows "run step (Op_StoreMemRev TSO Size Value Addr) s = Some (store_be (OpSizeToSize Size) (gpr s Value) (gpr s Addr) s)"
  using assms by (auto simp: Op_StoreMemRev_def step_sthbrx step_stwbrx step_stdbrx step_lwsync or_zero_def)

subsection \<open>Spill slots\<close>

end

text \<open>
  A slot number is valid for a size when its offset is a signed 32-bit displacement and, below eight bytes, when it fits
  the 16-bit field of the instruction, which the code does not check.
\<close>

definition slot_ok :: "OpSize \<Rightarrow> u32 \<Rightarrow> bool" where
  "slot_ok Size Slot \<longleftrightarrow> count_size Size \<and> unat Slot < (if Size = i64Bit then 67108860 else 1021)"

definition slot_address :: "PPC \<Rightarrow> u32 \<Rightarrow> u64" where
  "slot_address s Slot = gpr s r1 + (96 + 32 * ucast Slot)"

lemma SpillOffset_value:
  assumes "unat Slot < 67108860"
  shows "sint (SpillOffset Slot) = 96 + 32 * uint Slot" "scast (SpillOffset Slot) = (96 + 32 * ucast Slot :: u64)"
proof -
  have "int (unat Slot) < 67108860" using assms by linarith
  then have b: "uint Slot < 67108860" by (simp only: of_nat_unat)
  have u: "uint (SpillOffset Slot) = 96 + 32 * uint Slot" using b
    by (simp add: SpillOffset_def uint_word_ariths)
  then show s: "sint (SpillOffset Slot) = 96 + 32 * uint Slot" using b
    by (simp add: sint_uint signed_take_bit_int_eq_self)
  have "scast (SpillOffset Slot) = (word_of_int (sint (SpillOffset Slot)) :: u64)" by simp
  also have "\<dots> = 96 + 32 * ucast Slot" unfolding s by simp
  finally show "scast (SpillOffset Slot) = (96 + 32 * ucast Slot :: u64)" .
qed

lemma SpillOffset_aligned: "SpillOffset Slot AND 3 = 0" "(ucast (SpillOffset Slot) :: u16) AND 3 = 0"
proof -
  have "SpillOffset Slot = push_bit 5 (3 + Slot)" by (simp add: SpillOffset_def push_bit_eq_mult algebra_simps)
  then have "SpillOffset Slot AND mask 2 = 0" "(ucast (SpillOffset Slot) :: u16) AND mask 2 = 0"
    by (auto intro!: bit_word_eqI simp: bit_and_iff bit_push_bit_iff bit_mask_iff bit_unsigned_iff simp del: push_bit_numeral)
  then show "SpillOffset Slot AND 3 = 0" "(ucast (SpillOffset Slot) :: u16) AND 3 = 0" by (simp_all add: mask_eq_exp_minus_1)
qed

lemma slot_in_D_form: "unat Slot < 1021 \<Longrightarrow> (scast (ucast (SpillOffset Slot) :: u16) :: u64) = 96 + 32 * ucast Slot"
proof -
  assume *: "unat Slot < 1021"
  then have "int (unat Slot) < 1021" by linarith
  then have "uint Slot < 1021" by (simp only: of_nat_unat)
  then show ?thesis using * scast_disp16 [of "SpillOffset Slot"] SpillOffset_value [of Slot] by simp
qed

lemma slots_apart:
  assumes "a \<noteq> b" "unat a < 67108860" "unat b < 67108860" "n \<le> 32" "m \<le> 32"
  shows "disjoint_at n (slot_address s a) m (slot_address s b)"
proof -
  have apart: "32 \<le> unat (32 * ucast y - 32 * ucast x :: u64)" if "x \<noteq> y" "unat x < 67108860" "unat y < 67108860" for x y :: u32
  proof -
    have u: "unat (32 * ucast z :: u64) = 32 * unat z" if "unat z < 67108860" for z :: u32
      using that by (simp add: unat_word_ariths(2) unat_ucast_mod)
    have "unat x \<noteq> unat y" using that(1) by (simp add: word_unat_eq_iff)
    then show ?thesis using that(2,3) by (subst unat_sub_if') (auto simp: u)
  qed
  have "slot_address s b - slot_address s a = 32 * ucast b - 32 * ucast a" "slot_address s a - slot_address s b = 32 * ucast a - 32 * ucast b"
    by (simp_all add: slot_address_def)
  then show ?thesis using apart [of a b] apart [of b a] assms by (auto simp: disjoint_at_def)
qed

text \<open>The abstract spill area: what each slot was last spilled with.\<close>

type_synonym spill_area = "u32 \<Rightarrow> (OpSize \<times> u64) option"

definition area_holds :: "spill_area \<Rightarrow> PPC \<Rightarrow> bool" where
  "area_holds m s \<longleftrightarrow> (\<forall>Slot Size v. m Slot = Some (Size, v) \<longrightarrow> slot_ok Size Slot \<and> load_le (OpSizeToSize Size) s (slot_address s Slot) = v)"

definition spill_entry :: "OpSize \<Rightarrow> u64 \<Rightarrow> OpSize \<times> u64" where
  "spill_entry Size v = (Size, take_bit (8 * OpSizeToSize Size) v)"

context ppc_mem
begin

lemma run_SpillRegister:
  assumes "slot_ok Size Slot" "guest_reg GSrc"
  shows "\<exists>t. run step (Op_SpillRegister cfg Size GSrc Slot) s = Some (store_le (OpSizeToSize Size) (gpr s GSrc) (slot_address s Slot) t) \<and> keeps {TMP1} s t"
proof -
  have size: "count_size Size" and low: "unat Slot < 67108860" using assms(1) by (auto simp: slot_ok_def split: if_splits)
  have r1: "r1 \<noteq> 0" "r1 \<noteq> TMP1" "or_zero t r1 = gpr t r1" for t by (simp_all add: r1_def or_zero_def tmp_defs)
  have D: "(scast (ucast (SpillOffset Slot) :: u16) :: u64) = scast (SpillOffset Slot)"
    if "- 32768 \<le> sint (SpillOffset Slot)" "sint (SpillOffset Slot) \<le> 32764" using that by (intro scast_disp16) simp_all
  from size show ?thesis using assms slot_in_D_form [of Slot] r1 D SpillOffset_value [OF low] SpillOffset_aligned [of Slot]
    by (cases rule: count_size_cases)
      (auto simp: Op_SpillRegister_def Let_def slot_ok_def slot_address_def step_stb step_sth step_stw step_std step_stdx run_append run_LoadConstant)
qed

lemma computes_FillRegister:
  assumes "slot_ok Size Slot" "guest_reg GDst"
  shows "computes step (Op_FillRegister cfg Size GDst Slot) s GDst (\<lambda>v. v = load_le (OpSizeToSize Size) s (slot_address s Slot))"
proof -
  have size: "count_size Size" and low: "unat Slot < 67108860" using assms(1) by (auto simp: slot_ok_def split: if_splits)
  have r1: "r1 \<noteq> 0" "r1 \<noteq> TMP1" "or_zero t r1 = gpr t r1" for t by (simp_all add: r1_def or_zero_def tmp_defs)
  have D: "(scast (ucast (SpillOffset Slot) :: u16) :: u64) = scast (SpillOffset Slot)"
    if "- 32768 \<le> sint (SpillOffset Slot)" "sint (SpillOffset Slot) \<le> 32764" using that by (intro scast_disp16) simp_all
  from size show ?thesis using assms slot_in_D_form [of Slot] r1 D SpillOffset_value [OF low] SpillOffset_aligned [of Slot]
    by (cases rule: count_size_cases)
      (auto simp: Op_FillRegister_def Let_def slot_ok_def slot_address_def step_lbz step_lhz step_lwz step_ld step_ldx run_append run_LoadConstant computes_def)
qed

lemma spill_simulates:
  assumes "area_holds m s" "slot_ok Size Slot" "guest_reg GSrc"
  shows "\<exists>t. run step (Op_SpillRegister cfg Size GSrc Slot) s = Some t \<and> area_holds (m(Slot \<mapsto> spill_entry Size (gpr s GSrc))) t \<and>
    (\<forall>r. r \<notin> scratch \<longrightarrow> gpr t r = gpr s r)"
proof -
  obtain t where t: "run step (Op_SpillRegister cfg Size GSrc Slot) s = Some (store_le (OpSizeToSize Size) (gpr s GSrc) (slot_address s Slot) t)"
    "keeps {TMP1} s t" using run_SpillRegister [OF assms(2,3)] by blast
  define u where "u = store_le (OpSizeToSize Size) (gpr s GSrc) (slot_address s Slot) t"
  have sz: "OpSizeToSize Z \<le> 8" "unat k < 67108860" if "slot_ok Z k" for Z k
    using that by (auto simp: slot_ok_def count_size_def split: if_splits)
  have r1: "gpr u r1 = gpr s r1" using t(2) by (simp add: u_def store_le_def keeps_def r1_def tmp_defs)
  have "load_le (OpSizeToSize Z) u (slot_address u k) = v" "slot_ok Z k"
    if k: "(m(Slot \<mapsto> spill_entry Size (gpr s GSrc))) k = Some (Z, v)" for k Z v
  proof -
    have a: "slot_address u k = slot_address s k" by (simp add: slot_address_def r1)
    show "slot_ok Z k" using k assms(1,2) by (auto simp: spill_entry_def area_holds_def split: if_splits)
    show "load_le (OpSizeToSize Z) u (slot_address u k) = v"
    proof (cases "k = Slot")
      case True
      then show ?thesis using k sz [OF assms(2)] unfolding a by (auto simp: u_def spill_entry_def load_le_store_le)
    next
      case False
      then have old: "m k = Some (Z, v)" using k by simp
      then have "slot_ok Z k" "load_le (OpSizeToSize Z) s (slot_address s k) = v" using assms(1) by (auto simp: area_holds_def)
      moreover have "load_bytes (OpSizeToSize Z) u (slot_address s k) = load_bytes (OpSizeToSize Z) t (slot_address s k)"
        unfolding u_def store_le_def using sz [OF \<open>slot_ok Z k\<close>] sz [OF assms(2)] False
        by (intro load_other_store) (auto intro!: slots_apart)
      ultimately show ?thesis using keeps_same_load [OF t(2)] unfolding a by (simp only: load_le_def)
    qed
  qed
  then have "area_holds (m(Slot \<mapsto> spill_entry Size (gpr s GSrc))) u" by (auto simp: area_holds_def)
  moreover have "\<forall>r. r \<notin> scratch \<longrightarrow> gpr u r = gpr s r" using t(2) by (auto simp: u_def store_le_def keeps_def scratch_def)
  ultimately show ?thesis using t(1) by (auto simp: u_def)
qed

end

definition spills :: "Config \<Rightarrow> (OpSize \<times> GPR \<times> u32) list \<Rightarrow> insn list" where
  "spills cfg ops = concat (map (\<lambda>(Size, R, Slot). Op_SpillRegister cfg Size R Slot) ops)"

definition area_after :: "PPC \<Rightarrow> (OpSize \<times> GPR \<times> u32) list \<Rightarrow> spill_area \<Rightarrow> spill_area" where
  "area_after s ops m = fold (\<lambda>(Size, R, Slot) m. m(Slot \<mapsto> spill_entry Size (gpr s R))) ops m"

context ppc_mem
begin

lemma spills_simulate:
  assumes "\<forall>(Size, R, Slot) \<in> set ops. slot_ok Size Slot \<and> guest_reg R" "area_holds m s"
  shows "\<exists>t. run step (spills cfg ops) s = Some t \<and> area_holds (area_after s ops m) t"
  using assms
proof (induction ops arbitrary: s m)
  case Nil
  then show ?case by (simp add: spills_def area_after_def)
next
  case (Cons op ops)
  obtain Size R Slot where op: "op = (Size, R, Slot)" by (cases op)
  obtain t where t: "run step (Op_SpillRegister cfg Size R Slot) s = Some t" "area_holds (m(Slot \<mapsto> spill_entry Size (gpr s R))) t"
    "\<forall>r. r \<notin> scratch \<longrightarrow> gpr t r = gpr s r" using spill_simulates [OF Cons.prems(2), of Size Slot R cfg] Cons.prems(1) op by auto
  have "gpr t r = gpr s r" if "guest_reg r" for r using t(3) that by (auto simp: scratch_def)
  then have same: "area_after t ops m' = area_after s ops m'" for m'
    unfolding area_after_def using Cons.prems(1) by (intro fold_cong) (auto simp: op)
  have rest: "\<forall>(Size, R, Slot) \<in> set ops. slot_ok Size Slot \<and> guest_reg R" using Cons.prems(1) by simp
  obtain u where u: "run step (spills cfg ops) t = Some u" "area_holds (area_after t ops (m(Slot \<mapsto> spill_entry Size (gpr s R)))) u"
    using Cons.IH [OF rest t(2)] by blast
  have "spills cfg (op # ops) = Op_SpillRegister cfg Size R Slot @ spills cfg ops"
    "area_after s (op # ops) m = area_after s ops (m(Slot \<mapsto> spill_entry Size (gpr s R)))"
    by (simp_all add: op spills_def area_after_def)
  then show ?case using t(1) u by (simp add: run_append same)
qed

end

text \<open>C33: The spill slots of \<open>DEF_OP(SpillRegister)\<close> and \<open>DEF_OP(FillRegister)\<close> implement a map from slot numbers to values: after any sequence
  of spills of guest registers, in any sizes and with slots reused, filling a slot at the size it was last spilled with gives that
  value, whatever was spilled to other slots in between.\<close>
theorem spill_area_refined:
  assumes "\<forall>(Size, R, Slot) \<in> set ops. slot_ok Size Slot \<and> guest_reg R"
  shows "\<exists>t. run isa_step (spills cfg ops) s = Some t \<and>
    (\<forall>Slot Size v Dst. area_after s ops (\<lambda>_. None) Slot = Some (Size, v) \<and> guest_reg Dst \<longrightarrow>
      computes isa_step (Op_FillRegister cfg Size Dst Slot) t Dst (\<lambda>x. x = v))"
proof -
  obtain t where "run isa_step (spills cfg ops) s = Some t" "area_holds (area_after s ops (\<lambda>_. None)) t"
    using ppcm.spills_simulate [OF assms, of "\<lambda>_. None" s cfg] by (auto simp: area_holds_def)
  then show ?thesis using ppcm.computes_FillRegister by (fastforce simp: area_holds_def computes_def)
qed

theorem spill_area_refined_witness:
  "\<exists>t. run isa_step (spills default_config [(i64Bit, 7, 0), (i32Bit, 8, 1), (i64Bit, 9, 0)]) (machine_at [(7, 5), (8, 0xABCDEF0123), (9, 6)]) = Some t \<and>
     computes isa_step (Op_FillRegister default_config i64Bit 24 0) t 24 (\<lambda>x. x = 6) \<and>
     computes isa_step (Op_FillRegister default_config i32Bit 25 1) t 25 (\<lambda>x. x = 0xCDEF0123)"
proof -
  define ops where "ops = [(i64Bit, 7 :: GPR, 0 :: u32), (i32Bit, 8, 1), (i64Bit, 9, 0)]"
  define s where "s = machine_at [(7, 5), (8, 0xABCDEF0123), (9, 6)]"
  have "\<forall>(Size, R, Slot) \<in> set ops. slot_ok Size Slot \<and> guest_reg R"
    by (simp add: ops_def slot_ok_def count_size_def guest_regs_decide)
  then obtain t where t: "run isa_step (spills default_config ops) s = Some t"
    "\<forall>Slot Size v Dst. area_after s ops (\<lambda>_. None) Slot = Some (Size, v) \<and> guest_reg Dst \<longrightarrow>
      computes isa_step (Op_FillRegister default_config Size Dst Slot) t Dst (\<lambda>x. x = v)" using spill_area_refined [of ops default_config s] by blast
  have "area_after s ops (\<lambda>_. None) 0 = Some (i64Bit, 6)" "area_after s ops (\<lambda>_. None) 1 = Some (i32Bit, 0xCDEF0123)"
    by (simp_all add: area_after_def ops_def s_def spill_entry_def take_bit_eq_mask mask_eq_exp_minus_1)
  then show ?thesis using t by (auto simp: ops_def s_def guest_regs_decide)
qed

text \<open>C32: \<open>DEF_OP(LoadMem)\<close>, \<open>DEF_OP(StoreMem)\<close> and their TSO forms access exactly the effective address base + extended and scaled offset, for
  every choice the addressing code makes (displacement, index register, a displacement the doubleword instructions cannot encode, a constant too
  wide for any displacement): a load gives the zero-extended bytes there and changes nothing else, a store changes those bytes of memory and
  nothing else but temporaries.\<close>
theorem memory_access_correct:
  assumes "count_size Size" "access_operands Addr Offset OffsetScale" "guest_operand Value" "gpr s r0 = 0"
  shows "let EA = effective_address s Addr Offset OffsetType OffsetScale in
    computes isa_step (Op_LoadMem cfg Size Dst Addr Offset OffsetType OffsetScale) s Dst (\<lambda>v. v = load_le (OpSizeToSize Size) s EA) \<and>
    computes isa_step (Op_LoadMemTSO cfg Size Dst Addr Offset OffsetType OffsetScale) s Dst (\<lambda>v. v = load_le (OpSizeToSize Size) s EA) \<and>
    stores isa_step (Op_StoreMem cfg Size Value Addr Offset OffsetType OffsetScale) s (OpSizeToSize Size) (value_of s Value) EA \<and>
    stores isa_step (Op_StoreMemTSO cfg Elide Size Value Addr Offset OffsetType OffsetScale) s (OpSizeToSize Size) (value_of s Value) EA"
  using ppcm.computes_LoadMem [OF assms(1,2), of cfg Dst OffsetType s] ppcm.stores_StoreMem [OF assms(1-4), of cfg OffsetType]
    ppcm.stores_StoreMemTSO [OF assms(1-4), of cfg Elide OffsetType]
  by (simp add: Let_def computes_def ppcm.run_LoadMemTSO)

theorem memory_access_correct_witness:
  "computes isa_step (Op_LoadMem default_config i64Bit 8 (Reg 7) (Some (InlineConstant 2)) SXTX 1) (machine_at [(7, 0x1000)]) 8
     (\<lambda>v. v = load_le 8 (machine_at [(7, 0x1000)]) 0x1002) \<and>
   stores isa_step (Op_StoreMem default_config i32Bit (Reg 8) (Reg 7) (Some (Reg 9)) SXTW 4) (machine_at [(7, 0x1000), (8, 3), (9, 0xFFFFFFFF)]) 4 3 0xFFC"
proof -
  have sext: "(scast (0xFFFFFFFF :: u32) :: u64) = - 1" by simp
  show ?thesis
    using memory_access_correct [of i64Bit "Reg 7" "Some (InlineConstant 2)" 1 "InlineConstant 0" "machine_at [(7, 0x1000)]" SXTX default_config 8 True]
      memory_access_correct [of i32Bit "Reg 7" "Some (Reg 9)" 4 "Reg 8" "machine_at [(7, 0x1000), (8, 3), (9, 0xFFFFFFFF)]" SXTW default_config 8 True]
    by (simp add: decide_operation count_size_def access_operands_def effective_address_def offset_value_def sext Let_def)
qed

end
