(* ===== verification/Stack_Ops.thy ===== *)
theory Stack_Ops
  imports Mem_Ops
begin

text \<open>
  Pushes and pops (\<open>DEF_OP(Push)\<close>, \<open>PushTwo\<close>, \<open>Pop\<close>, \<open>PopTwo\<close> in \<open>JIT/PPC64LE/MemoryOps.cpp\<close>) and the fusion of two neighbouring ones
  that \<open>ConstrainedRAPass::TryPostRAMerge\<close> in \<open>IR/Passes/RegisterAllocationPass.cpp\<close> performs after register allocation.
\<close>

subsection \<open>The handlers\<close>

definition MaybeClrUpper32 :: "bool \<Rightarrow> GPR \<Rightarrow> insn list" where
  "MaybeClrUpper32 Is64BitMode r = (if \<not> Is64BitMode then [rldicl r r 0 32] else [])"

definition Op_Push :: "bool \<Rightarrow> OpSize \<Rightarrow> GPR \<Rightarrow> GPR \<Rightarrow> GPR \<Rightarrow> insn list" where
  "Op_Push Is64BitMode ValueSize Dst Src Addr =
     (let SZ = OpSizeToSize ValueSize in
      [mr TMP1 Src] @ (if Dst \<noteq> Addr then [mr Dst Addr] else []) @ [addi Dst Dst (- of_nat SZ)] @ MaybeClrUpper32 Is64BitMode Dst @
      (if SZ = 1 then [stb TMP1 0 Dst] else if SZ = 2 then [sth TMP1 0 Dst] else if SZ = 4 then [stw TMP1 0 Dst]
       else if SZ = 8 then [stdx TMP1 Dst r0] else []))"

text \<open>\<open>RSP\<close> is \<open>StaticRegisters[REG_RSP]\<close>, the fifth entry in both modes.\<close>

definition RSP :: GPR where "RSP = x64_SRA ! 4"

definition Op_PushTwo :: "bool \<Rightarrow> OpSize \<Rightarrow> GPR \<Rightarrow> GPR \<Rightarrow> insn list" where
  "Op_PushTwo Is64BitMode ValueSize S1 S2 =
     (let SZ = OpSizeToSize ValueSize in
      [addi RSP RSP (- of_nat (SZ * 2))] @ MaybeClrUpper32 Is64BitMode RSP @
      (if SZ = 4 then [stw S1 0 RSP, stw S2 4 RSP] else if SZ = 8 then [std S1 0 RSP, std S2 8 RSP] else [None]))"

definition Op_Pop :: "bool \<Rightarrow> OpSize \<Rightarrow> GPR \<Rightarrow> GPR \<Rightarrow> insn list" where
  "Op_Pop Is64BitMode Size Addr Value =
     (let SZ = OpSizeToSize Size; LoadDst = (if Value = Addr then TMP4 else Value);
          (mask_ea, LoadAddr) = (if \<not> Is64BitMode then ([rldicl TMP3 Addr 0 32], TMP3) else ([], Addr)) in
      mask_ea @
      (if SZ = 1 then [lbzx LoadDst LoadAddr r0] else if SZ = 2 then [lhzx LoadDst LoadAddr r0]
       else if SZ = 4 then [lwzx LoadDst LoadAddr r0] else if SZ = 8 then [ldx LoadDst LoadAddr r0] else []) @
      [addi Addr Addr (of_nat SZ)] @ MaybeClrUpper32 Is64BitMode Addr @ (if LoadDst \<noteq> Value then [mr Value LoadDst] else []))"

definition Op_PopTwo :: "bool \<Rightarrow> OpSize \<Rightarrow> GPR \<Rightarrow> GPR \<Rightarrow> GPR \<Rightarrow> insn list" where
  "Op_PopTwo Is64BitMode Size Addr D1 D2 =
     (let SZ = OpSizeToSize Size;
          (mask_ea, LoadBase) = (if \<not> Is64BitMode then ([rldicl TMP3 Addr 0 32], TMP3) else ([], Addr)) in
      mask_ea @
      (if SZ = 4 then [lwz TMP1 0 LoadBase, lwz TMP2 4 LoadBase] else if SZ = 8 then [ld TMP1 0 LoadBase, ld TMP2 8 LoadBase] else [None]) @
      [addi Addr Addr (of_nat (SZ * 2))] @ MaybeClrUpper32 Is64BitMode Addr @
      (if D1 \<noteq> TMP1 then [mr D1 TMP1] else []) @ (if D2 \<noteq> TMP2 then [mr D2 TMP2] else []))"

subsection \<open>Fusion after register allocation\<close>

text \<open>The nodes with the registers allocation gave them.  \<open>PUSH Size ValueSize Dst Value Addr\<close>, \<open>POP Size Addr Value\<close>.\<close>

datatype StackOp =
    PUSH OpSize OpSize GPR GPR GPR
  | POP OpSize GPR GPR
  | PUSHTWO OpSize GPR GPR GPR
  | POPTWO OpSize GPR GPR GPR

fun TryPostRAMerge :: "StackOp \<Rightarrow> StackOp \<Rightarrow> StackOp option" where
  "TryPostRAMerge (PUSH LastSize LastValueSize LastDst LastValue LastAddr) (PUSH Size ValueSize SP Value Addr) =
     (if LastSize = Size \<and> LastValueSize = ValueSize \<and> SP = LastDst \<and> SP = Addr \<and> SP = LastAddr \<and> SP \<noteq> Value \<and> SP \<noteq> LastValue \<and>
         OpSizeToSize i32Bit \<le> OpSizeToSize ValueSize
      then Some (PUSHTWO ValueSize Value LastValue Addr) else None)"
| "TryPostRAMerge (POP LastSize LastAddr LastValue) (POP Size SP Value) =
     (if LastSize = Size \<and> OpSizeToSize i32Bit \<le> OpSizeToSize Size \<and> SP = LastAddr then Some (POPTWO Size SP LastValue Value) else None)"
| "TryPostRAMerge _ _ = None"

fun stack_code :: "bool \<Rightarrow> StackOp \<Rightarrow> insn list" where
  "stack_code Is64BitMode (PUSH Size ValueSize Dst Value Addr) = Op_Push Is64BitMode ValueSize Dst Value Addr"
| "stack_code Is64BitMode (POP Size Addr Value) = Op_Pop Is64BitMode Size Addr Value"
| "stack_code Is64BitMode (PUSHTWO ValueSize V1 V2 Addr) = Op_PushTwo Is64BitMode ValueSize V1 V2"
| "stack_code Is64BitMode (POPTWO Size Addr D1 D2) = Op_PopTwo Is64BitMode Size Addr D1 D2"

subsection \<open>What they do\<close>

definition wrap :: "bool \<Rightarrow> u64 \<Rightarrow> u64" where
  "wrap Is64BitMode a = (if Is64BitMode then a else ucast (ucast a :: u32))"

lemma push_sizes: "(scast (- of_nat (OpSizeToSize Size) :: u16) :: u64) = - of_nat (OpSizeToSize Size)"
  "(scast (of_nat (OpSizeToSize Size) :: u16) :: u64) = of_nat (OpSizeToSize Size)" if "count_size Size"
  using that by (auto simp: count_size_def)

context ppc_mem
begin

lemma keeps_setr_both: "keeps R s t \<Longrightarrow> keeps R (setr r v s) (setr r v t)"
  by (simp add: keeps_def)

lemma run_MaybeClrUpper32: "run step (MaybeClrUpper32 Is64BitMode r) s = Some (if Is64BitMode then s else setr r (wrap False (gpr s r)) s)"
  by (simp add: MaybeClrUpper32_def wrap_def step_zext32)

lemma run_Push:
  assumes "count_size ValueSize" "guest_reg Dst" "guest_reg Src" "guest_reg Addr" "gpr s r0 = 0"
    and "new = wrap Is64BitMode (gpr s Addr - of_nat (OpSizeToSize ValueSize))"
  shows "run step (Op_Push Is64BitMode ValueSize Dst Src Addr) s =
    Some (store_le (OpSizeToSize ValueSize) (gpr s Src) new (setr Dst new (setr TMP1 (gpr s Src) s)))"
proof -
  note sizes = push_sizes [OF assms(1)]
  define pre where "pre = [mr TMP1 Src] @ (if Dst \<noteq> Addr then [mr Dst Addr] else []) @ [addi Dst Dst (- of_nat (OpSizeToSize ValueSize))] @ MaybeClrUpper32 Is64BitMode Dst"
  have pre: "run step pre s = Some (setr Dst new (setr TMP1 (gpr s Src) s))"
    using assms(2-4,6) by (cases Is64BitMode) (auto simp: pre_def run_append step_mr step_addi run_MaybeClrUpper32 sizes wrap_def)
  have code: "Op_Push Is64BitMode ValueSize Dst Src Addr = pre @
      (let SZ = OpSizeToSize ValueSize in if SZ = 1 then [stb TMP1 0 Dst] else if SZ = 2 then [sth TMP1 0 Dst] else if SZ = 4 then [stw TMP1 0 Dst]
       else if SZ = 8 then [stdx TMP1 Dst r0] else [])" by (simp add: Op_Push_def pre_def Let_def)
  from assms(1) show ?thesis using assms(2,5) unfolding code run_append pre option.case
    by (cases rule: count_size_cases) (simp_all add: step_stb step_sth step_stw step_stdx or_zero_def)
qed

lemma run_PushTwo:
  assumes "ValueSize = i32Bit \<or> ValueSize = i64Bit" "S1 \<noteq> RSP" "S2 \<noteq> RSP"
    and "new = wrap Is64BitMode (gpr s RSP - of_nat (2 * OpSizeToSize ValueSize))"
  shows "run step (Op_PushTwo Is64BitMode ValueSize S1 S2) s =
    Some (store_le (OpSizeToSize ValueSize) (gpr s S2) (new + of_nat (OpSizeToSize ValueSize))
           (store_le (OpSizeToSize ValueSize) (gpr s S1) new (setr RSP new s)))"
proof -
  have "guest_reg RSP" by (simp add: RSP_def x64_SRA_def guest_reg_def numeral_eq_Suc)
  then show ?thesis using assms
    by (cases Is64BitMode) (auto simp: Op_PushTwo_def Let_def run_append run_MaybeClrUpper32 step_addi step_stw step_std or_zero_def wrap_def store_le_def)
qed

lemma run_Pop:
  assumes "count_size Size" "guest_reg Addr" "guest_reg Value" "gpr s r0 = 0"
    and "v = load_le (OpSizeToSize Size) s (wrap Is64BitMode (gpr s Addr))" "new = wrap Is64BitMode (gpr s Addr + of_nat (OpSizeToSize Size))"
  shows "\<exists>t. run step (Op_Pop Is64BitMode Size Addr Value) s = Some t \<and> keeps {TMP3, TMP4} (setr Value v (setr Addr new s)) t"
proof -
  note sizes = push_sizes [OF assms(1)]
  define LoadDst where "LoadDst = (if Value = Addr then TMP4 else Value)"
  define LoadAddr where "LoadAddr = (if Is64BitMode then Addr else TMP3)"
  define mask_ea where "mask_ea = (if Is64BitMode then [] else [rldicl TMP3 Addr 0 32])"
  define load where "load = (let SZ = OpSizeToSize Size in if SZ = 1 then [lbzx LoadDst LoadAddr r0] else if SZ = 2 then [lhzx LoadDst LoadAddr r0]
       else if SZ = 4 then [lwzx LoadDst LoadAddr r0] else if SZ = 8 then [ldx LoadDst LoadAddr r0] else [])"
  define rest where "rest = [addi Addr Addr (of_nat (OpSizeToSize Size))] @ MaybeClrUpper32 Is64BitMode Addr @ (if LoadDst \<noteq> Value then [mr Value LoadDst] else [])"
  have code: "Op_Pop Is64BitMode Size Addr Value = mask_ea @ load @ rest"
    by (simp add: Op_Pop_def mask_ea_def load_def rest_def LoadDst_def LoadAddr_def Let_def)
  obtain t where t: "run step mask_ea s = Some t" "keeps {TMP3} s t" "gpr t LoadAddr = wrap Is64BitMode (gpr s Addr)" "LoadAddr \<noteq> 0"
    using assms(2) by (cases Is64BitMode) (auto simp: mask_ea_def LoadAddr_def wrap_def step_zext32)
  have "gpr t r0 = 0" using t(2) assms(4) by (simp add: keeps_def)
  from assms(1) have "run step load t = Some (setr LoadDst (load_le (OpSizeToSize Size) t (gpr t LoadAddr)) t)"
    using t(4) \<open>gpr t r0 = 0\<close>
    by (cases rule: count_size_cases) (simp_all add: load_def step_lbzx step_lhzx step_lwzx step_ldx or_zero_def)
  then have load: "run step load t = Some (setr LoadDst v t)" using keeps_same_load [OF t(2)] by (simp add: t(3) assms(5))
  have a: "gpr t Addr = gpr s Addr" "LoadDst \<noteq> Addr" using t(2) assms(2) by (auto simp: keeps_def LoadDst_def)
  obtain u where u: "run step rest (setr LoadDst v t) = Some u" "keeps {TMP4} (setr Value v (setr Addr new t)) u"
  proof (cases "Value = Addr")
    case True
    then have "run step rest (setr LoadDst v t) = Some (setr Value v (setr TMP4 v t))" using a assms(2)
      by (simp add: rest_def run_append step_addi step_mr run_MaybeClrUpper32 LoadDst_def fun_upd_twist)
    then show thesis using that True by (simp add: keeps_def)
  next
    case False
    then have "run step rest (setr LoadDst v t) = Some (setr Addr new (setr Value v t))" using a assms(2,6)
      by (simp add: rest_def run_append step_addi run_MaybeClrUpper32 LoadDst_def sizes wrap_def)
    then show thesis using that False by (simp add: keeps_def)
  qed
  have k: "keeps {TMP3} (setr Value v (setr Addr new s)) (setr Value v (setr Addr new t))" by (intro keeps_setr_both t(2))
  have "keeps {TMP3, TMP4} (setr Value v (setr Addr new s)) u"
    using keeps_trans [OF keeps_mono [OF k] keeps_mono [OF u(2)], of "{TMP3, TMP4}"] by simp
  then show ?thesis using t(1) load u(1) unfolding code by (simp add: run_append)
qed

lemma run_PopTwo:
  assumes "Size = i32Bit \<or> Size = i64Bit" "guest_reg Addr" "guest_reg D1" "guest_reg D2"
    and "ea = wrap Is64BitMode (gpr s Addr)"
    and "v1 = load_le (OpSizeToSize Size) s ea" "v2 = load_le (OpSizeToSize Size) s (ea + of_nat (OpSizeToSize Size))"
    and "new = wrap Is64BitMode (gpr s Addr + of_nat (2 * OpSizeToSize Size))"
  shows "\<exists>t. run step (Op_PopTwo Is64BitMode Size Addr D1 D2) s = Some t \<and>
    keeps scratch (setr D2 v2 (setr D1 v1 (setr Addr new s))) t"
proof -
  define s0 where "s0 = setr TMP2 v2 (setr TMP1 v1 (if Is64BitMode then s else setr TMP3 ea s))"
  have "run step (Op_PopTwo Is64BitMode Size Addr D1 D2) s = Some (setr D2 v2 (setr D1 v1 (setr Addr new s0)))"
    using assms by (cases Is64BitMode)
      (auto simp: Op_PopTwo_def s0_def Let_def run_append run_MaybeClrUpper32 step_addi step_mr step_lwz step_ld step_zext32 or_zero_def wrap_def)
  moreover have "keeps scratch s s0" by (simp add: s0_def keeps_def scratch_def)
  ultimately show ?thesis by (auto intro!: keeps_setr_both)
qed

end

subsection \<open>Fusion is sound on the stack pointer\<close>

text \<open>
  What register allocation and the dispatcher guarantee of a node: its operands are registers of the pools and its size is one of a general
  register.  \<open>stack_fits\<close> is about the guest: in 32-bit mode the two accesses do not straddle the end of the address space.
\<close>

fun allocated :: "StackOp \<Rightarrow> bool" where
  "allocated (PUSH Size ValueSize Dst Value Addr) \<longleftrightarrow> guest_reg Dst \<and> guest_reg Value \<and> guest_reg Addr \<and> count_size ValueSize"
| "allocated (POP Size Addr Value) \<longleftrightarrow> guest_reg Addr \<and> guest_reg Value \<and> count_size Size"
| "allocated _ \<longleftrightarrow> False"

fun stack_fits :: "bool \<Rightarrow> PPC \<Rightarrow> StackOp \<Rightarrow> bool" where
  "stack_fits Is64BitMode s (PUSH Size ValueSize Dst Value Addr) \<longleftrightarrow>
     Is64BitMode \<or> 2 * OpSizeToSize ValueSize \<le> unat (ucast (gpr s Addr) :: u32)"
| "stack_fits Is64BitMode s (POP Size Addr Value) \<longleftrightarrow>
     Is64BitMode \<or> unat (ucast (gpr s Addr) :: u32) + 2 * OpSizeToSize Size < 2 ^ 32"
| "stack_fits _ _ _ \<longleftrightarrow> True"

text \<open>The fused operation and the two it replaces leave the same machine, temporaries apart.\<close>

definition same_effect :: "bool \<Rightarrow> StackOp \<Rightarrow> StackOp \<Rightarrow> StackOp \<Rightarrow> PPC \<Rightarrow> bool" where
  "same_effect Is64BitMode Last Cur Fused s \<longleftrightarrow>
     (\<exists>t u. run isa_step (stack_code Is64BitMode Last @ stack_code Is64BitMode Cur) s = Some t \<and>
            run isa_step (stack_code Is64BitMode Fused) s = Some u \<and> keeps scratch t u)"

lemma wrap_offsets:
  fixes a :: u64
  shows "Is64BitMode \<or> n \<le> unat (ucast a :: u32) \<Longrightarrow> wrap Is64BitMode (a - of_nat n) = wrap Is64BitMode a - of_nat n"
    and "Is64BitMode \<or> unat (ucast a :: u32) + n < 2 ^ 32 \<Longrightarrow> wrap Is64BitMode (a + of_nat n) = wrap Is64BitMode a + of_nat n"
    and "wrap Is64BitMode (wrap Is64BitMode a) = wrap Is64BitMode a"
proof -
  define A where "A = (ucast a :: u32)"
  have low: "(ucast (of_nat n :: u64) :: u32) = of_nat n"
    by (simp add: word_unat_eq_iff unat_ucast_mod unat_of_nat take_bit_eq_mod mod_mod_cancel)
  have sub: "ucast (A - of_nat n) = (ucast A - of_nat n :: u64)" if "n \<le> unat A"
  proof -
    have n: "n < 2 ^ 32" using that unat_less_exp [of A] by simp
    then have "unat (of_nat n :: u32) = n" "unat (of_nat n :: u64) = n" by (simp_all add: unat_of_nat take_bit_nat_eq_self)
    moreover have "unat (ucast A :: u64) = unat A" using unat_less_exp [of A] by (simp add: unat_ucast_mod)
    ultimately show ?thesis using that unat_less_exp [of A] by (simp add: word_unat_eq_iff unat_ucast_mod [of "A - _"] unat_sub word_le_nat_alt)
  qed
  have add: "ucast (A + of_nat n) = (ucast A + of_nat n :: u64)" if "unat A + n < 2 ^ 32"
  proof -
    have "unat (of_nat n :: u32) = n" "unat (of_nat n :: u64) = n" using that by (simp_all add: unat_of_nat take_bit_nat_eq_self)
    then show ?thesis using that by (simp add: word_unat_eq_iff unat_ucast_mod unat_word_ariths(1))
  qed
  show "Is64BitMode \<or> n \<le> unat (ucast a :: u32) \<Longrightarrow> wrap Is64BitMode (a - of_nat n) = wrap Is64BitMode a - of_nat n"
    using sub by (auto simp: wrap_def low32_ring low A_def)
  show "Is64BitMode \<or> unat (ucast a :: u32) + n < 2 ^ 32 \<Longrightarrow> wrap Is64BitMode (a + of_nat n) = wrap Is64BitMode a + of_nat n"
    using add by (auto simp: wrap_def low32_ring low A_def)
  show "wrap Is64BitMode (wrap Is64BitMode a) = wrap Is64BitMode a" by (simp add: wrap_def)
qed

lemma fused_size: "count_size Size \<Longrightarrow> OpSizeToSize i32Bit \<le> OpSizeToSize Size \<Longrightarrow> Size = i32Bit \<or> Size = i64Bit"
  by (auto simp: count_size_def)

lemma guest_RSP: "guest_reg RSP"
  by (simp add: RSP_def x64_SRA_def guest_reg_def numeral_eq_Suc)

context ppc_mem
begin

lemma push_fusion:
  assumes "ValueSize = i32Bit \<or> ValueSize = i64Bit" "guest_reg Value" "guest_reg LastValue" "Value \<noteq> RSP" "LastValue \<noteq> RSP" "gpr s r0 = 0"
    and "Is64BitMode \<or> 2 * OpSizeToSize ValueSize \<le> unat (ucast (gpr s RSP) :: u32)"
  shows "\<exists>t u. run step (Op_Push Is64BitMode ValueSize RSP LastValue RSP @ Op_Push Is64BitMode ValueSize RSP Value RSP) s = Some t \<and>
    run step (Op_PushTwo Is64BitMode ValueSize Value LastValue) s = Some u \<and> keeps scratch t u"
proof -
  define k where "k = OpSizeToSize ValueSize"
  define new where "new = wrap Is64BitMode (gpr s RSP) - of_nat (2 * k)"
  have k: "k = 4 \<or> k = 8" "count_size ValueSize" using assms(1) by (auto simp: k_def count_size_def)
  have ok: "Is64BitMode \<or> k \<le> unat (ucast (gpr s RSP) :: u32)" "Is64BitMode \<or> 2 * k \<le> unat (ucast (gpr s RSP) :: u32)"
    using assms(7) by (auto simp: k_def)
  have n1: "wrap Is64BitMode (gpr s RSP - of_nat k) = new + of_nat k"
    using wrap_offsets(1) [OF ok(1)] by (simp add: new_def)
  have "Is64BitMode \<or> 2 * k \<le> unat (ucast (wrap Is64BitMode (gpr s RSP)) :: u32)" using ok(2) by (auto simp: wrap_def)
  then have "wrap Is64BitMode new = wrap Is64BitMode (gpr s RSP) - of_nat (2 * k)"
    using wrap_offsets(1) [of Is64BitMode "2 * k" "wrap Is64BitMode (gpr s RSP)"] wrap_offsets(3) by (simp add: new_def)
  then have n2: "wrap Is64BitMode (new + of_nat k - of_nat k) = new" by (simp add: new_def)
  have n3: "wrap Is64BitMode (gpr s RSP - of_nat (2 * k)) = new" using wrap_offsets(1) [OF ok(2)] by (simp add: new_def)
  define s1 where "s1 = store_le k (gpr s LastValue) (new + of_nat k) (setr RSP (new + of_nat k) (setr TMP1 (gpr s LastValue) s))"
  have r1: "run step (Op_Push Is64BitMode ValueSize RSP LastValue RSP) s = Some s1"
    using run_Push [OF k(2) guest_RSP assms(3) guest_RSP assms(6) refl] by (simp add: s1_def n1 flip: k_def)
  have s1: "gpr s1 r0 = 0" "gpr s1 RSP = new + of_nat k" "gpr s1 Value = gpr s Value"
    using assms(2,4,6) guest_RSP by (simp_all add: s1_def store_le_def)
  define t where "t = store_le k (gpr s Value) new (setr RSP new (setr TMP1 (gpr s Value) s1))"
  have r2: "run step (Op_Push Is64BitMode ValueSize RSP Value RSP) s1 = Some t"
    using run_Push [OF k(2) guest_RSP assms(2) guest_RSP s1(1) refl] by (simp only: s1 n2 t_def flip: k_def)
  define u where "u = store_le k (gpr s LastValue) (new + of_nat k) (store_le k (gpr s Value) new (setr RSP new s))"
  have r3: "run step (Op_PushTwo Is64BitMode ValueSize Value LastValue) s = Some u"
    using run_PushTwo [OF assms(1,4,5) refl, of Is64BitMode s] by (simp only: n3 u_def flip: k_def)
  have "disjoint_at k (new + of_nat k) k new" using k(1) by (auto simp: disjoint_at_def)
  then have "store_le k a (new + of_nat k) (store_le k b new x) = store_le k b new (store_le k a (new + of_nat k) x)" for a b x
    using store_commute [of "le_bytes k a" "new + of_nat k" "le_bytes k b" new x] by (simp add: store_le_def)
  then have "keeps scratch t u" using guest_RSP
    by (simp add: t_def u_def s1_def store_setr) (simp add: keeps_def store_le_def scratch_def)
  then show ?thesis using r1 r2 r3 by (simp add: run_append)
qed

lemma pop_fusion:
  assumes "Size = i32Bit \<or> Size = i64Bit" "guest_reg SP" "guest_reg Value" "guest_reg LastValue" "LastValue \<noteq> SP" "gpr s r0 = 0"
    and "Is64BitMode \<or> unat (ucast (gpr s SP) :: u32) + 2 * OpSizeToSize Size < 2 ^ 32"
  shows "\<exists>t u. run step (Op_Pop Is64BitMode Size SP LastValue @ Op_Pop Is64BitMode Size SP Value) s = Some t \<and>
    run step (Op_PopTwo Is64BitMode Size SP LastValue Value) s = Some u \<and> keeps scratch t u"
proof -
  define k where "k = OpSizeToSize Size"
  define ea where "ea = wrap Is64BitMode (gpr s SP)"
  have k: "count_size Size" using assms(1) by (auto simp: count_size_def)
  have "Is64BitMode \<or> unat (ucast (gpr s SP) :: u32) + k < 2 ^ 32" "Is64BitMode \<or> unat (ucast (gpr s SP) :: u32) + 2 * k < 2 ^ 32"
    using assms(7) by (auto simp: k_def)
  note n = wrap_offsets(2) [OF this(1)] wrap_offsets(2) [OF this(2)]
  have "Is64BitMode \<or> unat (ucast ea :: u32) + 2 * k < 2 ^ 32" using assms(7) by (auto simp: ea_def wrap_def k_def)
  then have n2: "wrap Is64BitMode (ea + of_nat k + of_nat k) = ea + of_nat (2 * k)"
    using wrap_offsets(2) [of Is64BitMode ea "2 * k"] wrap_offsets(3) by (simp add: ea_def add.assoc)
  define v1 where "v1 = load_le k s ea"
  define v2 where "v2 = load_le k s (ea + of_nat k)"
  obtain t1 where t1: "run step (Op_Pop Is64BitMode Size SP LastValue) s = Some t1"
    "keeps {TMP3, TMP4} (setr LastValue v1 (setr SP (ea + of_nat k) s)) t1"
    using run_Pop [OF k assms(2,4,6) refl refl, of Is64BitMode] unfolding k_def [symmetric] n(1) ea_def [symmetric] v1_def [symmetric] by blast
  have g: "gpr t1 r0 = 0" "gpr t1 SP = ea + of_nat k" "load_le m t1 a = load_le m s a" for m a
    using t1(2) keeps_same_load [OF t1(2)] assms(2,4-6) by (auto simp: keeps_def)
  have w: "wrap Is64BitMode (ea + of_nat k) = ea + of_nat k" using n(1) wrap_offsets(3) [of Is64BitMode "gpr s SP + of_nat k"] by (simp add: ea_def)
  obtain t where t: "run step (Op_Pop Is64BitMode Size SP Value) t1 = Some t"
    "keeps {TMP3, TMP4} (setr Value v2 (setr SP (ea + of_nat (2 * k)) t1)) t"
    using run_Pop [OF k assms(2,3) g(1) refl refl, of Is64BitMode] unfolding g(2,3) k_def [symmetric] n2 w v2_def by blast
  obtain u where u: "run step (Op_PopTwo Is64BitMode Size SP LastValue Value) s = Some u"
    "keeps scratch (setr Value v2 (setr LastValue v1 (setr SP (ea + of_nat (2 * k)) s))) u"
    using run_PopTwo [OF assms(1,2,4,3) ea_def v1_def [unfolded k_def] v2_def [unfolded k_def] refl] unfolding k_def [symmetric] n(2) ea_def [symmetric] by blast
  have "keeps scratch (setr Value v2 (setr SP (ea + of_nat (2 * k)) (setr LastValue v1 (setr SP (ea + of_nat k) s)))) t"
    using keeps_trans [OF keeps_setr_both [OF keeps_setr_both [OF keeps_mono [OF t1(2)]]] keeps_mono [OF t(2)], of scratch] by simp
  then have "keeps scratch (setr Value v2 (setr LastValue v1 (setr SP (ea + of_nat (2 * k)) s))) t"
    using assms(5) by (auto simp: keeps_def fun_upd_twist)
  then have "keeps scratch t u" using u(2) by (simp add: keeps_def)
  then show ?thesis using t1(1) t(1) u(1) by (simp add: run_append)
qed

lemma PushTwo_leaves:
  assumes "ValueSize = i32Bit \<or> ValueSize = i64Bit" "SP \<noteq> RSP" "run step (Op_PushTwo Is64BitMode ValueSize S1 S2) s = Some u"
  shows "gpr u SP = gpr s SP"
proof -
  have "guest_reg RSP" by (simp add: RSP_def x64_SRA_def guest_reg_def numeral_eq_Suc)
  then show ?thesis using assms
    by (cases Is64BitMode) (auto simp: Op_PushTwo_def Let_def run_append run_MaybeClrUpper32 step_addi step_stw step_std or_zero_def store_le_def)
qed

text \<open>Pushes through another register than RSP are not what their fusion does.\<close>

lemma push_fusion_breaks:
  assumes "ValueSize = i32Bit \<or> ValueSize = i64Bit" "guest_reg Value" "guest_reg LastValue" "guest_reg SP" "SP \<noteq> RSP"
    and "run step (Op_Push Is64BitMode ValueSize SP LastValue SP @ Op_Push Is64BitMode ValueSize SP Value SP) (machine_at [(SP, 0x1000)]) = Some t"
    and "run step (Op_PushTwo Is64BitMode ValueSize Value LastValue) (machine_at [(SP, 0x1000)]) = Some u"
  shows "\<not> keeps scratch t u"
proof -
  let ?s = "machine_at [(SP, 0x1000)]" and ?k = "OpSizeToSize ValueSize"
  have k: "count_size ValueSize" using assms(1) by (auto simp: count_size_def)
  have r0: "gpr ?s r0 = 0" using assms(4) by simp
  note r1 = run_Push [OF k assms(4,3,4) r0 refl, of Is64BitMode]
  have "gpr (store_le n v a (setr SP w (setr TMP1 x ?s))) r0 = 0" for n v a w x using assms(4) by (simp add: store_le_def)
  note r2 = run_Push [OF k assms(4,2,4) this refl, of Is64BitMode]
  have "gpr t SP = wrap Is64BitMode (wrap Is64BitMode (0x1000 - of_nat ?k) - of_nat ?k)"
    using assms(6) unfolding run_append r1 option.case r2 by (auto simp: store_le_def)
  then have "gpr t SP \<noteq> 0x1000" using assms(1) by (cases Is64BitMode) (auto simp: wrap_def)
  moreover have "gpr u SP = 0x1000" using PushTwo_leaves [OF assms(1,5,7)] by simp
  moreover have "SP \<notin> scratch" using assms(4) by (simp add: scratch_def)
  ultimately show ?thesis unfolding keeps_def by metis
qed

lemma marked_memory:
  assumes "n = 4 \<or> n = 8"
  shows "load_le n ((machine_at rs)\<lparr>mem := (\<lambda>_. 0)(0x1000 + of_nat n := 1)\<rparr>) 0x1000 = 0"
    "load_le n ((machine_at rs)\<lparr>mem := (\<lambda>_. 0)(0x1000 + of_nat n := 1)\<rparr>) 0 = 0"
    "load_le n ((machine_at rs)\<lparr>mem := (\<lambda>_. 0)(0x1000 + of_nat n := 1)\<rparr>) (0x1000 + of_nat n) = 1"
  using assms by (elim disjE; simp add: load_le_def load_bytes_def upt_rec)+

text \<open>Pops of which the first overwrites the address are not what their fusion does.\<close>

lemma pop_fusion_breaks:
  assumes "Size = i32Bit \<or> Size = i64Bit" "guest_reg SP" "guest_reg Value"
    and "s = (machine_at [(SP, 0x1000)])\<lparr>mem := (\<lambda>_. 0)(0x1000 + of_nat (OpSizeToSize Size) := 1)\<rparr>"
    and "run step (Op_Pop Is64BitMode Size SP SP @ Op_Pop Is64BitMode Size SP Value) s = Some t"
    and "run step (Op_PopTwo Is64BitMode Size SP SP Value) s = Some u"
  shows "\<not> keeps scratch t u"
proof -
  define k where "k = OpSizeToSize Size"
  have k: "count_size Size" "k = 4 \<or> k = 8" using assms(1) by (auto simp: count_size_def k_def)
  have s: "gpr s r0 = 0" "gpr s SP = 0x1000" "SP \<notin> scratch" using assms(2,4) by (simp_all add: scratch_def)
  have w: "wrap Is64BitMode 0x1000 = 0x1000" "wrap Is64BitMode 0 = 0" "wrap Is64BitMode (of_nat k) = of_nat k"
    using k(2) by (auto simp: wrap_def)
  have l: "load_le k s 0x1000 = 0" "load_le k s 0 = 0" "load_le k s (0x1000 + of_nat k) = 1"
    unfolding assms(4) k_def [symmetric] by (rule marked_memory [OF k(2)])+
  obtain t1 where t1: "run step (Op_Pop Is64BitMode Size SP SP) s = Some t1" "keeps {TMP3, TMP4} (setr SP 0 (setr SP (wrap Is64BitMode (0x1000 + of_nat k)) s)) t1"
    using run_Pop [OF k(1) assms(2,2) s(1) refl refl, of Is64BitMode] unfolding k_def [symmetric] s(2) w l by blast
  have g: "gpr t1 r0 = 0" "gpr t1 SP = 0" using t1(2) assms(2) s(1) by (auto simp: keeps_def)
  have g3: "load_le m t1 a = load_le m s a" for m a using keeps_same_load [OF t1(2)] by simp
  obtain t2 where t2: "run step (Op_Pop Is64BitMode Size SP Value) t1 = Some t2" "keeps {TMP3, TMP4} (setr Value 0 (setr SP (of_nat k) t1)) t2"
    using run_Pop [OF k(1) assms(2,3) g(1) refl refl, of Is64BitMode] unfolding k_def [symmetric] g(2) add_0 g3 w l by blast
  have "t = t2" using assms(5) t1(1) t2(1) by (simp add: run_append)
  then have t: "gpr t SP = (if Value = SP then 0 else of_nat k)" using t2(2) assms(2) by (simp add: keeps_def)
  have "keeps scratch (setr Value 1 (setr SP 0 (setr SP (wrap Is64BitMode (0x1000 + of_nat (2 * k))) s))) u"
    using run_PopTwo [OF assms(1,2,2,3) refl refl refl refl, of Is64BitMode s] assms(6) unfolding k_def [symmetric] s(2) w l by simp
  then have "gpr u SP = (if Value = SP then 1 else 0)" using s(3) by (simp add: keeps_def)
  moreover have "(of_nat k :: u64) \<noteq> 0" using k(2) by auto
  ultimately have "gpr u SP \<noteq> gpr t SP" using t by (simp split: if_splits)
  then show ?thesis using s(3) unfolding keeps_def by blast
qed

end

text \<open>The pairs whose fusion keeps their effect.\<close>

fun fuses_exactly :: "StackOp \<Rightarrow> StackOp \<Rightarrow> bool" where
  "fuses_exactly (PUSH _ _ _ _ _) (PUSH _ _ _ _ Addr) \<longleftrightarrow> Addr = RSP"
| "fuses_exactly (POP _ _ LastValue) (POP _ Addr _) \<longleftrightarrow> LastValue \<noteq> Addr"
| "fuses_exactly _ _ \<longleftrightarrow> False"

text \<open>
  C34: Exactly which neighbouring pushes and pops \<open>TryPostRAMerge\<close> may fuse.  Of the pairs it replaces by \<open>PushTwo\<close> or \<open>PopTwo\<close>, two pushes
  keep their effect in every state if and only if their address register is RSP, because \<open>DEF_OP(PushTwo)\<close> does not read its address operand;
  two pops keep it if and only if the first does not pop into the address register itself.  \<open>TryPostRAMerge\<close> tests neither.  The states are those
  with the zero register clear and, in 32-bit guests, a stack that does not straddle the end of the address space between the two accesses.
\<close>

theorem stack_fusion_exact:
  assumes "TryPostRAMerge Last Cur = Some Fused" "allocated Last" "allocated Cur"
  shows "(\<forall>s. gpr s r0 = 0 \<longrightarrow> stack_fits Is64BitMode s Cur \<longrightarrow> same_effect Is64BitMode Last Cur Fused s) \<longleftrightarrow> fuses_exactly Last Cur"
proof (cases "(Last, Cur)" rule: TryPostRAMerge.cases)
  case (1 LastSize LastValueSize LastDst LastValue LastAddr Size ValueSize SP Value Addr)
  then have m: "Last = PUSH Size ValueSize Addr LastValue Addr" "Cur = PUSH Size ValueSize Addr Value Addr" "Fused = PUSHTWO ValueSize Value LastValue Addr"
      "Addr \<noteq> Value" "Addr \<noteq> LastValue" "OpSizeToSize i32Bit \<le> OpSizeToSize ValueSize"
    using assms(1) by (auto split: if_splits)
  have g: "guest_reg Value" "guest_reg LastValue" "guest_reg Addr" "ValueSize = i32Bit \<or> ValueSize = i64Bit"
    using assms(2,3) m fused_size [of ValueSize] by auto
  show ?thesis
  proof (cases "Addr = RSP")
    case True
    then show ?thesis using m g ppcm.push_fusion by (simp add: same_effect_def)
  next
    case False
    have "gpr (machine_at [(Addr, 0x1000)]) r0 = 0" using g(3) by simp
    moreover have "stack_fits Is64BitMode (machine_at [(Addr, 0x1000)]) Cur" using g(4) by (auto simp: m)
    moreover have "\<not> same_effect Is64BitMode Last Cur Fused (machine_at [(Addr, 0x1000)])"
      using ppcm.push_fusion_breaks [OF g(4,1-3) False] by (auto simp: same_effect_def m)
    moreover have "\<not> fuses_exactly Last Cur" using False by (simp add: m)
    ultimately show ?thesis by blast
  qed
next
  case (2 LastSize LastAddr LastValue Size SP Value)
  then have m: "Last = POP Size SP LastValue" "Cur = POP Size SP Value" "Fused = POPTWO Size SP LastValue Value" "OpSizeToSize i32Bit \<le> OpSizeToSize Size"
    using assms(1) by (auto split: if_splits)
  have g: "guest_reg Value" "guest_reg LastValue" "guest_reg SP" "Size = i32Bit \<or> Size = i64Bit"
    using assms(2,3) m fused_size [of Size] by auto
  show ?thesis
  proof (cases "LastValue = SP")
    case False
    then show ?thesis using m g ppcm.pop_fusion by (simp add: same_effect_def)
  next
    case True
    let ?s = "(machine_at [(SP, 0x1000)])\<lparr>mem := (\<lambda>_. 0)(0x1000 + of_nat (OpSizeToSize Size) := 1)\<rparr>"
    have "gpr ?s r0 = 0" using g(3) by simp
    moreover have "stack_fits Is64BitMode ?s Cur" using g(4) by (auto simp: m)
    moreover have "\<not> same_effect Is64BitMode Last Cur Fused ?s"
      using ppcm.pop_fusion_breaks [OF g(4,3,1) refl] True by (auto simp: same_effect_def m)
    moreover have "\<not> fuses_exactly Last Cur" using True by (simp add: m)
    ultimately show ?thesis by blast
  qed
qed (use assms(1) in simp_all)

text \<open>Pushing \<open>r7\<close> and \<open>r8\<close> on the guest stack is fused exactly; doing so through \<open>r9\<close> is fused as well, and not with the same effect.\<close>

theorem stack_fusion_exact_witness:
  "same_effect True (PUSH i64Bit i64Bit RSP 7 RSP) (PUSH i64Bit i64Bit RSP 8 RSP) (PUSHTWO i64Bit 8 7 RSP) (machine_at [(RSP, 0x1000)]) \<and>
   (\<exists>s. gpr s r0 = 0 \<and> \<not> same_effect True (PUSH i64Bit i64Bit 9 7 9) (PUSH i64Bit i64Bit 9 8 9) (PUSHTWO i64Bit 8 7 9) s)"
proof -
  have r: "RSP = 11" by (simp add: RSP_def x64_SRA_def numeral_eq_Suc)
  have z: "gpr (machine_at [(RSP, 0x1000)]) r0 = 0" by (simp add: r r0_def)
  show ?thesis
    using stack_fusion_exact [of "PUSH i64Bit i64Bit RSP 7 RSP" "PUSH i64Bit i64Bit RSP 8 RSP" "PUSHTWO i64Bit 8 7 RSP" True] z
      stack_fusion_exact [of "PUSH i64Bit i64Bit 9 7 9" "PUSH i64Bit i64Bit 9 8 9" "PUSHTWO i64Bit 8 7 9" True]
    by (simp add: guest_regs_decide count_size_def r)
qed

end
