(* ===== verification/Ir_Block.thy ===== *)
theory Ir_Block
  imports Alu_Arith Alu_Wide Alu_Cond Mem_Ops
begin

text \<open>
  A block of IR after register allocation and the loop of \<open>CompileCode\<close> (\<open>JIT/PPC64LE/JIT.cpp\<close>) that emits it: the dispatch of every
  operation to its handler, and the two caches the emission carries from operation to operation.  \<open>LastConstantCache\<close> names a register
  that holds a constant materialised earlier, so that a nearby constant becomes one \<open>addi\<close>; \<open>XERProjectionValid\<close> says that CR1 mirrors
  carry and overflow, so that a second condition need not copy them again.

  An operation carries the operands its handler reads, with the host register each value was allocated to.  The list holds the integer
  operations whose code is verified in the theories below; vector, atomic, branch and system operations are not in it.
\<close>

subsection \<open>Operations\<close>

datatype (plugins only: size) IROp =
    OP_DUMMY | OP_BEGINBLOCK | OP_ENDBLOCK | OP_INVALIDATEFLAGS | OP_INLINECONSTANT | OP_INLINEENTRYPOINTOFFSET | OP_GUESTOPCODE
  | OP_CONSTANT GPR u64
  | OP_ENTRYPOINTOFFSET OpSize GPR u64
  | OP_COPY GPR GPR
  | OP_LOADREGISTER GPR GPR
  | OP_STOREREGISTER GPR GPR
  | OP_LOADPF GPR
  | OP_LOADAF GPR
  | OP_STOREPF GPR
  | OP_STOREAF GPR
  | OP_SPILLREGISTER OpSize GPR u32
  | OP_FILLREGISTER OpSize GPR u32
  | OP_LOADMEM OpSize GPR operand "operand option" MemOffsetType u8
  | OP_LOADMEMTSO OpSize GPR operand "operand option" MemOffsetType u8
  | OP_STOREMEM OpSize operand operand "operand option" MemOffsetType u8
  | OP_STOREMEMTSO bool OpSize operand operand "operand option" MemOffsetType u8
  | OP_ADD OpSize GPR GPR operand
  | OP_SUB OpSize GPR operand operand
  | OP_NEG OpSize CondClass GPR GPR
  | OP_NOT OpSize GPR GPR
  | OP_MUL OpSize GPR GPR operand
  | OP_UMUL OpSize GPR GPR GPR
  | OP_OR OpSize GPR GPR operand
  | OP_AND OpSize GPR GPR operand
  | OP_XOR OpSize GPR GPR operand
  | OP_ANDN OpSize GPR GPR operand
  | OP_ORLSHL OpSize GPR GPR GPR u8
  | OP_ORLSHR OpSize GPR GPR GPR u8
  | OP_ORNROR OpSize GPR GPR GPR u8
  | OP_XORSHIFT OpSize GPR GPR GPR ShiftType u8
  | OP_XORNSHIFT OpSize GPR GPR GPR ShiftType u8
  | OP_ANDSHIFT OpSize GPR GPR GPR ShiftType u8
  | OP_ADDSHIFT OpSize GPR GPR GPR u8
  | OP_SUBSHIFT OpSize GPR GPR GPR u8
  | OP_LSHL OpSize GPR GPR operand
  | OP_LSHR OpSize GPR GPR operand
  | OP_ASHR OpSize GPR GPR operand
  | OP_ROR OpSize GPR GPR operand
  | OP_BFE OpSize u8 u8 GPR GPR
  | OP_SBFE OpSize u8 u8 GPR GPR
  | OP_POPCOUNT OpSize GPR GPR
  | OP_ADDNZCV OpSize GPR operand
  | OP_SUBNZCV OpSize operand operand
  | OP_ADDWITHFLAGS OpSize GPR GPR operand
  | OP_SUBWITHFLAGS OpSize GPR operand operand
  | OP_ANDWITHFLAGS OpSize GPR GPR operand
  | OP_TESTNZ OpSize GPR operand
  | OP_TESTZ OpSize GPR operand
  | OP_ADCWITHFLAGS OpSize GPR GPR GPR
  | OP_SBBWITHFLAGS OpSize GPR GPR GPR
  | OP_NZCVSELECT OpSize CondClass GPR operand operand
  | OP_NZCVSELECTINCREMENT OpSize CondClass GPR operand operand
  | OP_LOADNZCV GPR
  | OP_STORENZCV GPR
  | OP_CARRYINVERT
  | OP_UMULL GPR GPR GPR
  | OP_SMULL GPR GPR GPR
  | OP_MULH OpSize GPR GPR GPR
  | OP_UMULH OpSize GPR GPR GPR
  | OP_BFI OpSize u8 u8 GPR GPR GPR
  | OP_BFXIL OpSize u8 u8 GPR GPR GPR
  | OP_EXTR OpSize u8 GPR GPR GPR
  | OP_COUNTLEADINGZEROES OpSize GPR GPR
  | OP_FINDTRAILINGZEROES OpSize GPR GPR
  | OP_PARITY bool GPR GPR
  | OP_SETSMALLNZV OpSize GPR
  | OP_ADCNZCV OpSize GPR GPR
  | OP_SBBNZCV OpSize GPR GPR

subsection \<open>Constants and their cache\<close>

text \<open>What the emission depends on besides the operation: the switches of the environment, the guest mode, and the entry of the unit.\<close>

record JitEnv =
  Cfg :: Config
  Is64Bit :: bool
  ConstCacheDisabled :: bool
  ExitRIPFixedWidth :: bool
  Entry :: u64

record JitCaches =
  XERProjectionValid :: bool
  Const_Value :: u64
  Const_Reg :: GPR
  Const_Valid :: bool

definition GeneralRegisters :: "JitEnv \<Rightarrow> GPR list" where
  "GeneralRegisters env = (if Is64Bit env then x64_RA else x32_RA)"

definition EntrypointOffsetValue :: "JitEnv \<Rightarrow> OpSize \<Rightarrow> u64 \<Rightarrow> u64" where
  "EntrypointOffsetValue env Size Offset = (Entry env + Offset) AND (if Size = i32Bit then 0xFFFFFFFF else NOT 0)"

definition Op_Constant :: "JitEnv \<Rightarrow> JitCaches \<Rightarrow> GPR \<Rightarrow> u64 \<Rightarrow> insn list" where
  "Op_Constant env c Dst Constant =
     (let Delta = Constant - Const_Value c; Base = Const_Reg c in
      if \<not> ConstCacheDisabled env \<and> Const_Valid c \<and> - 32768 \<le> sint Delta \<and> sint Delta \<le> 32767 \<and> Base \<noteq> r0 \<and> Base \<noteq> Dst then
        [addi Dst Base (ucast Delta)]
      else if \<not> ConstCacheDisabled env \<and> Const_Valid c \<and> Delta = 0 \<and> Base \<noteq> Dst then [mr Dst Base]
      else LoadConstant (Cfg env) Dst Constant)"

definition InsertEntrypointRIPMove :: "JitEnv \<Rightarrow> GPR \<Rightarrow> u64 \<Rightarrow> insn list" where
  "InsertEntrypointRIPMove env R Constant =
     (if \<not> ExitRIPFixedWidth env then LoadConstant (Cfg env) R Constant else LoadImm64Fixed R Constant)"

definition Op_EntrypointOffset :: "JitEnv \<Rightarrow> JitCaches \<Rightarrow> OpSize \<Rightarrow> GPR \<Rightarrow> u64 \<Rightarrow> insn list" where
  "Op_EntrypointOffset env c Size Dst Offset =
     (let Value = EntrypointOffsetValue env Size Offset; Delta = Value - Const_Value c; Base = Const_Reg c in
      if \<not> ExitRIPFixedWidth env \<and> \<not> ConstCacheDisabled env \<and> Const_Valid c \<and> Base \<noteq> r0 \<and> Base \<noteq> Dst \<and> Delta = 0 then [mr Dst Base]
      else if \<not> ExitRIPFixedWidth env \<and> \<not> ConstCacheDisabled env \<and> Const_Valid c \<and> Base \<noteq> r0 \<and> Base \<noteq> Dst \<and>
              - 32768 \<le> sint Delta \<and> sint Delta \<le> 32767 then [addi Dst Base (ucast Delta)]
      else InsertEntrypointRIPMove env Dst Value)"

subsection \<open>Dispatch\<close>

primrec handler :: "JitEnv \<Rightarrow> JitCaches \<Rightarrow> bool \<Rightarrow> IROp \<Rightarrow> insn list" where
  "handler env c Elided OP_DUMMY = []"
| "handler env c Elided OP_BEGINBLOCK = []"
| "handler env c Elided OP_ENDBLOCK = []"
| "handler env c Elided OP_INVALIDATEFLAGS = []"
| "handler env c Elided OP_INLINECONSTANT = []"
| "handler env c Elided OP_INLINEENTRYPOINTOFFSET = []"
| "handler env c Elided OP_GUESTOPCODE = []"
| "handler env c Elided (OP_CONSTANT Dst C) = Op_Constant env c Dst C"
| "handler env c Elided (OP_ENTRYPOINTOFFSET Size Dst Offset) = Op_EntrypointOffset env c Size Dst Offset"
| "handler env c Elided (OP_COPY Dst Src) = Op_Copy Dst Src"
| "handler env c Elided (OP_LOADREGISTER Dst Src) = Op_LoadRegister Dst Src"
| "handler env c Elided (OP_STOREREGISTER Dst Src) = Op_StoreRegister Dst Src"
| "handler env c Elided (OP_LOADPF Dst) = Op_LoadPF Dst"
| "handler env c Elided (OP_LOADAF Dst) = Op_LoadAF Dst"
| "handler env c Elided (OP_STOREPF Src) = Op_StorePF Src"
| "handler env c Elided (OP_STOREAF Src) = Op_StoreAF Src"
| "handler env c Elided (OP_SPILLREGISTER Size Src Slot) = Op_SpillRegister (Cfg env) Size Src Slot"
| "handler env c Elided (OP_FILLREGISTER Size Dst Slot) = Op_FillRegister (Cfg env) Size Dst Slot"
| "handler env c Elided (OP_LOADMEM Size Dst Addr Offset Type Scale) = Op_LoadMem (Cfg env) Size Dst Addr Offset Type Scale"
| "handler env c Elided (OP_LOADMEMTSO Size Dst Addr Offset Type Scale) = Op_LoadMemTSO (Cfg env) Size Dst Addr Offset Type Scale"
| "handler env c Elided (OP_STOREMEM Size Value Addr Offset Type Scale) = Op_StoreMem (Cfg env) Size Value Addr Offset Type Scale"
| "handler env c Elided (OP_STOREMEMTSO NoBarrier Size Value Addr Offset Type Scale) = Op_StoreMemTSO (Cfg env) NoBarrier Size Value Addr Offset Type Scale"
| "handler env c Elided (OP_ADD Size Dst S1 Src2) = Op_Add (Cfg env) Size Elided Dst S1 Src2"
| "handler env c Elided (OP_SUB Size Dst Src1 Src2) = Op_Sub (Cfg env) Size Elided None Dst Src1 Src2"
| "handler env c Elided (OP_NEG Size C Dst Src) = Op_Neg False (XERProjectionValid c) Size Elided C Dst Src"
| "handler env c Elided (OP_NOT Size Dst Src) = Op_Not Size Elided Dst Src"
| "handler env c Elided (OP_MUL Size Dst S1 Src2) = Op_Mul (Cfg env) Size Elided Dst S1 Src2"
| "handler env c Elided (OP_UMUL Size Dst S1 S2) = Op_UMul Size Elided Dst S1 S2"
| "handler env c Elided (OP_OR Size Dst S1 Src2) = Op_Or (Cfg env) Size Elided Dst S1 Src2"
| "handler env c Elided (OP_AND Size Dst S1 Src2) = Op_And (Cfg env) Size Elided Dst S1 Src2"
| "handler env c Elided (OP_XOR Size Dst S1 Src2) = Op_Xor (Cfg env) Size Elided Dst S1 Src2"
| "handler env c Elided (OP_ANDN Size Dst S1 Src2) = Op_Andn (Cfg env) Size Elided Dst S1 Src2"
| "handler env c Elided (OP_ORLSHL Size Dst S1 S2 Amt) = Op_Orlshl Size Elided Dst S1 S2 Amt"
| "handler env c Elided (OP_ORLSHR Size Dst S1 S2 Amt) = Op_Orlshr Size Elided Dst S1 S2 Amt"
| "handler env c Elided (OP_ORNROR Size Dst S1 S2 Amt) = Op_Ornror Size Elided Dst S1 S2 Amt"
| "handler env c Elided (OP_XORSHIFT Size Dst S1 S2 Shift Amt) = Op_XorShift Size Elided Dst S1 S2 Shift Amt"
| "handler env c Elided (OP_XORNSHIFT Size Dst S1 S2 Shift Amt) = Op_XornShift Size Elided Dst S1 S2 Shift Amt"
| "handler env c Elided (OP_ANDSHIFT Size Dst S1 S2 Shift Amt) = Op_AndShift Size Elided Dst S1 S2 Shift Amt"
| "handler env c Elided (OP_ADDSHIFT Size Dst S1 S2 Amt) = Op_AddShift Size Elided Dst S1 S2 Amt"
| "handler env c Elided (OP_SUBSHIFT Size Dst S1 S2 Amt) = Op_SubShift Size Elided Dst S1 S2 Amt"
| "handler env c Elided (OP_LSHL Size Dst S1 Src2) = Op_Lshl Size Dst S1 Src2"
| "handler env c Elided (OP_LSHR Size Dst S1 Src2) = Op_Lshr Size Dst S1 Src2"
| "handler env c Elided (OP_ASHR Size Dst S1 Src2) = Op_Ashr Size Dst S1 Src2"
| "handler env c Elided (OP_ROR Size Dst S1 Src2) = Op_Ror Size Dst S1 Src2"
| "handler env c Elided (OP_BFE Size Width lsb Dst Src) = Op_Bfe Size Elided Width lsb Dst Src"
| "handler env c Elided (OP_SBFE Size Width lsb Dst Src) = Op_Sbfe Size Width lsb Dst Src"
| "handler env c Elided (OP_POPCOUNT Size Dst Src) = Op_Popcount Size Dst Src"
| "handler env c Elided (OP_ADDNZCV Size S1 Src2) = Op_AddNZCV (Cfg env) Size S1 Src2"
| "handler env c Elided (OP_SUBNZCV Size Src1 Src2) = Op_SubNZCV (Cfg env) Size Src1 Src2"
| "handler env c Elided (OP_ADDWITHFLAGS Size Dst S1 Src2) = Op_AddWithFlags (Cfg env) Size Dst S1 Src2"
| "handler env c Elided (OP_SUBWITHFLAGS Size Dst Src1 Src2) = Op_SubWithFlags (Cfg env) Size Dst Src1 Src2"
| "handler env c Elided (OP_ANDWITHFLAGS Size Dst S1 Src2) = Op_AndWithFlags (Cfg env) Size Dst S1 Src2"
| "handler env c Elided (OP_TESTNZ Size S1 Src2) = Op_TestNZ (Cfg env) Size S1 Src2"
| "handler env c Elided (OP_TESTZ Size S1 Src2) = Op_TestZ (Cfg env) Size S1 Src2"
| "handler env c Elided (OP_ADCWITHFLAGS Size Dst S1 S2) = Op_AdcWithFlags (Cfg env) Size Dst S1 S2"
| "handler env c Elided (OP_SBBWITHFLAGS Size Dst S1 S2) = Op_SbbWithFlags (Cfg env) Size Dst S1 S2"
| "handler env c Elided (OP_NZCVSELECT Size C Dst T F) = Op_NZCVSelect (Cfg env) False (XERProjectionValid c) Size Elided C Dst T F"
| "handler env c Elided (OP_NZCVSELECTINCREMENT Size C Dst T F) = Op_NZCVSelectIncrement (Cfg env) False (XERProjectionValid c) Size Elided C Dst T F"
| "handler env c Elided (OP_LOADNZCV Dst) = Op_LoadNZCV Dst"
| "handler env c Elided (OP_STORENZCV Src) = Op_StoreNZCV (Cfg env) Src"
| "handler env c Elided OP_CARRYINVERT = Op_CarryInvert"
| "handler env c Elided (OP_UMULL Dst S1 S2) = Op_UMull Dst S1 S2"
| "handler env c Elided (OP_SMULL Dst S1 S2) = Op_SMull Dst S1 S2"
| "handler env c Elided (OP_MULH Size Dst S1 S2) = Op_MulH Size Dst S1 S2"
| "handler env c Elided (OP_UMULH Size Dst S1 S2) = Op_UMulH Size Dst S1 S2"
| "handler env c Elided (OP_BFI Size Width lsb Dst S1 Src) = Op_Bfi Size Width lsb Dst S1 Src"
| "handler env c Elided (OP_BFXIL Size Width lsb Dst S1 Src) = Op_Bfxil Size Width lsb Dst S1 Src"
| "handler env c Elided (OP_EXTR Size LSB Dst S1 S2) = Op_Extr Size LSB Dst S1 S2"
| "handler env c Elided (OP_COUNTLEADINGZEROES Size Dst Src) = Op_CountLeadingZeroes Size Dst Src"
| "handler env c Elided (OP_FINDTRAILINGZEROES Size Dst Src) = Op_FindTrailingZeroes Size Dst Src"
| "handler env c Elided (OP_PARITY Invert Dst Raw) = Op_Parity Invert Dst Raw"
| "handler env c Elided (OP_SETSMALLNZV Size Src) = Op_SetSmallNZV Size Src"
| "handler env c Elided (OP_ADCNZCV Size S1 S2) = Op_AdcNZCV (Cfg env) Size S1 S2"
| "handler env c Elided (OP_SBBNZCV Size S1 S2) = Op_SbbNZCV (Cfg env) Size S1 S2"

text \<open>The projection flag as the handler leaves it.\<close>

definition projection_after :: "bool \<Rightarrow> IROp \<Rightarrow> bool" where
  "projection_after Valid op =
     (case op of
        OP_NZCVSELECT Size C Dst T F \<Rightarrow> snd (snd (MapNZCVCC False Valid (IntegerNZCVCond C)))
      | OP_NZCVSELECTINCREMENT Size C Dst T F \<Rightarrow> snd (snd (MapNZCVCC False Valid (IntegerNZCVCond C)))
      | OP_NEG Size C Dst Src \<Rightarrow> (if C = AL then Valid else snd (snd (MapNZCVCC False Valid (IntegerNZCVCond C))))
      | _ \<Rightarrow> Valid)"

definition kOpCacheKeepXER :: "IROp \<Rightarrow> bool" where
  "kOpCacheKeepXER op =
     (case op of OP_NZCVSELECT _ _ _ _ _ \<Rightarrow> True | OP_NZCVSELECTINCREMENT _ _ _ _ _ \<Rightarrow> True | OP_STOREREGISTER _ _ \<Rightarrow> True
      | OP_LOADREGISTER _ _ \<Rightarrow> True | OP_CONSTANT _ _ \<Rightarrow> True | OP_INLINECONSTANT \<Rightarrow> True | _ \<Rightarrow> False)"

definition after_handler :: "JitEnv \<Rightarrow> JitCaches \<Rightarrow> IROp \<Rightarrow> JitCaches" where
  "after_handler env c op =
     (let c = c\<lparr>XERProjectionValid := kOpCacheKeepXER op \<and> projection_after (XERProjectionValid c) op\<rparr> in
      case op of
        OP_CONSTANT Dst C \<Rightarrow>
          if \<not> ConstCacheDisabled env \<and> Dst \<in> set (GeneralRegisters env) then c\<lparr>Const_Value := C, Const_Reg := Dst, Const_Valid := True\<rparr>
          else c\<lparr>Const_Valid := False\<rparr>
      | OP_ENTRYPOINTOFFSET Size Dst Offset \<Rightarrow>
          if \<not> ConstCacheDisabled env \<and> \<not> ExitRIPFixedWidth env \<and> Dst \<in> set (GeneralRegisters env) then
            c\<lparr>Const_Value := EntrypointOffsetValue env Size Offset, Const_Reg := Dst, Const_Valid := True\<rparr>
          else c\<lparr>Const_Valid := False\<rparr>
      | _ \<Rightarrow> c\<lparr>Const_Valid := False\<rparr>)"

definition block_entry :: JitCaches where
  "block_entry = \<lparr>XERProjectionValid = False, Const_Value = 0, Const_Reg = 0, Const_Valid = False\<rparr>"

fun emit_ops :: "JitEnv \<Rightarrow> JitCaches \<Rightarrow> (bool \<times> IROp) list \<Rightarrow> insn list \<times> JitCaches" where
  "emit_ops env c [] = ([], c)"
| "emit_ops env c ((Elided, op) # ops) =
     (let (rest, c') = emit_ops env (after_handler env c op) ops in (handler env c Elided op @ rest, c'))"

end
