(* ===== verification/Ir_Refine.thy ===== *)
theory Ir_Refine
  imports Ir_Block
begin

text \<open>
  What a block of IR means, and that the code emitted for it does that.  \<open>Guest\<close> is the state the IR speaks of: the registers values are
  allocated to, the four flags, and memory.  \<open>ir_eval\<close> gives every operation its meaning on that state, without scratch registers,
  condition register fields or cached constants; \<open>abs\<close> reads a \<open>Guest\<close> off a machine state.  The main lemma, \<open>handler_refines\<close>, is
  the simulation of one operation: from a state where the caches of the emission describe the machine, the code of the operation runs, ends
  in the state \<open>ir_eval\<close> gives, and the updated caches describe the machine again.  An operation whose tail mask was elided may leave
  anything in the upper half of its destination, which \<open>agree\<close> expresses.
\<close>

subsection \<open>The meaning of the operations\<close>

record Guest =
  g_reg :: "GPR \<Rightarrow> u64"
  g_flags :: Flags
  g_mem :: "u64 \<Rightarrow> u8"

definition g_put :: "GPR \<Rightarrow> u64 \<Rightarrow> Guest \<Rightarrow> Guest" where
  "g_put r v g = g\<lparr>g_reg := (g_reg g)(r := v)\<rparr>"

primrec g_value :: "Guest \<Rightarrow> operand \<Rightarrow> u64" where
  "g_value g (InlineConstant c) = c"
| "g_value g (Reg r) = g_reg g r"

definition g_load :: "nat \<Rightarrow> Guest \<Rightarrow> u64 \<Rightarrow> u64" where
  "g_load n g ea = le_word (map (\<lambda>i. g_mem g (ea + of_nat i)) [0..<n])"

definition g_store :: "nat \<Rightarrow> u64 \<Rightarrow> u64 \<Rightarrow> Guest \<Rightarrow> Guest" where
  "g_store n v ea g = g\<lparr>g_mem := \<lambda>a. if unat (a - ea) < n then le_bytes n v ! unat (a - ea) else g_mem g a\<rparr>"

definition g_address :: "Guest \<Rightarrow> operand \<Rightarrow> operand option \<Rightarrow> MemOffsetType \<Rightarrow> u8 \<Rightarrow> u64" where
  "g_address g Addr Offset OffsetType OffsetScale = g_value g Addr +
     (case Offset of None \<Rightarrow> 0
      | Some (InlineConstant c) \<Rightarrow> c * ucast OffsetScale
      | Some (Reg r) \<Rightarrow>
          (case OffsetType of SXTX \<Rightarrow> g_reg g r | UXTW \<Rightarrow> ucast (ucast (g_reg g r) :: u32) | SXTW \<Rightarrow> scast (ucast (g_reg g r) :: u32)) *
          ucast OffsetScale)"

definition g_slot :: "Guest \<Rightarrow> u32 \<Rightarrow> u64" where
  "g_slot g Slot = g_reg g r1 + (96 + 32 * ucast Slot)"

text \<open>A 32-bit operation writes its result zero-extended.\<close>

definition sized :: "OpSize \<Rightarrow> u64 \<Rightarrow> u64" where
  "sized Size w = (if Size = i32Bit then ucast (ucast w :: u32) else w)"

definition chosen :: "CondClass \<Rightarrow> Guest \<Rightarrow> u64 \<Rightarrow> u64 \<Rightarrow> u64" where
  "chosen C g a b = (if cond_holds C (g_flags g) then a else b)"

primrec ir_eval :: "JitEnv \<Rightarrow> IROp \<Rightarrow> Guest \<Rightarrow> Guest" where
  "ir_eval env OP_DUMMY g = g"
| "ir_eval env OP_BEGINBLOCK g = g"
| "ir_eval env OP_ENDBLOCK g = g"
| "ir_eval env OP_INVALIDATEFLAGS g = g"
| "ir_eval env OP_INLINECONSTANT g = g"
| "ir_eval env OP_INLINEENTRYPOINTOFFSET g = g"
| "ir_eval env OP_GUESTOPCODE g = g"
| "ir_eval env (OP_CONSTANT Dst C) g = g_put Dst C g"
| "ir_eval env (OP_ENTRYPOINTOFFSET Size Dst Offset) g = g_put Dst (EntrypointOffsetValue env Size Offset) g"
| "ir_eval env (OP_COPY Dst Src) g = g_put Dst (g_reg g Src) g"
| "ir_eval env (OP_LOADREGISTER Dst Src) g = g_put Dst (g_reg g Src) g"
| "ir_eval env (OP_STOREREGISTER Dst Src) g = g_put Dst (g_reg g Src) g"
| "ir_eval env (OP_LOADPF Dst) g = g_put Dst (g_reg g REG_PF) g"
| "ir_eval env (OP_LOADAF Dst) g = g_put Dst (g_reg g REG_AF) g"
| "ir_eval env (OP_STOREPF Src) g = g_put REG_PF (g_reg g Src) g"
| "ir_eval env (OP_STOREAF Src) g = g_put REG_AF (g_reg g Src) g"
| "ir_eval env (OP_SPILLREGISTER Size Src Slot) g = g_store (OpSizeToSize Size) (g_reg g Src) (g_slot g Slot) g"
| "ir_eval env (OP_FILLREGISTER Size Dst Slot) g = g_put Dst (g_load (OpSizeToSize Size) g (g_slot g Slot)) g"
| "ir_eval env (OP_LOADMEM Size Dst Addr Offset Type Scale) g = g_put Dst (g_load (OpSizeToSize Size) g (g_address g Addr Offset Type Scale)) g"
| "ir_eval env (OP_LOADMEMTSO Size Dst Addr Offset Type Scale) g = g_put Dst (g_load (OpSizeToSize Size) g (g_address g Addr Offset Type Scale)) g"
| "ir_eval env (OP_STOREMEM Size Value Addr Offset Type Scale) g =
     g_store (OpSizeToSize Size) (g_value g Value) (g_address g Addr Offset Type Scale) g"
| "ir_eval env (OP_STOREMEMTSO NoBarrier Size Value Addr Offset Type Scale) g =
     g_store (OpSizeToSize Size) (g_value g Value) (g_address g Addr Offset Type Scale) g"
| "ir_eval env (OP_ADD Size Dst S1 Src2) g = g_put Dst (sized Size (g_reg g S1 + g_value g Src2)) g"
| "ir_eval env (OP_SUB Size Dst Src1 Src2) g = g_put Dst (sized Size (g_value g Src1 - g_value g Src2)) g"
| "ir_eval env (OP_NEG Size C Dst Src) g = g_put Dst (sized Size (chosen C g (- g_reg g Src) (g_reg g Src))) g"
| "ir_eval env (OP_NOT Size Dst Src) g = g_put Dst (sized Size (NOT (g_reg g Src))) g"
| "ir_eval env (OP_MUL Size Dst S1 Src2) g = g_put Dst (sized Size (g_reg g S1 * g_value g Src2)) g"
| "ir_eval env (OP_UMUL Size Dst S1 S2) g = g_put Dst (sized Size (g_reg g S1 * g_reg g S2)) g"
| "ir_eval env (OP_OR Size Dst S1 Src2) g = g_put Dst (sized Size (g_reg g S1 OR g_value g Src2)) g"
| "ir_eval env (OP_AND Size Dst S1 Src2) g = g_put Dst (sized Size (g_reg g S1 AND g_value g Src2)) g"
| "ir_eval env (OP_XOR Size Dst S1 Src2) g = g_put Dst (sized Size (g_reg g S1 XOR g_value g Src2)) g"
| "ir_eval env (OP_ANDN Size Dst S1 Src2) g = g_put Dst (sized Size (g_reg g S1 AND NOT (g_value g Src2))) g"
| "ir_eval env (OP_ORLSHL Size Dst S1 S2 Amt) g = g_put Dst (sized Size (g_reg g S1 OR shifted Size LSL (unat Amt) (g_reg g S2))) g"
| "ir_eval env (OP_ORLSHR Size Dst S1 S2 Amt) g = g_put Dst (sized Size (g_reg g S1 OR shifted Size LSR (unat Amt) (g_reg g S2))) g"
| "ir_eval env (OP_ORNROR Size Dst S1 S2 Amt) g = g_put Dst (sized Size (g_reg g S1 OR NOT (shifted Size ROR (unat Amt) (g_reg g S2)))) g"
| "ir_eval env (OP_XORSHIFT Size Dst S1 S2 Shift Amt) g = g_put Dst (sized Size (g_reg g S1 XOR shifted Size Shift (unat Amt) (g_reg g S2))) g"
| "ir_eval env (OP_XORNSHIFT Size Dst S1 S2 Shift Amt) g =
     g_put Dst (sized Size (g_reg g S1 XOR NOT (shifted Size Shift (unat Amt) (g_reg g S2)))) g"
| "ir_eval env (OP_ANDSHIFT Size Dst S1 S2 Shift Amt) g = g_put Dst (sized Size (g_reg g S1 AND shifted Size Shift (unat Amt) (g_reg g S2))) g"
| "ir_eval env (OP_ADDSHIFT Size Dst S1 S2 Amt) g = g_put Dst (sized Size (g_reg g S1 + push_bit (unat Amt) (g_reg g S2))) g"
| "ir_eval env (OP_SUBSHIFT Size Dst S1 S2 Amt) g = g_put Dst (sized Size (g_reg g S1 - push_bit (unat Amt) (g_reg g S2))) g"
| "ir_eval env (OP_LSHL Size Dst S1 Src2) g = g_put Dst (shifted Size LSL (unat (g_value g Src2) mod size_bits Size) (g_reg g S1)) g"
| "ir_eval env (OP_LSHR Size Dst S1 Src2) g = g_put Dst (shifted Size LSR (unat (g_value g Src2) mod size_bits Size) (g_reg g S1)) g"
| "ir_eval env (OP_ASHR Size Dst S1 Src2) g = g_put Dst (shifted Size ASR (unat (g_value g Src2) mod size_bits Size) (g_reg g S1)) g"
| "ir_eval env (OP_ROR Size Dst S1 Src2) g = g_put Dst (shifted Size ROR (unat (g_value g Src2) mod size_bits Size) (g_reg g S1)) g"
| "ir_eval env (OP_BFE Size Width lsb Dst Src) g = g_put Dst (bits_of (unat Width) (unat lsb) (g_reg g Src)) g"
| "ir_eval env (OP_SBFE Size Width lsb Dst Src) g = g_put Dst (sized Size (sbits_of (unat Width) (unat lsb) (g_reg g Src))) g"
| "ir_eval env (OP_POPCOUNT Size Dst Src) g = g_put Dst (of_nat (ones_in Size (g_reg g Src))) g"
| "ir_eval env (OP_ADDNZCV Size S1 Src2) g = g\<lparr>g_flags := add_flags_at Size (g_reg g S1) (g_value g Src2) False\<rparr>"
| "ir_eval env (OP_SUBNZCV Size Src1 Src2) g = g\<lparr>g_flags := sub_flags_at Size (g_value g Src1) (g_value g Src2) True\<rparr>"
| "ir_eval env (OP_ADDWITHFLAGS Size Dst S1 Src2) g =
     (g_put Dst (sized Size (g_reg g S1 + g_value g Src2)) g)\<lparr>g_flags := add_flags_at Size (g_reg g S1) (g_value g Src2) False\<rparr>"
| "ir_eval env (OP_SUBWITHFLAGS Size Dst Src1 Src2) g =
     (g_put Dst (sized Size (g_value g Src1 - g_value g Src2)) g)\<lparr>g_flags := sub_flags_at Size (g_value g Src1) (g_value g Src2) True\<rparr>"
| "ir_eval env (OP_ANDWITHFLAGS Size Dst S1 Src2) g =
     (g_put Dst (take_bit (8 * OpSizeToSize Size) (g_reg g S1 AND g_value g Src2)) g)
       \<lparr>g_flags := logic_flags_at Size (g_reg g S1 AND g_value g Src2)\<rparr>"
| "ir_eval env (OP_TESTNZ Size S1 Src2) g = g\<lparr>g_flags := logic_flags_at Size (g_reg g S1 AND g_value g Src2)\<rparr>"
| "ir_eval env (OP_TESTZ Size S1 Src2) g = g\<lparr>g_flags := logic_flags_at Size (g_reg g S1 AND g_value g Src2)\<rparr>"
| "ir_eval env (OP_ADCWITHFLAGS Size Dst S1 S2) g =
     (g_put Dst (sized Size (g_reg g S1 + g_reg g S2 + of_bool (FlagC (g_flags g)))) g)
       \<lparr>g_flags := add_flags_at Size (g_reg g S1) (g_reg g S2) (FlagC (g_flags g))\<rparr>"
| "ir_eval env (OP_SBBWITHFLAGS Size Dst S1 S2) g =
     (g_put Dst (sized Size (g_reg g S1 - g_reg g S2 - of_bool (\<not> FlagC (g_flags g)))) g)
       \<lparr>g_flags := sub_flags_at Size (g_reg g S1) (g_reg g S2) (FlagC (g_flags g))\<rparr>"
| "ir_eval env (OP_NZCVSELECT Size C Dst T F) g = g_put Dst (sized Size (chosen C g (g_value g T) (g_value g F))) g"
| "ir_eval env (OP_NZCVSELECTINCREMENT Size C Dst T F) g = g_put Dst (sized Size (chosen C g (g_value g T) (g_value g F + 1))) g"
| "ir_eval env (OP_LOADNZCV Dst) g = g_put Dst (packed_NZCV (g_flags g)) g"
| "ir_eval env (OP_STORENZCV Src) g = g\<lparr>g_flags := unpacked_NZCV (g_reg g Src)\<rparr>"
| "ir_eval env OP_CARRYINVERT g = g\<lparr>g_flags := (g_flags g)\<lparr>FlagC := \<not> FlagC (g_flags g)\<rparr>\<rparr>"
| "ir_eval env (OP_UMULL Dst S1 S2) g = g_put Dst (word_of_int (uint (ucast (g_reg g S1) :: u32) * uint (ucast (g_reg g S2) :: u32))) g"
| "ir_eval env (OP_SMULL Dst S1 S2) g = g_put Dst (word_of_int (sint (ucast (g_reg g S1) :: u32) * sint (ucast (g_reg g S2) :: u32))) g"
| "ir_eval env (OP_MULH Size Dst S1 S2) g =
     g_put Dst (if Size = i32Bit then ucast (word_of_int (sint (ucast (g_reg g S1) :: u32) * sint (ucast (g_reg g S2) :: u32) div 2 ^ 32) :: u32)
              else word_of_int (sint (g_reg g S1) * sint (g_reg g S2) div 2 ^ 64)) g"
| "ir_eval env (OP_UMULH Size Dst S1 S2) g =
     g_put Dst (if Size = i32Bit then ucast (word_of_int (uint (ucast (g_reg g S1) :: u32) * uint (ucast (g_reg g S2) :: u32) div 2 ^ 32) :: u32)
              else word_of_int (uint (g_reg g S1) * uint (g_reg g S2) div 2 ^ 64)) g"
| "ir_eval env (OP_BFI Size Width lsb Dst S1 Src) g = g_put Dst (put_field (unat Width) (unat lsb) (g_reg g Src) (g_reg g S1)) g"
| "ir_eval env (OP_BFXIL Size Width lsb Dst S1 Src) g =
     g_put Dst (put_field (unat Width) 0 (drop_bit (unat lsb) (g_reg g Src)) (g_reg g S1)) g"
| "ir_eval env (OP_EXTR Size LSB Dst S1 S2) g =
     g_put Dst (if Size = i32Bit then ucast (ucast (drop_bit (unat LSB) (word_cat (ucast (g_reg g S1) :: u32) (ucast (g_reg g S2) :: u32) :: u64)) :: u32)
              else ucast (drop_bit (unat LSB) (word_cat (g_reg g S1) (g_reg g S2) :: 128 word))) g"
| "ir_eval env (OP_COUNTLEADINGZEROES Size Dst Src) g = g_put Dst (of_nat (leading_zeroes_in Size (g_reg g Src))) g"
| "ir_eval env (OP_FINDTRAILINGZEROES Size Dst Src) g = g_put Dst (of_nat (trailing_zeroes_in Size (g_reg g Src))) g"
| "ir_eval env (OP_PARITY Invert Dst Raw) g = g_put Dst (of_bool (odd (popcount (ucast (g_reg g Raw) :: u8)) \<noteq> Invert)) g"
| "ir_eval env (OP_SETSMALLNZV Size Src) g =
     g\<lparr>g_flags := (logic_flags_at Size (g_reg g Src))\<lparr>FlagC := FlagC (g_flags g),
       FlagV := bit (g_reg g Src) (8 * OpSizeToSize Size) \<noteq> bit (g_reg g Src) (8 * OpSizeToSize Size - 1)\<rparr>\<rparr>"
| "ir_eval env (OP_ADCNZCV Size S1 S2) g = g\<lparr>g_flags := add_flags_at Size (g_reg g S1) (g_reg g S2) (FlagC (g_flags g))\<rparr>"
| "ir_eval env (OP_SBBNZCV Size S1 S2) g = g\<lparr>g_flags := sub_flags_at Size (g_reg g S1) (g_reg g S2) (FlagC (g_flags g))\<rparr>"

definition ir_run :: "JitEnv \<Rightarrow> IROp list \<Rightarrow> Guest \<Rightarrow> Guest" where
  "ir_run env ops g = fold (ir_eval env) ops g"

text \<open>The operand shapes the front end and register allocation produce, as each handler requires them.\<close>

primrec is_Reg :: "operand \<Rightarrow> bool" where
  "is_Reg (InlineConstant c) = False"
| "is_Reg (Reg r) = True"

primrec op_ok :: "IROp \<Rightarrow> bool" where
  "op_ok OP_DUMMY = True"
| "op_ok OP_BEGINBLOCK = True"
| "op_ok OP_ENDBLOCK = True"
| "op_ok OP_INVALIDATEFLAGS = True"
| "op_ok OP_INLINECONSTANT = True"
| "op_ok OP_INLINEENTRYPOINTOFFSET = True"
| "op_ok OP_GUESTOPCODE = True"
| "op_ok (OP_CONSTANT Dst C) \<longleftrightarrow> guest_reg Dst"
| "op_ok (OP_ENTRYPOINTOFFSET Size Dst Offset) \<longleftrightarrow> guest_reg Dst"
| "op_ok (OP_COPY Dst Src) \<longleftrightarrow> guest_reg Dst \<and> guest_reg Src"
| "op_ok (OP_LOADREGISTER Dst Src) \<longleftrightarrow> guest_reg Dst \<and> guest_reg Src"
| "op_ok (OP_STOREREGISTER Dst Src) \<longleftrightarrow> guest_reg Dst \<and> guest_reg Src"
| "op_ok (OP_LOADPF Dst) \<longleftrightarrow> guest_reg Dst"
| "op_ok (OP_LOADAF Dst) \<longleftrightarrow> guest_reg Dst"
| "op_ok (OP_STOREPF Src) \<longleftrightarrow> guest_reg Src"
| "op_ok (OP_STOREAF Src) \<longleftrightarrow> guest_reg Src"
| "op_ok (OP_SPILLREGISTER Size Src Slot) \<longleftrightarrow> slot_ok Size Slot \<and> guest_reg Src"
| "op_ok (OP_FILLREGISTER Size Dst Slot) \<longleftrightarrow> slot_ok Size Slot \<and> guest_reg Dst"
| "op_ok (OP_LOADMEM Size Dst Addr Offset Type Scale) \<longleftrightarrow> count_size Size \<and> guest_reg Dst \<and> access_operands Addr Offset Scale"
| "op_ok (OP_LOADMEMTSO Size Dst Addr Offset Type Scale) \<longleftrightarrow> count_size Size \<and> guest_reg Dst \<and> access_operands Addr Offset Scale"
| "op_ok (OP_STOREMEM Size Value Addr Offset Type Scale) \<longleftrightarrow> count_size Size \<and> guest_operand Value \<and> access_operands Addr Offset Scale"
| "op_ok (OP_STOREMEMTSO NoBarrier Size Value Addr Offset Type Scale) \<longleftrightarrow>
     count_size Size \<and> guest_operand Value \<and> access_operands Addr Offset Scale"
| "op_ok (OP_ADD Size Dst S1 Src2) \<longleftrightarrow> gpr_size Size \<and> guest_reg Dst \<and> guest_reg S1 \<and> guest_operand Src2"
| "op_ok (OP_SUB Size Dst Src1 Src2) \<longleftrightarrow> gpr_size Size \<and> guest_reg Dst \<and> guest_operand Src1 \<and> guest_operand Src2 \<and> (is_Reg Src1 \<or> is_Reg Src2)"
| "op_ok (OP_NEG Size C Dst Src) \<longleftrightarrow> gpr_size Size \<and> guest_reg Dst \<and> guest_reg Src \<and> (C = AL \<or> flag_cond C)"
| "op_ok (OP_NOT Size Dst Src) \<longleftrightarrow> gpr_size Size \<and> guest_reg Dst \<and> guest_reg Src"
| "op_ok (OP_MUL Size Dst S1 Src2) \<longleftrightarrow> gpr_size Size \<and> guest_reg Dst \<and> guest_reg S1 \<and> guest_operand Src2"
| "op_ok (OP_UMUL Size Dst S1 S2) \<longleftrightarrow> gpr_size Size \<and> guest_reg Dst \<and> guest_reg S1 \<and> guest_reg S2"
| "op_ok (OP_OR Size Dst S1 Src2) \<longleftrightarrow> gpr_size Size \<and> guest_reg Dst \<and> guest_reg S1 \<and> guest_operand Src2"
| "op_ok (OP_AND Size Dst S1 Src2) \<longleftrightarrow> gpr_size Size \<and> guest_reg Dst \<and> guest_reg S1 \<and> guest_operand Src2"
| "op_ok (OP_XOR Size Dst S1 Src2) \<longleftrightarrow> gpr_size Size \<and> guest_reg Dst \<and> guest_reg S1 \<and> guest_operand Src2"
| "op_ok (OP_ANDN Size Dst S1 Src2) \<longleftrightarrow> gpr_size Size \<and> guest_reg Dst \<and> guest_reg S1 \<and> guest_operand Src2"
| "op_ok (OP_ORLSHL Size Dst S1 S2 Amt) \<longleftrightarrow> gpr_size Size \<and> guest_reg Dst \<and> guest_reg S1 \<and> guest_reg S2 \<and> unat Amt < size_bits Size"
| "op_ok (OP_ORLSHR Size Dst S1 S2 Amt) \<longleftrightarrow> gpr_size Size \<and> guest_reg Dst \<and> guest_reg S1 \<and> guest_reg S2 \<and> unat Amt < size_bits Size"
| "op_ok (OP_ORNROR Size Dst S1 S2 Amt) \<longleftrightarrow> gpr_size Size \<and> guest_reg Dst \<and> guest_reg S1 \<and> guest_reg S2 \<and> unat Amt < size_bits Size"
| "op_ok (OP_XORSHIFT Size Dst S1 S2 Shift Amt) \<longleftrightarrow>
     gpr_size Size \<and> guest_reg Dst \<and> guest_reg S1 \<and> guest_reg S2 \<and> unat Amt < size_bits Size"
| "op_ok (OP_XORNSHIFT Size Dst S1 S2 Shift Amt) \<longleftrightarrow>
     gpr_size Size \<and> guest_reg Dst \<and> guest_reg S1 \<and> guest_reg S2 \<and> unat Amt < size_bits Size"
| "op_ok (OP_ANDSHIFT Size Dst S1 S2 Shift Amt) \<longleftrightarrow>
     gpr_size Size \<and> guest_reg Dst \<and> guest_reg S1 \<and> guest_reg S2 \<and> unat Amt < size_bits Size"
| "op_ok (OP_ADDSHIFT Size Dst S1 S2 Amt) \<longleftrightarrow>
     gpr_size Size \<and> guest_reg Dst \<and> guest_reg S1 \<and> guest_reg S2 \<and> 0 < unat Amt \<and> unat Amt < 64"
| "op_ok (OP_SUBSHIFT Size Dst S1 S2 Amt) \<longleftrightarrow> gpr_size Size \<and> guest_reg Dst \<and> guest_reg S1 \<and> guest_reg S2 \<and> unat Amt < 64"
| "op_ok (OP_LSHL Size Dst S1 Src2) \<longleftrightarrow> gpr_size Size \<and> guest_reg Dst \<and> guest_reg S1 \<and> guest_operand Src2"
| "op_ok (OP_LSHR Size Dst S1 Src2) \<longleftrightarrow> gpr_size Size \<and> guest_reg Dst \<and> guest_reg S1 \<and> guest_operand Src2"
| "op_ok (OP_ASHR Size Dst S1 Src2) \<longleftrightarrow> gpr_size Size \<and> guest_reg Dst \<and> guest_reg S1 \<and> guest_operand Src2"
| "op_ok (OP_ROR Size Dst S1 Src2) \<longleftrightarrow> gpr_size Size \<and> guest_reg Dst \<and> guest_reg S1 \<and> guest_operand Src2"
| "op_ok (OP_BFE Size Width lsb Dst Src) \<longleftrightarrow> field_ok Size Width lsb \<and> guest_reg Dst \<and> guest_reg Src"
| "op_ok (OP_SBFE Size Width lsb Dst Src) \<longleftrightarrow> field_ok Size Width lsb \<and> guest_reg Dst \<and> guest_reg Src"
| "op_ok (OP_POPCOUNT Size Dst Src) \<longleftrightarrow> count_size Size \<and> guest_reg Dst \<and> guest_reg Src"
| "op_ok (OP_ADDNZCV Size S1 Src2) \<longleftrightarrow> count_size Size \<and> guest_reg S1 \<and> guest_operand Src2"
| "op_ok (OP_SUBNZCV Size Src1 Src2) \<longleftrightarrow> count_size Size \<and> guest_operand Src1 \<and> guest_operand Src2 \<and> (is_Reg Src1 \<or> is_Reg Src2)"
| "op_ok (OP_ADDWITHFLAGS Size Dst S1 Src2) \<longleftrightarrow> gpr_size Size \<and> guest_reg Dst \<and> guest_reg S1 \<and> guest_operand Src2"
| "op_ok (OP_SUBWITHFLAGS Size Dst Src1 Src2) \<longleftrightarrow>
     gpr_size Size \<and> guest_reg Dst \<and> guest_operand Src1 \<and> guest_operand Src2 \<and> (is_Reg Src1 \<or> is_Reg Src2)"
| "op_ok (OP_ANDWITHFLAGS Size Dst S1 Src2) \<longleftrightarrow> count_size Size \<and> guest_reg Dst \<and> guest_reg S1 \<and> guest_operand Src2"
| "op_ok (OP_TESTNZ Size S1 Src2) \<longleftrightarrow> count_size Size \<and> guest_reg S1 \<and> guest_operand Src2"
| "op_ok (OP_TESTZ Size S1 Src2) \<longleftrightarrow> count_size Size \<and> guest_reg S1 \<and> guest_operand Src2"
| "op_ok (OP_ADCWITHFLAGS Size Dst S1 S2) \<longleftrightarrow> gpr_size Size \<and> guest_reg Dst \<and> guest_reg S1 \<and> guest_reg S2"
| "op_ok (OP_SBBWITHFLAGS Size Dst S1 S2) \<longleftrightarrow> gpr_size Size \<and> guest_reg Dst \<and> guest_reg S1 \<and> guest_reg S2"
| "op_ok (OP_NZCVSELECT Size C Dst T F) \<longleftrightarrow> gpr_size Size \<and> guest_reg Dst \<and> select_operands Size T F \<and> flag_cond C"
| "op_ok (OP_NZCVSELECTINCREMENT Size C Dst T F) \<longleftrightarrow> gpr_size Size \<and> guest_reg Dst \<and> guest_operand T \<and> guest_operand F \<and> flag_cond C"
| "op_ok (OP_LOADNZCV Dst) \<longleftrightarrow> guest_reg Dst"
| "op_ok (OP_STORENZCV Src) \<longleftrightarrow> guest_reg Src"
| "op_ok OP_CARRYINVERT \<longleftrightarrow> True"
| "op_ok (OP_UMULL Dst S1 S2) \<longleftrightarrow> guest_reg Dst \<and> guest_reg S1 \<and> guest_reg S2"
| "op_ok (OP_SMULL Dst S1 S2) \<longleftrightarrow> guest_reg Dst \<and> guest_reg S1 \<and> guest_reg S2"
| "op_ok (OP_MULH Size Dst S1 S2) \<longleftrightarrow> gpr_size Size \<and> guest_reg Dst \<and> guest_reg S1 \<and> guest_reg S2"
| "op_ok (OP_UMULH Size Dst S1 S2) \<longleftrightarrow> gpr_size Size \<and> guest_reg Dst \<and> guest_reg S1 \<and> guest_reg S2"
| "op_ok (OP_BFI Size Width lsb Dst S1 Src) \<longleftrightarrow> field_ok Size Width lsb \<and> guest_reg Dst \<and> guest_reg S1 \<and> guest_reg Src"
| "op_ok (OP_BFXIL Size Width lsb Dst S1 Src) \<longleftrightarrow> field_ok Size Width lsb \<and> guest_reg Dst \<and> guest_reg S1 \<and> guest_reg Src"
| "op_ok (OP_EXTR Size LSB Dst S1 S2) \<longleftrightarrow> gpr_size Size \<and> guest_reg Dst \<and> guest_reg S1 \<and> guest_reg S2 \<and> unat LSB < size_bits Size"
| "op_ok (OP_COUNTLEADINGZEROES Size Dst Src) \<longleftrightarrow> count_size Size \<and> guest_reg Dst \<and> guest_reg Src"
| "op_ok (OP_FINDTRAILINGZEROES Size Dst Src) \<longleftrightarrow> count_size Size \<and> guest_reg Dst \<and> guest_reg Src"
| "op_ok (OP_PARITY Invert Dst Raw) \<longleftrightarrow> guest_reg Dst \<and> guest_reg Raw"
| "op_ok (OP_SETSMALLNZV Size Src) \<longleftrightarrow> Size \<in> {i8Bit, i16Bit} \<and> guest_reg Src"
| "op_ok (OP_ADCNZCV Size S1 S2) \<longleftrightarrow> gpr_size Size \<and> guest_reg S1 \<and> guest_reg S2"
| "op_ok (OP_SBBNZCV Size S1 S2) \<longleftrightarrow> gpr_size Size \<and> guest_reg S1 \<and> guest_reg S2"

text \<open>The destination whose upper half is unspecified when the operation's mask is elided.\<close>

definition loosened :: "IROp \<Rightarrow> GPR set" where
  "loosened op =
     (case op of
        OP_ADD Size Dst S1 Src2 \<Rightarrow> if Size = i32Bit then {Dst} else {}
      | OP_SUB Size Dst Src1 Src2 \<Rightarrow> if Size = i32Bit then {Dst} else {}
      | OP_NEG Size C Dst Src \<Rightarrow> if Size = i32Bit then {Dst} else {}
      | OP_NOT Size Dst Src \<Rightarrow> if Size = i32Bit then {Dst} else {}
      | OP_MUL Size Dst S1 Src2 \<Rightarrow> if Size = i32Bit then {Dst} else {}
      | OP_UMUL Size Dst S1 S2 \<Rightarrow> if Size = i32Bit then {Dst} else {}
      | OP_OR Size Dst S1 Src2 \<Rightarrow> if Size = i32Bit then {Dst} else {}
      | OP_AND Size Dst S1 Src2 \<Rightarrow> if Size = i32Bit then {Dst} else {}
      | OP_XOR Size Dst S1 Src2 \<Rightarrow> if Size = i32Bit then {Dst} else {}
      | OP_ANDN Size Dst S1 Src2 \<Rightarrow> if Size = i32Bit then {Dst} else {}
      | OP_ORLSHL Size Dst S1 S2 Amt \<Rightarrow> if Size = i32Bit then {Dst} else {}
      | OP_ORLSHR Size Dst S1 S2 Amt \<Rightarrow> if Size = i32Bit then {Dst} else {}
      | OP_ORNROR Size Dst S1 S2 Amt \<Rightarrow> if Size = i32Bit then {Dst} else {}
      | OP_XORSHIFT Size Dst S1 S2 Shift Amt \<Rightarrow> if Size = i32Bit then {Dst} else {}
      | OP_XORNSHIFT Size Dst S1 S2 Shift Amt \<Rightarrow> if Size = i32Bit then {Dst} else {}
      | OP_ANDSHIFT Size Dst S1 S2 Shift Amt \<Rightarrow> if Size = i32Bit then {Dst} else {}
      | OP_ADDSHIFT Size Dst S1 S2 Amt \<Rightarrow> if Size = i32Bit then {Dst} else {}
      | OP_SUBSHIFT Size Dst S1 S2 Amt \<Rightarrow> if Size = i32Bit then {Dst} else {}
      | OP_BFE Size Width lsb Dst Src \<Rightarrow> if Size = i64Bit \<and> Width = 32 \<and> lsb = 0 then {Dst} else {}
      | OP_NZCVSELECT Size C Dst T F \<Rightarrow> if Size = i32Bit then {Dst} else {}
      | OP_NZCVSELECTINCREMENT Size C Dst T F \<Rightarrow> if Size = i32Bit then {Dst} else {}
      | _ \<Rightarrow> {})"

subsection \<open>Reading the state off the machine\<close>

definition guest_of :: "PPC \<Rightarrow> Guest" where
  "guest_of s = \<lparr>g_reg = \<lambda>r. if guest_reg r \<or> r = r1 then gpr s r else 0, g_flags = machine_flags s, g_mem = mem s\<rparr>"

definition agree :: "GPR set \<Rightarrow> Guest \<Rightarrow> Guest \<Rightarrow> bool" where
  "agree D g g' \<longleftrightarrow> g_flags g' = g_flags g \<and> g_mem g' = g_mem g \<and> (\<forall>r. r \<notin> D \<longrightarrow> g_reg g' r = g_reg g r) \<and>
     (\<forall>r \<in> D. (ucast (g_reg g' r) :: u32) = ucast (g_reg g r))"

text \<open>A block, where an operation marked as elided may leave anything in the upper half of its destination.\<close>

inductive ir_steps :: "JitEnv \<Rightarrow> (bool \<times> IROp) list \<Rightarrow> Guest \<Rightarrow> Guest \<Rightarrow> bool" for env where
  "ir_steps env [] g g"
| "agree (if E then loosened op else {}) (ir_eval env op g) g1 \<Longrightarrow> ir_steps env ops g1 g' \<Longrightarrow> ir_steps env ((E, op) # ops) g g'"

definition caches_hold :: "JitCaches \<Rightarrow> PPC \<Rightarrow> bool" where
  "caches_hold c s \<longleftrightarrow> (XERProjectionValid c \<longrightarrow> projected s) \<and>
     (Const_Valid c \<longrightarrow> guest_reg (Const_Reg c) \<and> gpr s (Const_Reg c) = Const_Value c)"

definition simulates :: "(u32 \<Rightarrow> PPC \<Rightarrow> PPC option) \<Rightarrow> insn list \<Rightarrow> PPC \<Rightarrow> GPR set \<Rightarrow> Guest \<Rightarrow> (PPC \<Rightarrow> bool) \<Rightarrow> bool" where
  "simulates step is s D g ok \<longleftrightarrow> (\<exists>t. run step is s = Some t \<and> agree D g (guest_of t) \<and> gpr t r0 = gpr s r0 \<and> ok t)"

lemma agree_empty [simp]: "agree {} g g' \<longleftrightarrow> g' = g"
proof
  assume "agree {} g g'"
  then have "g_reg g' = g_reg g" "g_flags g' = g_flags g" "g_mem g' = g_mem g" by (auto simp: agree_def)
  then show "g' = g" by (cases g, cases g') simp
qed (simp add: agree_def)

lemma guest_of_simps [simp]:
  "guest_reg r \<Longrightarrow> g_reg (guest_of s) r = gpr s r" "g_reg (guest_of s) r1 = gpr s r1"
  "g_flags (guest_of s) = machine_flags s" "g_mem (guest_of s) = mem s"
  by (simp_all add: guest_of_def)

lemma guest_reg_special [simp]: "guest_reg REG_PF" "guest_reg REG_AF" "\<not> guest_reg r1" "\<not> guest_reg r0"
  by (simp_all add: guest_reg_def r1_def r0_def x64_SRA_def x64_RA_def x32_SRA_def x32_RA_def REG_PF_def REG_AF_def)

lemma g_value_guest_of [simp]: "guest_operand x \<Longrightarrow> g_value (guest_of s) x = value_of s x"
  by (cases x) simp_all

lemma g_load_guest_of [simp]: "g_load n (guest_of s) ea = load_le n s ea"
  by (simp add: g_load_def load_le_def load_bytes_def)

lemma g_address_guest_of [simp]:
  "access_operands Addr Offset Scale \<Longrightarrow> g_address (guest_of s) Addr Offset Type Scale = effective_address s Addr Offset Type Scale"
  by (auto simp: g_address_def effective_address_def access_operands_def offset_value_def split: option.splits operand.splits MemOffsetType.splits)

lemma g_slot_guest_of [simp]: "g_slot (guest_of s) Slot = slot_address s Slot"
  by (simp add: g_slot_def slot_address_def)

lemma guest_of_store [simp]: "guest_of (store_le n v ea s) = g_store n v ea (guest_of s)"
  by (simp add: guest_of_def g_store_def store_le_def store_bytes_def machine_flags_def fun_eq_iff)

lemma result_is_sized: "result_is Size False v w \<longleftrightarrow> v = sized Size w"
  by (auto simp: result_is_def sized_def)

lemma sized_low: "Size = i32Bit \<Longrightarrow> (ucast (sized Size w) :: u32) = ucast w"
  by (simp add: sized_def)

lemma guest_reg_not_scratch [simp]: "guest_reg r \<Longrightarrow> r \<notin> scratch" "r1 \<notin> scratch" "r0 \<notin> scratch"
  by (auto simp: scratch_def) (simp_all add: r1_def tmp_defs)

lemma guest_of_frame:
  assumes "\<forall>r. r \<notin> insert Dst scratch \<longrightarrow> gpr t r = gpr s r" "guest_reg Dst" "mem t = mem s"
  shows "guest_of t = (g_put Dst (gpr t Dst) (guest_of s))\<lparr>g_flags := machine_flags t\<rparr>" "gpr t r0 = gpr s r0"
proof -
  have "r1 \<noteq> Dst" "r0 \<noteq> Dst" using assms(2) by auto
  then show "guest_of t = (g_put Dst (gpr t Dst) (guest_of s))\<lparr>g_flags := machine_flags t\<rparr>" "gpr t r0 = gpr s r0"
    using assms by (simp_all add: guest_of_def g_put_def fun_eq_iff)
qed

lemma guest_of_frame_scratch:
  assumes "\<forall>r. r \<notin> scratch \<longrightarrow> gpr t r = gpr s r" "mem t = mem s"
  shows "guest_of t = (guest_of s)\<lparr>g_flags := machine_flags t\<rparr>" "gpr t r0 = gpr s r0"
  using assms by (simp_all add: guest_of_def fun_eq_iff)

lemma agree_put_low:
  assumes "Size = i32Bit \<and> E \<or> v = w" "(ucast v :: u32) = ucast w"
  shows "agree (if E then if Size = i32Bit then {Dst} else {} else {}) (g_put Dst w g) (g_put Dst v g)"
  using assms by (auto simp: agree_def g_put_def)

text \<open>The contracts of the handlers, read as simulations.\<close>

lemma simulates_written:
  assumes "run step is s = Some t" "\<forall>r. r \<notin> insert Dst scratch \<longrightarrow> gpr t r = gpr s r" "machine_flags t = machine_flags s" "mem t = mem s"
    and "guest_reg Dst" "result_is Size E (gpr t Dst) w" "ok t"
  shows "simulates step is s (if E then if Size = i32Bit then {Dst} else {} else {}) (g_put Dst (sized Size w) (guest_of s)) ok"
proof -
  have "guest_of t = g_put Dst (gpr t Dst) (guest_of s)" "gpr t r0 = gpr s r0"
    using guest_of_frame [OF assms(2,5,4)] assms(3) by (auto simp: g_put_def guest_of_def)
  moreover have "Size = i32Bit \<and> E \<or> gpr t Dst = sized Size w" "(ucast (gpr t Dst) :: u32) = ucast (sized Size w)"
    using assms(6) by (auto simp: result_is_def sized_def split: if_splits)
  ultimately show ?thesis unfolding simulates_def using assms(1,7) agree_put_low by metis
qed

lemma keeps_flags: "keeps R s t \<Longrightarrow> machine_flags t = machine_flags s" "keeps R s t \<Longrightarrow> projected t = projected s"
  by (simp_all add: keeps_def machine_flags_def projected_def)

lemma simulates_value:
  assumes "computes step is s Dst (\<lambda>v. result_is Size E v w)" "guest_reg Dst" "D = (if E then if Size = i32Bit then {Dst} else {} else {})"
    and "g = g_put Dst (sized Size w) (guest_of s)" "\<And>t. ok t"
  shows "simulates step is s D g ok"
  using assms(1,2,5) simulates_written keeps_flags(1) unfolding assms(3,4) computes_def keeps_def by metis

lemma simulates_exact:
  assumes "computes step is s Dst (\<lambda>v. v = w)" "guest_reg Dst" "D = {}" "g = g_put Dst w (guest_of s)"
    and "\<And>t. keeps (insert Dst scratch) s t \<Longrightarrow> gpr t Dst = w \<Longrightarrow> ok t"
  shows "simulates step is s D g ok"
proof -
  obtain t where "run step is s = Some t" "keeps (insert Dst scratch) s t" "gpr t Dst = w" using assms(1) by (auto simp: computes_def)
  then have "simulates step is s {} (g_put Dst (sized i64Bit w) (guest_of s)) ok"
    using simulates_written [of step "is" s t Dst i64Bit False w ok] assms(2,5) keeps_flags(1) [of "insert Dst scratch" s t] by (simp add: keeps_def result_is_def)
  then show ?thesis using assms(3,4) by (simp add: sized_def)
qed

lemma simulates_cond:
  assumes "\<exists>t. run step is s = Some t \<and> keeps_cond (insert Dst scratch) s t \<and> P t \<and> result_is Size E (gpr t Dst) w" "guest_reg Dst"
    and "D = (if E then if Size = i32Bit then {Dst} else {} else {})" "g = g_put Dst (sized Size w) (guest_of s)" "\<And>t. P t \<Longrightarrow> ok t"
  shows "simulates step is s D g ok"
proof -
  obtain t where t: "run step is s = Some t" "ok t" "result_is Size E (gpr t Dst) w" and k: "keeps_cond (insert Dst scratch) s t"
    using assms(1,5) by auto
  have "machine_flags t = machine_flags s" using k by (auto simp: keeps_cond_def machine_flags_def)
  then show ?thesis unfolding assms(3,4) using simulates_written [of step "is" s t Dst Size E w ok] t assms(2) k
    by (simp add: keeps_cond_def)
qed

lemma simulates_flags:
  assumes "sets_flags step is s scratch F P" "D = {}" "g = (guest_of s)\<lparr>g_flags := F\<rparr>" "\<And>t. ok t"
  shows "simulates step is s D g ok"
  using assms guest_of_frame_scratch by (auto simp: sets_flags_def simulates_def keeps_but_flags_def)

lemma simulates_flags_exact:
  assumes "sets_flags step is s (insert Dst scratch) F (\<lambda>t. gpr t Dst = w)" "guest_reg Dst" "D = {}" "g = (g_put Dst w (guest_of s))\<lparr>g_flags := F\<rparr>"
    and "\<And>t. ok t"
  shows "simulates step is s D g ok"
proof -
  obtain t where "run step is s = Some t" "keeps_but_flags (insert Dst scratch) s t" "machine_flags t = F" "gpr t Dst = w"
    using assms(1) by (auto simp: sets_flags_def)
  then show ?thesis using guest_of_frame [of Dst t s] assms(2-5) by (auto simp: simulates_def keeps_but_flags_def)
qed

lemmas simulates_flags_value = simulates_flags_exact [where w = "sized Size w" for Size w, folded result_is_sized]

lemma simulates_stores:
  assumes "stores step is s n v ea" "D = {}" "g = g_store n v ea (guest_of s)" "\<And>t. ok t"
  shows "simulates step is s D g ok"
proof -
  obtain t where t: "run step is s = Some t" "keeps scratch (store_le n v ea s) t" using assms by (auto simp: stores_def)
  then have "machine_flags t = machine_flags (store_le n v ea s)" by (simp add: keeps_flags(1))
  moreover have "guest_of t = (guest_of (store_le n v ea s))\<lparr>g_flags := machine_flags t\<rparr>" "gpr t r0 = gpr (store_le n v ea s) r0"
    using guest_of_frame_scratch [of t "store_le n v ea s"] t(2) by (simp_all add: keeps_def)
  moreover have "gpr (store_le n v ea s) r0 = gpr s r0" "machine_flags (store_le n v ea s) = machine_flags s"
    by (simp_all add: store_le_def store_bytes_def machine_flags_def)
  ultimately show ?thesis using t(1) assms(2-4) by (auto simp: simulates_def g_store_def)
qed

lemma simulates_nothing: "D = {} \<Longrightarrow> g = guest_of s \<Longrightarrow> ok s \<Longrightarrow> simulates step [] s D g ok"
  by (simp add: simulates_def)

lemma caches_dropped [simp]: "\<not> Const_Valid c \<Longrightarrow> \<not> XERProjectionValid c \<Longrightarrow> caches_hold c s"
  by (simp add: caches_hold_def)

lemma caches_projected [simp]: "caches_hold c s \<Longrightarrow> XERProjectionValid c \<Longrightarrow> projected s"
  by (simp add: caches_hold_def)

lemma general_guest [simp]: "r \<in> set (GeneralRegisters env) \<Longrightarrow> guest_reg r"
  by (auto simp: GeneralRegisters_def guest_reg_def split: if_splits)

lemma flag_carry: "FlagC (machine_flags s) = ca s"
  by (simp add: machine_flags_def)

lemma not_both_constants: "is_Reg x \<or> is_Reg y \<Longrightarrow> \<not> (\<exists>c d. x = InlineConstant c \<and> y = InlineConstant d)"
  by auto

text \<open>Every operation outside the lists drops both caches; those in them keep what they established.\<close>

lemma caches_after:
  "(\<forall>Dst K. op \<noteq> OP_CONSTANT Dst K) \<Longrightarrow> (\<forall>Size Dst Offset. op \<noteq> OP_ENTRYPOINTOFFSET Size Dst Offset) \<Longrightarrow> \<not> kOpCacheKeepXER op \<Longrightarrow>
    caches_hold (after_handler env c op) t"
  "caches_hold c s \<Longrightarrow> caches_hold (after_handler env c OP_INLINECONSTANT) s"
  "caches_hold c s \<Longrightarrow> keeps (insert Dst scratch) s t \<Longrightarrow> caches_hold (after_handler env c (OP_LOADREGISTER Dst Src)) t"
  "caches_hold c s \<Longrightarrow> keeps (insert Dst scratch) s t \<Longrightarrow> caches_hold (after_handler env c (OP_STOREREGISTER Dst Src)) t"
  "caches_hold c s \<Longrightarrow> keeps (insert Dst scratch) s t \<Longrightarrow> gpr t Dst = K \<Longrightarrow> caches_hold (after_handler env c (OP_CONSTANT Dst K)) t"
  "gpr t Dst = EntrypointOffsetValue env Size Offset \<Longrightarrow> caches_hold (after_handler env c (OP_ENTRYPOINTOFFSET Size Dst Offset)) t"
  "(snd (snd (MapNZCVCC False (XERProjectionValid c) (IntegerNZCVCond C))) \<longrightarrow> projected t) \<Longrightarrow>
    caches_hold (after_handler env c (OP_NZCVSELECT Size C Dst T F)) t"
  "(snd (snd (MapNZCVCC False (XERProjectionValid c) (IntegerNZCVCond C))) \<longrightarrow> projected t) \<Longrightarrow>
    caches_hold (after_handler env c (OP_NZCVSELECTINCREMENT Size C Dst T F)) t"
  subgoal by (cases op) (simp_all add: after_handler_def caches_hold_def)
  by (auto simp: after_handler_def caches_hold_def kOpCacheKeepXER_def projection_after_def keeps_flags(2) Let_def)

context ppc_mem
begin

lemma run_delta:
  assumes "caches_hold c s" "Const_Valid c" "- 32768 \<le> sint (C - Const_Value c)" "sint (C - Const_Value c) \<le> 32767" "Const_Reg c \<noteq> r0"
  shows "run step [addi Dst (Const_Reg c) (ucast (C - Const_Value c))] s = Some (setr Dst C s)"
  using assms by (simp add: step_addi scast_imm16 caches_hold_def)

lemma computes_Constant:
  assumes "caches_hold c s"
  shows "computes step (Op_Constant env c Dst C) s Dst (\<lambda>v. v = C)"
proof (rule computesI)
  show "run step (Op_Constant env c Dst C) s = Some (setr Dst C s)"
    using assms run_delta [OF assms] by (auto simp: Op_Constant_def Let_def run_LoadConstant step_mr caches_hold_def)
qed simp_all

lemma computes_EntrypointOffset:
  assumes "caches_hold c s"
  shows "computes step (Op_EntrypointOffset env c Size Dst Offset) s Dst (\<lambda>v. v = EntrypointOffsetValue env Size Offset)"
proof (rule computesI)
  show "run step (Op_EntrypointOffset env c Size Dst Offset) s = Some (setr Dst (EntrypointOffsetValue env Size Offset) s)"
    using assms run_delta [OF assms]
    by (auto simp: Op_EntrypointOffset_def InsertEntrypointRIPMove_def Let_def run_LoadConstant run_LoadImm64Fixed step_mr caches_hold_def)
qed simp_all

lemma stores_SpillRegister:
  assumes "slot_ok Size Slot" "guest_reg GSrc"
  shows "stores step (Op_SpillRegister cfg Size GSrc Slot) s (OpSizeToSize Size) (gpr s GSrc) (slot_address s Slot)"
proof -
  obtain t where "run step (Op_SpillRegister cfg Size GSrc Slot) s = Some (store_le (OpSizeToSize Size) (gpr s GSrc) (slot_address s Slot) t)" "keeps {TMP1} s t"
    using run_SpillRegister [OF assms] by blast
  moreover from this(2) have "keeps scratch (store_le n v ea s) (store_le n v ea t)" for n v ea
    by (auto simp: keeps_def scratch_def store_le_def store_bytes_def)
  ultimately show ?thesis unfolding stores_def by blast
qed

lemma computes_LoadMemTSO:
  assumes "count_size Size" "access_operands Addr Offset OffsetScale"
  shows "computes step (Op_LoadMemTSO cfg Size Dst Addr Offset OffsetType OffsetScale) s Dst
    (\<lambda>v. v = load_le (OpSizeToSize Size) s (effective_address s Addr Offset OffsetType OffsetScale))"
  using computes_LoadMem [OF assms] unfolding computes_def run_LoadMemTSO .

lemma computes_AddShift_by:
  assumes "guest_reg Dst" "guest_reg S1" "guest_reg S2" "gpr_size Size" "0 < unat Amt" "unat Amt < 64"
  shows "computes step (Op_AddShift Size E Dst S1 S2 Amt) s Dst (\<lambda>v. result_is Size E v (gpr s S1 + push_bit (unat Amt) (gpr s S2)))"
  using computes_AddShift [OF assms(1-4,6), of E s] assms(5) by (cases "Amt = 0") simp_all

lemma simulates_Bfe:
  assumes "guest_reg Dst" "guest_reg Src" "field_ok Size Width lsb" "D = (if E then if Size = i64Bit \<and> Width = 32 \<and> lsb = 0 then {Dst} else {} else {})"
    and "g = g_put Dst (bits_of (unat Width) (unat lsb) (gpr s Src)) (guest_of s)" "\<And>t. ok t"
  shows "simulates step (Op_Bfe Size E Width lsb Dst Src) s D g ok"
proof (cases "E \<and> Size = i64Bit \<and> Width = 32 \<and> lsb = 0")
  case True
  have low: "(ucast (bits_of 32 0 (gpr s Src)) :: u32) = ucast (gpr s Src)" by (rule bit_word_eqI) (simp add: bit_ucast_iff bit_bits_of)
  then have "sized i32Bit (gpr s Src) = bits_of 32 0 (gpr s Src)" 
    by (intro bit_word_eqI) (auto simp: sized_def bit_ucast_iff bit_bits_of)
  moreover have "computes step (Op_Bfe Size E Width lsb Dst Src) s Dst (\<lambda>v. result_is i32Bit True v (gpr s Src))"
    using computes_Bfe [OF assms(1-3), of E s] True by (simp add: result_is_def)
  ultimately show ?thesis using assms True by (intro simulates_value [of _ _ _ _ i32Bit True]) auto
next
  case False
  then have "computes step (Op_Bfe Size E Width lsb Dst Src) s Dst (\<lambda>v. v = bits_of (unat Width) (unat lsb) (gpr s Src))"
    using computes_Bfe [OF assms(1-3), of E s] by (simp only: if_False)
  then show ?thesis using assms False by (intro simulates_exact) auto
qed

lemma select_negates:
  assumes "guest_reg Dst" "guest_reg Src" "gpr_size Size" "C = AL \<or> flag_cond C" "Valid \<longrightarrow> projected s"
  shows "\<exists>s'. run step (Op_Neg False Valid Size Elided C Dst Src) s = Some s' \<and> keeps_cond (insert Dst scratch) s s' \<and> True \<and>
    result_is Size Elided (gpr s' Dst) (if cond_holds C (machine_flags s) then - gpr s Src else gpr s Src)"
  using select_Neg [OF assms] by simp

lemma flags_SetSmallNZV_sized:
  assumes "guest_reg Src" "Size \<in> {i8Bit, i16Bit}"
  shows "sets_flags step (Op_SetSmallNZV Size Src) s scratch
    ((logic_flags_at Size (gpr s Src))\<lparr>FlagC := ca s,
       FlagV := bit (gpr s Src) (8 * OpSizeToSize Size) \<noteq> bit (gpr s Src) (8 * OpSizeToSize Size - 1)\<rparr>) (\<lambda>_. True)"
  using flags_SetSmallNZV [OF assms(1), of Size "8 * OpSizeToSize Size"] assms(2) by auto

lemmas value_operations =
  simulates_value [OF computes_Add] simulates_value [OF computes_Sub[OF _ _ _ _ not_both_constants]]
  simulates_value [OF computes_Not] simulates_value [OF computes_Mul] simulates_value [OF computes_UMul]
  simulates_value [OF computes_Or] simulates_value [OF computes_And] simulates_value [OF computes_Xor]
  simulates_value [OF computes_Andn] simulates_value [OF computes_or_shifted(1)] simulates_value [OF computes_or_shifted(2)]
  simulates_value [OF computes_or_shifted(3)] simulates_value [OF computes_shifted(1)] simulates_value [OF computes_shifted(2)]
  simulates_value [OF computes_shifted(3)] simulates_value [OF computes_AddShift_by] simulates_value [OF computes_SubShift]
  simulates_value [OF computes_Sbfe]

lemmas exact_operations =
  simulates_exact [OF computes_Constant] simulates_exact [OF computes_EntrypointOffset] simulates_exact [OF computes_Copy]
  simulates_exact [OF computes_moves(1)] simulates_exact [OF computes_moves(2)] simulates_exact [OF computes_moves(4)]
  simulates_exact [OF computes_moves(5)] simulates_exact [OF computes_moves(6)] simulates_exact [OF computes_moves(7)]
  simulates_exact [OF computes_FillRegister] simulates_exact [OF computes_LoadMem] simulates_exact [OF computes_LoadMemTSO]
  simulates_exact [OF computes_Lshl] simulates_exact [OF computes_Lshr] simulates_exact [OF computes_Ashr]
  simulates_exact [OF computes_Ror] simulates_exact [OF computes_Popcount] simulates_exact [OF computes_LoadNZCV]
  simulates_exact [OF computes_UMull] simulates_exact [OF computes_SMull] simulates_exact [OF computes_MulH]
  simulates_exact [OF computes_UMulH] simulates_exact [OF computes_Bfi] simulates_exact [OF computes_Bfxil]
  simulates_exact [OF computes_Extr] simulates_exact [OF computes_CountLeadingZeroes]
  simulates_exact [OF computes_FindTrailingZeroes] simulates_exact [OF computes_Parity]

lemmas flag_operations =
  simulates_flags [OF flags_AddNZCV] simulates_flags [OF flags_SubNZCV[OF _ _ not_both_constants]] simulates_flags [OF flags_TestNZ]
  simulates_flags [OF flags_TestZ] simulates_flags [OF flags_StoreNZCV] simulates_flags [OF flags_CarryInvert]
  simulates_flags [OF flags_SetSmallNZV_sized] simulates_flags [OF flags_AdcNZCV] simulates_flags [OF flags_SbbNZCV]

lemmas flag_value_operations =
  simulates_flags_value [OF flags_AddWithFlags] simulates_flags_value [OF flags_SubWithFlags[OF _ _ _ not_both_constants]]
  simulates_flags_value [OF flags_AdcWithFlags] simulates_flags_value [OF flags_SbbWithFlags]

lemmas operations_simulate =
  simulates_nothing value_operations exact_operations flag_operations flag_value_operations simulates_flags_exact [OF flags_AndWithFlags]
  simulates_stores [OF stores_StoreMem] simulates_stores [OF stores_StoreMemTSO] simulates_stores [OF stores_SpillRegister] simulates_Bfe
  simulates_cond [OF select_NZCVSelect] simulates_cond [OF select_NZCVSelectIncrement] simulates_cond [OF select_negates]

lemma handler_simulates:
  assumes "op_ok op" "caches_hold c s" "gpr s r0 = 0"
  shows "simulates step (handler env c E op) s (if E then loosened op else {}) (ir_eval env op (guest_of s)) (caches_hold (after_handler env c op))"
  by (insert assms, cases op; simp only: handler.simps; rule operations_simulate;
      simp add: loosened_def caches_after kOpCacheKeepXER_def chosen_def flag_carry select_operands_def)

lemma emit_ops_simulates:
  assumes "\<forall>x \<in> set ops. op_ok (snd x)" "caches_hold c s" "gpr s r0 = 0"
  shows "\<exists>t. run step (fst (emit_ops env c ops)) s = Some t \<and> ir_steps env ops (guest_of s) (guest_of t) \<and>
    caches_hold (snd (emit_ops env c ops)) t \<and> gpr t r0 = 0"
  using assms
proof (induction ops arbitrary: c s)
  case Nil
  then show ?case by (auto intro: ir_steps.intros)
next
  case (Cons x ops)
  obtain E op where x: "x = (E, op)" by force
  obtain u where u: "run step (handler env c E op) s = Some u" "agree (if E then loosened op else {}) (ir_eval env op (guest_of s)) (guest_of u)"
    "gpr u r0 = 0" "caches_hold (after_handler env c op) u"
    using handler_simulates [of op c s env E] Cons.prems x by (auto simp: simulates_def)
  then obtain t where "run step (fst (emit_ops env (after_handler env c op) ops)) u = Some t" "ir_steps env ops (guest_of u) (guest_of t)"
    "caches_hold (snd (emit_ops env (after_handler env c op) ops)) t" "gpr t r0 = 0"
    using Cons.IH [OF _ u(4,3)] Cons.prems(1) by auto
  then show ?case using u(1,2) by (auto simp: x run_append split: prod.splits intro: ir_steps.intros)
qed

end

lemma ir_steps_exact: "ir_steps env ops g g' \<Longrightarrow> \<forall>x \<in> set ops. \<not> fst x \<Longrightarrow> g' = ir_run env (map snd ops) g"
  by (induction rule: ir_steps.induct) (auto simp: ir_run_def)

lemma emit_ops_append:
  "emit_ops env c (ops @ ops') =
     (let (code, c') = emit_ops env c ops; (rest, c'') = emit_ops env c' ops' in (code @ rest, c''))"
  by (induction ops arbitrary: c) (auto split: prod.splits)

subsection \<open>Properties\<close>

text \<open>
  C1: The code emitted for a block of integer IR operations implements the block.  Started in any state in which r0 holds zero, it runs to
  its end, and the registers, flags and memory it leaves are those the operations define one after the other (\<open>ir_run\<close>): the scratch
  registers, the condition fields used to evaluate conditions, the constants reused from earlier operations and the carry and overflow bits
  mirrored into CR1 do not show.  Where masks were elided the upper halves of those destinations are left open (\<open>ir_steps\<close>).
\<close>

theorem block_refines:
  assumes "\<forall>x \<in> set ops. op_ok (snd x)" "gpr s r0 = 0"
  shows "\<exists>t. run isa_step (fst (emit_ops env block_entry ops)) s = Some t \<and> ir_steps env ops (guest_of s) (guest_of t) \<and> gpr t r0 = 0 \<and>
    ((\<forall>x \<in> set ops. \<not> fst x) \<longrightarrow> guest_of t = ir_run env (map snd ops) (guest_of s))"
  using ppcm.emit_ops_simulates [OF assms(1) _ assms(2), of block_entry env] ir_steps_exact by (fastforce simp: block_entry_def)

definition default_env :: JitEnv where
  "default_env = \<lparr>Cfg = default_config, Is64Bit = True, ConstCacheDisabled = False, ExitRIPFixedWidth = False, Entry = 0x400000\<rparr>"

definition select_block :: "(bool \<times> IROp) list" where
  "select_block = [(False, OP_CONSTANT 24 0x12345678), (False, OP_CONSTANT 25 0x12345680), (False, OP_SUBNZCV i64Bit (Reg 24) (Reg 25)),
     (False, OP_NZCVSELECT i64Bit SLT 7 (Reg 24) (Reg 25)), (False, OP_STOREREGISTER 8 7)]"

theorem block_refines_witness:
  "\<exists>t. run isa_step (fst (emit_ops default_env block_entry select_block)) (machine_at []) = Some t \<and>
    g_reg (guest_of t) 8 = 0x12345678"
  using block_refines [of select_block "machine_at []" default_env]
  by (auto simp: select_block_def ir_run_def g_put_def chosen_def sub_flags_at_def sub_flags_def add_flags_def select_operands_def flag_cond_def
      count_size_def sized_def decide_operation simp del: guest_of_simps(1))

text \<open>
  C3: At every point of a block what the emission remembers is true of the machine.  After the code of any prefix of the block, a valid
  \<open>LastConstantCache\<close> names a register that holds the recorded constant, and \<open>XERProjectionValid\<close> is set only if CR1 mirrors carry and
  overflow, so the code emitted next may rely on both.
\<close>

theorem emission_caches_true:
  assumes "\<forall>x \<in> set (ops @ rest). op_ok (snd x)" "gpr s r0 = 0"
  shows "\<exists>t later. run isa_step (fst (emit_ops env block_entry ops)) s = Some t \<and> caches_hold (snd (emit_ops env block_entry ops)) t \<and>
    emit_ops env block_entry (ops @ rest) = (fst (emit_ops env block_entry ops) @ fst later, snd later) \<and>
    later = emit_ops env (snd (emit_ops env block_entry ops)) rest"
  using ppcm.emit_ops_simulates [of ops block_entry s env] assms by (auto simp: emit_ops_append block_entry_def split: prod.splits)

theorem emission_caches_true_witness:
  "\<exists>t. run isa_step (fst (emit_ops default_env block_entry [(False, OP_CONSTANT 24 0x12345678)])) (machine_at []) = Some t \<and>
    Const_Valid (snd (emit_ops default_env block_entry [(False, OP_CONSTANT 24 0x12345678)])) \<and> gpr t 24 = 0x12345678 \<and>
    fst (emit_ops default_env (snd (emit_ops default_env block_entry [(False, OP_CONSTANT 24 0x12345678)])) [(False, OP_CONSTANT 25 0x12345680)]) =
      [addi 25 24 8]"
  using emission_caches_true [of "[(False, OP_CONSTANT 24 0x12345678)]" "[(False, OP_CONSTANT 25 0x12345680)]" "machine_at []" default_env]
  by (auto simp: caches_hold_def after_handler_def Op_Constant_def GeneralRegisters_def x64_RA_def default_env_def block_entry_def r0_def
      decide_operation)

end
