(* ===== verification/Zext_Elision.thy ===== *)
theory Zext_Elision
  imports Ir_Refine
begin

text \<open>
  The producer side of \<open>ComputeHighZeroElision\<close> (\<open>JIT/PPC64LE/JIT.cpp\<close>): a walk over a block that tracks which host registers hold a
  value below 2^32, and drops the zero-extending tail of every 32-bit operation whose result is below 2^32 already.  The facts are the
  bits of \<open>HighZeroRegs\<close>.  The main lemma, \<open>high_zero_sound\<close>, is that the additional elisions cannot be observed: whatever the block does
  with the elisions the walk was given, it does with those the walk returns.
\<close>

subsection \<open>The walk\<close>

datatype Act = Transparent | Opaque | Write GPR bool

definition RegBit :: "GPR \<Rightarrow> u32" where
  "RegBit R = push_bit (unat R) 1"

definition reg_high_zero :: "u32 \<Rightarrow> GPR \<Rightarrow> bool" where
  "reg_high_zero HighZeroRegs R \<longleftrightarrow> HighZeroRegs AND RegBit R \<noteq> 0"

primrec OperandHighZero :: "u32 \<Rightarrow> operand \<Rightarrow> bool" where
  "OperandHighZero HighZeroRegs (InlineConstant C) \<longleftrightarrow> drop_bit 32 C = 0"
| "OperandHighZero HighZeroRegs (Reg R) \<longleftrightarrow> reg_high_zero HighZeroRegs R"

definition ShiftedTempHighZero :: "ShiftType \<Rightarrow> u8 \<Rightarrow> bool \<Rightarrow> bool" where
  "ShiftedTempHighZero S Amt Is32 \<longleftrightarrow> Is32 \<and> Amt \<noteq> 0 \<and> (S = LSL \<or> S = LSR \<or> S = ROR)"

definition ConstMaskHighZero :: "u32 \<Rightarrow> bool \<Rightarrow> operand \<Rightarrow> bool" where
  "ConstMaskHighZero HighZeroRegs MaskSize W =
     (case W of
        Reg R \<Rightarrow> OperandHighZero HighZeroRegs W
      | InlineConstant C \<Rightarrow> drop_bit 32 C = 0 \<and> Kind (ClassifyAndMask C MaskSize) \<notin> {Move, ClearRight, InsertZeroField})"

definition PreZero :: "u32 \<Rightarrow> IROp \<Rightarrow> bool" where
  "PreZero H op =
     (case op of
        OP_AND Size Dst S1 Src2 \<Rightarrow> reg_high_zero H S1 \<or> ConstMaskHighZero H (Size = i32Bit) Src2
      | OP_OR Size Dst S1 Src2 \<Rightarrow> reg_high_zero H S1 \<and> OperandHighZero H Src2
      | OP_XOR Size Dst S1 Src2 \<Rightarrow> reg_high_zero H S1 \<and> OperandHighZero H Src2
      | OP_ANDN Size Dst S1 Src2 \<Rightarrow> reg_high_zero H S1
      | OP_ANDSHIFT Size Dst S1 S2 Shift Amt \<Rightarrow> ShiftedTempHighZero Shift Amt (Size = i32Bit) \<or> reg_high_zero H S1
      | OP_XORSHIFT Size Dst S1 S2 Shift Amt \<Rightarrow> ShiftedTempHighZero Shift Amt (Size = i32Bit) \<and> reg_high_zero H S1
      | _ \<Rightarrow> False)"

text \<open>What an operation that ends in \<open>Mask32Tail\<close> does: whether its mask goes, and the fact about its destination.\<close>

definition carrier :: "u32 \<Rightarrow> bool \<Rightarrow> IROp \<Rightarrow> OpSize \<Rightarrow> GPR \<Rightarrow> bool \<times> Act" where
  "carrier H ConsumerElided op Size Dst =
     (let MaskSize = (Size = i32Bit) in
      (ConsumerElided \<or> MaskSize \<and> PreZero H op, Write Dst (PreZero H op \<or> MaskSize \<and> \<not> ConsumerElided)))"

definition HighZeroAct :: "u32 \<Rightarrow> bool \<Rightarrow> IROp \<Rightarrow> bool \<times> Act" where
  "HighZeroAct H E op =
     (case op of
        OP_DUMMY \<Rightarrow> (E, Transparent)
      | OP_BEGINBLOCK \<Rightarrow> (E, Transparent)
      | OP_ENDBLOCK \<Rightarrow> (E, Transparent)
      | OP_INVALIDATEFLAGS \<Rightarrow> (E, Transparent)
      | OP_INLINECONSTANT \<Rightarrow> (E, Transparent)
      | OP_INLINEENTRYPOINTOFFSET \<Rightarrow> (E, Transparent)
      | OP_GUESTOPCODE \<Rightarrow> (E, Transparent)
      | OP_SPILLREGISTER Size Src Slot \<Rightarrow> (E, Transparent)
      | OP_LOADMEM Size Dst Addr Offset Type Scale \<Rightarrow> (E, Write Dst (size_le_32 Size))
      | OP_LOADMEMTSO Size Dst Addr Offset Type Scale \<Rightarrow> (E, Write Dst (size_le_32 Size))
      | OP_FILLREGISTER Size Dst Slot \<Rightarrow> (E, Write Dst (OpSizeToSize Size \<le> 4))
      | OP_LSHL Size Dst S1 Src2 \<Rightarrow> (E, Write Dst (size_le_32 Size))
      | OP_LSHR Size Dst S1 Src2 \<Rightarrow> (E, Write Dst (size_le_32 Size))
      | OP_ASHR Size Dst S1 Src2 \<Rightarrow> (E, Write Dst (size_le_32 Size))
      | OP_ROR Size Dst S1 Src2 \<Rightarrow> (E, Write Dst (size_le_32 Size))
      | OP_BFE Size Width lsb Dst Src \<Rightarrow>
          if size_le_32 Size then (E, Write Dst (1 \<le> Width \<and> Width \<le> 32))
          else if Width = 32 \<and> lsb = 0 then
            let SrcZero = reg_high_zero H Src in
            if E then (E, Write Dst SrcZero) else (SrcZero, Write Dst True)
          else (E, Write Dst (Width \<le> 32))
      | OP_SBFE Size Width lsb Dst Src \<Rightarrow> (E, Write Dst (size_le_32 Size))
      | OP_POPCOUNT Size Dst Src \<Rightarrow> (E, Write Dst True)
      | OP_CONSTANT Dst C \<Rightarrow> (E, Write Dst (drop_bit 32 C = 0))
      | OP_COPY Dst Src \<Rightarrow> (E, Write Dst (reg_high_zero H Src))
      | OP_LOADREGISTER Dst Src \<Rightarrow> (E, Write Dst (reg_high_zero H Src))
      | OP_STOREREGISTER Dst Src \<Rightarrow> (E, Write Dst (reg_high_zero H Src))
      | OP_LOADPF Dst \<Rightarrow> (E, Write Dst (reg_high_zero H REG_PF))
      | OP_LOADAF Dst \<Rightarrow> (E, Write Dst (reg_high_zero H REG_AF))
      | OP_STOREPF Src \<Rightarrow> (E, Write REG_PF (reg_high_zero H Src))
      | OP_STOREAF Src \<Rightarrow> (E, Write REG_AF (reg_high_zero H Src))
      | OP_AND Size Dst S1 Src2 \<Rightarrow> carrier H E op Size Dst
      | OP_OR Size Dst S1 Src2 \<Rightarrow> carrier H E op Size Dst
      | OP_XOR Size Dst S1 Src2 \<Rightarrow> carrier H E op Size Dst
      | OP_ANDN Size Dst S1 Src2 \<Rightarrow> carrier H E op Size Dst
      | OP_ANDSHIFT Size Dst S1 S2 Shift Amt \<Rightarrow> carrier H E op Size Dst
      | OP_XORSHIFT Size Dst S1 S2 Shift Amt \<Rightarrow> carrier H E op Size Dst
      | OP_ADD Size Dst S1 Src2 \<Rightarrow> carrier H E op Size Dst
      | OP_SUB Size Dst Src1 Src2 \<Rightarrow> carrier H E op Size Dst
      | OP_NEG Size C Dst Src \<Rightarrow> carrier H E op Size Dst
      | OP_NOT Size Dst Src \<Rightarrow> carrier H E op Size Dst
      | OP_MUL Size Dst S1 Src2 \<Rightarrow> carrier H E op Size Dst
      | OP_UMUL Size Dst S1 S2 \<Rightarrow> carrier H E op Size Dst
      | OP_ORLSHL Size Dst S1 S2 Amt \<Rightarrow> carrier H E op Size Dst
      | OP_ORLSHR Size Dst S1 S2 Amt \<Rightarrow> carrier H E op Size Dst
      | OP_ORNROR Size Dst S1 S2 Amt \<Rightarrow> carrier H E op Size Dst
      | OP_XORNSHIFT Size Dst S1 S2 Shift Amt \<Rightarrow> carrier H E op Size Dst
      | OP_ADDSHIFT Size Dst S1 S2 Amt \<Rightarrow> carrier H E op Size Dst
      | OP_SUBSHIFT Size Dst S1 S2 Amt \<Rightarrow> carrier H E op Size Dst
      | _ \<Rightarrow> (E, Opaque))"

definition HighZeroStep :: "u32 \<Rightarrow> bool \<Rightarrow> IROp \<Rightarrow> bool \<times> u32" where
  "HighZeroStep H ConsumerElided op =
     (let (Elide, Action) = HighZeroAct H ConsumerElided op in
      (Elide,
       case Action of
         Transparent \<Rightarrow> H
       | Write R WriteZero \<Rightarrow> if WriteZero then H OR RegBit R else H AND NOT (RegBit R)
       | Opaque \<Rightarrow> 0))"

fun HighZeroWalk :: "u32 \<Rightarrow> (bool \<times> IROp) list \<Rightarrow> (bool \<times> IROp) list" where
  "HighZeroWalk H [] = []"
| "HighZeroWalk H ((ConsumerElided, op) # ops) =
     (let (Elide, H') = HighZeroStep H ConsumerElided op in (Elide, op) # HighZeroWalk H' ops)"

subsection \<open>Facts\<close>

definition facts :: "u32 \<Rightarrow> Guest \<Rightarrow> bool" where
  "facts H g \<longleftrightarrow> (\<forall>R. guest_reg R \<longrightarrow> reg_high_zero H R \<longrightarrow> drop_bit 32 (g_reg g R) = 0)"

lemma reg_high_zero_bit: "reg_high_zero H R \<longleftrightarrow> bit H (unat R)"
  by (simp add: reg_high_zero_def RegBit_def and_exp_eq_0_iff_not_bit)

lemma reg_high_zero_update:
  "reg_high_zero (H OR RegBit R) R' \<longleftrightarrow> R' = R \<or> reg_high_zero H R'"
  "reg_high_zero (H AND NOT (RegBit R)) R' \<longleftrightarrow> R' \<noteq> R \<and> reg_high_zero H R'"
  "\<not> reg_high_zero 0 R'"
proof -
  have "unat R < 32" "unat R' < 32" using unat_less_exp [of R] unat_less_exp [of R'] by simp_all
  then show "reg_high_zero (H OR RegBit R) R' \<longleftrightarrow> R' = R \<or> reg_high_zero H R'"
    "reg_high_zero (H AND NOT (RegBit R)) R' \<longleftrightarrow> R' \<noteq> R \<and> reg_high_zero H R'"
    by (auto simp: reg_high_zero_bit RegBit_def bit_or_iff bit_and_iff bit_not_iff bit_exp_iff word_unat_eq_iff)
qed (simp add: reg_high_zero_bit)

lemma facts_write:
  assumes "facts H g" "\<And>r. r \<noteq> R \<Longrightarrow> g_reg g' r = g_reg g r" "z \<Longrightarrow> drop_bit 32 (g_reg g' R) = 0"
  shows "facts (if z then H OR RegBit R else H AND NOT (RegBit R)) g'"
  using assms by (auto simp: facts_def reg_high_zero_update) metis

lemma high_zero_words:
  fixes a b w :: u64
  shows "drop_bit 32 a = 0 \<Longrightarrow> drop_bit 32 (a AND b) = 0" "drop_bit 32 b = 0 \<Longrightarrow> drop_bit 32 (a AND b) = 0"
    "drop_bit 32 a = 0 \<Longrightarrow> drop_bit 32 b = 0 \<Longrightarrow> drop_bit 32 (a OR b) = 0"
    "drop_bit 32 a = 0 \<Longrightarrow> drop_bit 32 b = 0 \<Longrightarrow> drop_bit 32 (a XOR b) = 0"
    "drop_bit 32 (ucast (x :: u32) :: u64) = 0" "n \<le> 32 \<Longrightarrow> drop_bit 32 (take_bit n w) = 0"
  subgoal by (simp add: drop_bit_and)
  subgoal by (simp add: drop_bit_and)
  subgoal by (simp add: drop_bit_or)
  subgoal by (simp add: drop_bit_xor)
  subgoal by (rule bit_word_eqI) (auto simp: bit_drop_bit_eq bit_unsigned_iff dest: bit_imp_le_length)
  subgoal by (rule bit_word_eqI) (auto simp: bit_drop_bit_eq bit_take_bit_iff)
  done

lemma high_zero_sized: "drop_bit 32 (sized i32Bit w) = 0"
  by (simp add: sized_def high_zero_words)

lemma high_zero_low:
  assumes "drop_bit 32 v = 0" "(ucast v :: u32) = ucast w"
  shows "v = sized i32Bit w"
proof -
  have "v = take_bit 32 v" using bits_ident [of 32 v] assms(1) by simp
  also have "\<dots> = ucast (ucast v :: u32)" by (rule bit_word_eqI) (auto simp: bit_take_bit_iff bit_unsigned_iff)
  finally show ?thesis using assms(2) by (simp add: sized_def)
qed

lemma high_zero_load: "n \<le> 4 \<Longrightarrow> drop_bit 32 (g_load n g ea) = 0"
proof -
  assume n: "n \<le> 4"
  have "bit (g_load n g ea) i \<Longrightarrow> i < 8 * n" for i by (auto simp: g_load_def bit_le_word)
  then show ?thesis using n by (intro bit_word_eqI) (fastforce simp: bit_drop_bit_eq)
qed

lemma popcount_le: "popcount (x :: 'a::len word) \<le> LENGTH('a)"
  using length_filter_le [of "bit x" "[0..<LENGTH('a)]"] by (simp add: popcount_def)

lemma high_zero_count: "drop_bit 32 (of_nat (ones_in Size w) :: u64) = 0"
proof -
  have "ones_in Size w \<le> 64"
    using popcount_le [of "ucast w :: u8"] popcount_le [of "ucast w :: u16"] popcount_le [of "ucast w :: u32"] popcount_le [of w]
    by (cases Size) (simp_all add: ones_in_def)
  then have "of_nat (ones_in Size w) = take_bit 32 (of_nat (ones_in Size w) :: u64)"
    by (simp add: word_unat_eq_iff unsigned_take_bit_eq unat_of_nat take_bit_nat_eq_self)
  then show ?thesis by (metis high_zero_words(6) order_refl)
qed

lemma high_zero_operand: "OperandHighZero H x \<Longrightarrow> facts H g \<Longrightarrow> guest_operand x \<Longrightarrow> drop_bit 32 (g_value g x) = 0"
  by (cases x) (auto simp: facts_def)

text \<open>Also when its mask is elided, an operation with \<open>PreZero\<close> writes the zero-extended result.\<close>

definition pre_zero :: "u32 \<Rightarrow> IROp \<Rightarrow> bool" where
  "pre_zero H op \<longleftrightarrow> PreZero H op \<or> (\<exists>Dst Src. op = OP_BFE i64Bit 32 0 Dst Src \<and> reg_high_zero H Src)"

lemma agree_put:
  assumes "agree D (g_put R v g) g'" "D \<subseteq> {R}"
  shows "r \<noteq> R \<Longrightarrow> g_reg g' r = g_reg g r" "D = {} \<Longrightarrow> g_reg g' R = v"
  using assms by (auto simp: agree_def g_put_def)

lemma g_put_eq [simp]: "g_put R v g = g_put R v' g \<longleftrightarrow> v = v'"
  by (auto simp: g_put_def dest!: arg_cong [where f = "\<lambda>g. g_reg g R"])

lemma facts_reg: "facts H g \<Longrightarrow> reg_high_zero H R \<Longrightarrow> guest_reg R \<Longrightarrow> drop_bit 32 (g_reg g R) = 0"
  by (simp add: facts_def)

lemma high_zero_mask: "ConstMaskHighZero H M x \<Longrightarrow> facts H g \<Longrightarrow> guest_operand x \<Longrightarrow> drop_bit 32 (g_value g x) = 0"
  by (cases x) (auto simp: ConstMaskHighZero_def facts_def)

lemma high_zero_shifted: "drop_bit 32 (shifted i32Bit Shift n w) = 0"
  by (simp add: shifted_def high_zero_words)

lemmas high_zero_rules = facts_reg high_zero_operand high_zero_mask high_zero_words high_zero_sized high_zero_load high_zero_count high_zero_shifted

lemma write_act:
  assumes "facts H g" "op_ok op" "snd (HighZeroAct H E op) = Write R z"
  shows "\<exists>v. ir_eval env op g = g_put R v g \<and> loosened op \<subseteq> {R} \<and> (z \<longrightarrow> (E \<and> \<not> pre_zero H op \<longrightarrow> loosened op = {}) \<and> drop_bit 32 v = 0)"
  apply (insert assms, cases op; (simp add: HighZeroAct_def carrier_def loosened_def; fail)?; (auto simp: HighZeroAct_def carrier_def loosened_def pre_zero_def PreZero_def Let_def high_zero_rules size_le_32_def count_size_def gpr_size_def sized_def field_ok_def bits_of_def ShiftedTempHighZero_def word_le_nat_alt split: if_splits; fail)?)
  done

lemma other_act:
  assumes "snd (HighZeroAct H E op) = Transparent"
  shows "g_reg (ir_eval env op g) = g_reg g" "loosened op = {}"
  using assms by (cases op; simp add: HighZeroAct_def carrier_def Let_def loosened_def g_store_def split: if_splits)+

lemma facts_step:
  assumes "facts H g" "op_ok op" "agree (if E \<and> \<not> pre_zero H op then loosened op else {}) (ir_eval env op g) g'"
  shows "facts (snd (HighZeroStep H E op)) g'"
proof (cases "snd (HighZeroAct H E op)")
  case Transparent
  have "g' = ir_eval env op g" using assms(3) unfolding other_act(2) [OF Transparent] if_cancel agree_empty .
  then have "g_reg g' = g_reg g" using other_act(1) [OF Transparent] by metis
  then show ?thesis using assms(1) Transparent by (auto simp: HighZeroStep_def facts_def split: prod.splits)
next
  case Opaque
  then show ?thesis by (auto simp: HighZeroStep_def facts_def reg_high_zero_update split: prod.splits)
next
  case (Write R z)
  obtain v where v: "ir_eval env op g = g_put R v g" "loosened op \<subseteq> {R}" "z \<longrightarrow> (E \<and> \<not> pre_zero H op \<longrightarrow> loosened op = {}) \<and> drop_bit 32 v = 0"
    using write_act [OF assms(1,2) Write] by blast
  define D where "D = (if E \<and> \<not> pre_zero H op then loosened op else {})"
  have D: "agree D (g_put R v g) g'" "D \<subseteq> {R}" using assms(3) v(1,2) by (auto simp: D_def)
  have "facts (if z then H OR RegBit R else H AND NOT (RegBit R)) g'"
    using agree_put [OF D] v(3) assms(1) by (intro facts_write [of H g]) (auto simp: D_def)
  then show ?thesis using Write by (auto simp: HighZeroStep_def split: prod.splits)
qed

subsection \<open>A redundant mask\<close>

lemma top_half: "(0xFFFFFFFF00000000 :: u64) = NOT (mask 32)" "(0xFFFFFFFF :: u64) = mask 32"
  by (simp_all add: mask_eq_exp_minus_1)

lemma mask_plus_one: "mask n + 1 = (2 ^ n :: u64)"
  by (simp add: mask_eq_exp_minus_1)

lemma keep_kind:
  assumes "Kind (ClassifyAndMask64 (M OR 0xFFFFFFFF00000000) False) \<noteq> None_Kind"
  shows "Kind (ClassifyAndMask64 (M OR 0xFFFFFFFF00000000) False) \<in> {Move, ClearRight, InsertZeroField}"
proof -
  define K where "K = M OR NOT (mask 32)"
  have top: "bit K 63" by (simp add: K_def bit_or_iff bit_not_iff bit_mask_iff)
  have "Kind (ClassifyAndMask64 K False) \<in> {Move, ClearRight, InsertZeroField}"
  proof (cases rule: ClassifyAndMask64_cases [of K False])
    case (both mb lo)
    then have "mb = 0" using top by (simp add: bit_mask64)
    then have "NOT K = mask lo" using both(1,2) by (intro bit_word_eqI) (auto simp: bit_mask64 bit_not_iff bit_mask_iff)
    then have "NOT K AND (NOT K + 1) = 0" by (intro bit_word_eqI) (auto simp: bit_and_iff bit_mask_iff bit_exp_iff mask_plus_one)
    then have "Kind (ClassifyAndMask64 K False) \<noteq> ClearBoth" by (simp add: ClassifyAndMask64_def and_form_def)
    then show ?thesis using both(3) by (simp add: and_form_def)
  qed (use top assms in \<open>auto simp: and_form_def bit_mask_iff K_def top_half\<close>)
  then show ?thesis by (simp add: K_def top_half)
qed

lemma ClassifyAndMask_high:
  assumes "Kind (ClassifyAndMask M True) \<noteq> None_Kind"
    and "drop_bit 32 x = 0 \<or> Kind (ClassifyAndMask M True) \<notin> {Move, ClearRight, InsertZeroField}"
  shows "drop_bit 32 (form_applied (ClassifyAndMask M True) x) = 0"
proof -
  define K where "K = ClassifyAndMask64 (M OR 0xFFFFFFFF00000000) False"
  define C where "C = ClassifyAndMask64 (M AND 0xFFFFFFFF) True"
  consider "ClassifyAndMask M True = K" | "ClassifyAndMask M True = C"
    by (cases "AndMaskCost (Kind K) < AndMaskCost (Kind C)") (simp_all add: ClassifyAndMask_def K_def C_def Let_def)
  then show ?thesis
  proof cases
    case 1
    then have "form_applied (ClassifyAndMask M True) x = x AND (M OR 0xFFFFFFFF00000000)"
      using assms(1) ClassifyAndMask64_applied by (simp add: K_def)
    moreover have "drop_bit 32 x = 0" using assms 1 keep_kind [of M] by (auto simp: K_def)
    ultimately show ?thesis by (simp add: high_zero_words(1))
  next
    case 2
    then have "form_applied (ClassifyAndMask M True) x = x AND (M AND mask 32)"
      using assms(1) ClassifyAndMask64_applied by (simp add: C_def top_half)
    then show ?thesis by (simp add: take_bit_eq_mask [symmetric] high_zero_words(2,6))
  qed
qed

lemma high_zero_fixed: "drop_bit 32 (x :: u64) = 0 \<Longrightarrow> word_rotl 0 x AND mask64 32 63 = x"
proof -
  assume "drop_bit 32 x = 0"
  then have "x = take_bit 32 x" using bits_ident [of 32 x] by simp
  moreover have "mask64 32 63 = mask 32" by (rule bit_word_eqI) (auto simp: bit_mask64 bit_mask_iff)
  ultimately show ?thesis by (simp add: take_bit_eq_mask [symmetric] rotl_zero)
qed

context ppc_mem
begin

lemma tail_redundant:
  assumes "run step is s = Some t" "drop_bit 32 (gpr t Dst) = 0"
  shows "run step (is @ tail32 Size True Dst) s = run step (is @ tail32 Size False Dst) s"
  using assms by (simp add: run_append tail32_def Mask32Tail_def step_rldicl high_zero_fixed setr_same)

lemma run_and_constant_high:
  assumes "guest_reg Dst" "guest_reg S1" "gpr s r0 = 0" "Size = i32Bit"
    and "drop_bit 32 (gpr s S1) = 0 \<or> drop_bit 32 M = 0 \<and> Kind (ClassifyAndMask M True) \<notin> {Move, ClearRight, InsertZeroField}"
  shows "\<exists>t. run step (and_constant cfg Size Dst S1 M) s = Some t \<and> drop_bit 32 (gpr t Dst) = 0"
proof (cases "EmitAndMask (LogicalImmEnabled cfg) Dst S1 M (Size = i32Bit)")
  case None
  then show ?thesis using assms by (auto simp: and_constant_def run_append run_LoadConstant step_and high_zero_words)
next
  case (Some a)
  then have "Kind (ClassifyAndMask M True) \<noteq> None_Kind"
    using assms(4) by (auto simp: EmitAndMask_def Let_def split: if_splits)
  then show ?thesis using ClassifyAndMask_high [of M "gpr s S1"] run_EmitAndMask [OF Some assms(3)] Some assms
    by (auto simp: and_constant_def)
qed

lemma run_shift_operand_high:
  assumes "guest_reg S2" "unat Amt < 32" "ShiftedTempHighZero Shift Amt True"
  shows "\<exists>t. run step (shift_operand i32Bit Shift S2 Amt) s = Some t \<and> keeps scratch s t \<and> drop_bit 32 (gpr t TMP4) = 0"
proof -
  define A where "A = (ucast Amt :: u32)"
  have A: "unat A = unat Amt" by (simp add: A_def unat_u8_u32)
  have A32: "unat A < 32" "A AND 31 = A" using assms(2) by (simp_all add: A word_unat_eq_iff u32_mod_32)
  have "A \<noteq> 0" "0 < unat A" using assms(3) A by (auto simp: ShiftedTempHighZero_def word_unat_eq_iff)
  then show ?thesis using assms(3) A32
    by (auto simp: ShiftedTempHighZero_def shift_operand_def A_def [symmetric] step_slwi step_srwi step_rotrwi high_zero_words)
qed

lemma elide_logic:
  assumes "guest_reg Dst" "guest_reg S1" "guest_operand Src2" "drop_bit 32 (gpr s S1) = 0" "drop_bit 32 (value_of s Src2) = 0"
  shows "run step (Op_Or cfg i32Bit True Dst S1 Src2) s = run step (Op_Or cfg i32Bit False Dst S1 Src2) s"
    and "run step (Op_Xor cfg i32Bit True Dst S1 Src2) s = run step (Op_Xor cfg i32Bit False Dst S1 Src2) s"
proof -
  have z: "gpr_size i64Bit" by (simp add: gpr_size_def)
  show "run step (Op_Or cfg i32Bit True Dst S1 Src2) s = run step (Op_Or cfg i32Bit False Dst S1 Src2) s"
    using computes_Or [OF assms(1-3) z, of cfg False s] assms(4,5) tail_redundant [where Dst = Dst and Size = i32Bit]
    by (auto simp: Op_Or_def computes_def tail32_def [of i64Bit] result_is_def high_zero_words)
  show "run step (Op_Xor cfg i32Bit True Dst S1 Src2) s = run step (Op_Xor cfg i32Bit False Dst S1 Src2) s"
    using computes_Xor [OF assms(1-3) z, of cfg False s] assms(4,5) tail_redundant [where Dst = Dst and Size = i32Bit]
    by (auto simp: Op_Xor_def computes_def tail32_def [of i64Bit] result_is_def high_zero_words)
qed

lemma elide_And:
  assumes "guest_reg Dst" "guest_reg S1" "guest_operand Src2" "gpr s r0 = 0"
    and "drop_bit 32 (gpr s S1) = 0 \<or> drop_bit 32 (value_of s Src2) = 0 \<and>
      (\<forall>C. Src2 = InlineConstant C \<longrightarrow> Kind (ClassifyAndMask C True) \<notin> {Move, ClearRight, InsertZeroField})"
  shows "run step (Op_And cfg i32Bit True Dst S1 Src2) s = run step (Op_And cfg i32Bit False Dst S1 Src2) s"
proof (cases Src2)
  case (Reg S2)
  then show ?thesis unfolding Op_And_def using assms(5)
    by (intro tail_redundant [of _ _ "setr Dst (gpr s S1 AND gpr s S2) s"]) (auto simp: step_and high_zero_words)
next
  case (InlineConstant C)
  then show ?thesis unfolding Op_And_def using run_and_constant_high [OF assms(1,2,4) refl, of C cfg] assms(5)
    by (auto intro: tail_redundant)
qed

lemma elide_Andn:
  assumes "guest_reg Dst" "guest_reg S1" "guest_operand Src2" "gpr s r0 = 0" "drop_bit 32 (gpr s S1) = 0"
  shows "run step (Op_Andn cfg i32Bit True Dst S1 Src2) s = run step (Op_Andn cfg i32Bit False Dst S1 Src2) s"
proof (cases Src2)
  case (Reg S2)
  then show ?thesis unfolding Op_Andn_def using assms(5)
    by (intro tail_redundant [of _ _ "setr Dst (gpr s S1 AND NOT (gpr s S2)) s"]) (auto simp: step_andc high_zero_words)
next
  case (InlineConstant C)
  then show ?thesis unfolding Op_Andn_def using run_and_constant_high [OF assms(1,2,4) refl, of "NOT C" cfg] assms(5)
    by (auto intro: tail_redundant)
qed

lemma elide_shifted:
  assumes "guest_reg Dst" "guest_reg S1" "guest_reg S2" "unat Amt < 32"
  shows "ShiftedTempHighZero Shift Amt True \<or> drop_bit 32 (gpr s S1) = 0 \<Longrightarrow>
      run step (Op_AndShift i32Bit True Dst S1 S2 Shift Amt) s = run step (Op_AndShift i32Bit False Dst S1 S2 Shift Amt) s"
    and "ShiftedTempHighZero Shift Amt True \<Longrightarrow> drop_bit 32 (gpr s S1) = 0 \<Longrightarrow>
      run step (Op_XorShift i32Bit True Dst S1 S2 Shift Amt) s = run step (Op_XorShift i32Bit False Dst S1 S2 Shift Amt) s"
proof -
  have "\<exists>t. run step (shift_operand i32Bit Shift S2 Amt) s = Some t \<and> keeps scratch s t \<and>
      (ShiftedTempHighZero Shift Amt True \<longrightarrow> drop_bit 32 (gpr t TMP4) = 0)"
    using run_shift_operand_high [OF assms(3,4), of Shift s] run_shift_operand [OF assms(3), of i32Bit Amt Shift s] assms(4)
    by (auto simp: gpr_size_def size_bits_def)
  then obtain t where t: "run step (shift_operand i32Bit Shift S2 Amt) s = Some t" "keeps scratch s t"
    "ShiftedTempHighZero Shift Amt True \<longrightarrow> drop_bit 32 (gpr t TMP4) = 0" by blast
  have S1: "gpr t S1 = gpr s S1" using t(2) assms(2) by (simp add: keeps_def)
  show "run step (Op_AndShift i32Bit True Dst S1 S2 Shift Amt) s = run step (Op_AndShift i32Bit False Dst S1 S2 Shift Amt) s"
    if "ShiftedTempHighZero Shift Amt True \<or> drop_bit 32 (gpr s S1) = 0"
    unfolding Op_AndShift_def using that t(1,3) S1
    by (intro tail_redundant [of _ _ "setr Dst (gpr s S1 AND gpr t TMP4) t"]) (auto simp: run_append step_and high_zero_words)
  show "run step (Op_XorShift i32Bit True Dst S1 S2 Shift Amt) s = run step (Op_XorShift i32Bit False Dst S1 S2 Shift Amt) s"
    if "ShiftedTempHighZero Shift Amt True" "drop_bit 32 (gpr s S1) = 0"
    unfolding Op_XorShift_def using that t(1,3) S1
    by (intro tail_redundant [of _ _ "setr Dst (gpr s S1 XOR gpr t TMP4) t"]) (auto simp: run_append step_xor high_zero_words)
qed

lemma elide_Bfe:
  assumes "drop_bit 32 (gpr s Src) = 0"
  shows "run step (Op_Bfe i64Bit True 32 0 Dst Src) s = run step (Op_Bfe i64Bit False 32 0 Dst Src) s"
  using assms by (simp add: Op_Bfe_def size_le_32_def run_mr_unless_same step_rldicl high_zero_fixed)

text \<open>An operation with \<open>PreZero\<close> does the same with and without its mask.\<close>

lemma elide_wide:
  assumes "Size \<noteq> i32Bit"
  shows "Op_Or cfg Size True Dst S1 Src2 = Op_Or cfg Size False Dst S1 Src2" "Op_Xor cfg Size True Dst S1 Src2 = Op_Xor cfg Size False Dst S1 Src2"
    "Op_And cfg Size True Dst S1 Src2 = Op_And cfg Size False Dst S1 Src2" "Op_Andn cfg Size True Dst S1 Src2 = Op_Andn cfg Size False Dst S1 Src2"
    "Op_AndShift Size True Dst S1 S2 Shift Amt = Op_AndShift Size False Dst S1 S2 Shift Amt"
    "Op_XorShift Size True Dst S1 S2 Shift Amt = Op_XorShift Size False Dst S1 S2 Shift Amt"
  using assms by (simp_all add: Op_Or_def Op_Xor_def Op_And_def Op_Andn_def Op_AndShift_def Op_XorShift_def tail32_def)

lemma elide_same:
  assumes "facts H (guest_of s)" "op_ok op" "gpr s r0 = 0" "pre_zero H op"
  shows "run step (handler env c True op) s = run step (handler env c False op) s"
proof -
  have r: "drop_bit 32 (gpr s R) = 0" if "reg_high_zero H R" "guest_reg R" for R
    using facts_reg [OF assms(1) that] that(2) by simp
  have o: "drop_bit 32 (value_of s x) = 0" if "OperandHighZero H x" "guest_operand x" for x
    using high_zero_operand [OF that(1) assms(1) that(2)] that(2) by simp
  have m: "drop_bit 32 (value_of s x) = 0" "\<forall>C. x = InlineConstant C \<longrightarrow> Kind (ClassifyAndMask C True) \<notin> {Move, ClearRight, InsertZeroField}"
    if "ConstMaskHighZero H True x" "guest_operand x" for x
    using high_zero_mask [OF that(1) assms(1) that(2)] that by (auto simp: ConstMaskHighZero_def)
  show ?thesis
  proof (cases op)
    case (OP_OR Size Dst S1 Src2)
    then show ?thesis using assms(2,4) r o elide_logic(1) [of Dst S1 Src2 s] elide_wide by (cases "Size = i32Bit") (auto simp: pre_zero_def PreZero_def)
  next
    case (OP_XOR Size Dst S1 Src2)
    then show ?thesis using assms(2,4) r o elide_logic(2) [of Dst S1 Src2 s] elide_wide by (cases "Size = i32Bit") (auto simp: pre_zero_def PreZero_def)
  next
    case (OP_AND Size Dst S1 Src2)
    then show ?thesis using assms(2-4) r m [of Src2] elide_And [of Dst S1 Src2 s] elide_wide
      by (cases "Size = i32Bit") (auto simp: pre_zero_def PreZero_def)
  next
    case (OP_ANDN Size Dst S1 Src2)
    then show ?thesis using assms(2-4) r elide_Andn [of Dst S1 Src2 s] elide_wide by (cases "Size = i32Bit") (auto simp: pre_zero_def PreZero_def)
  next
    case (OP_ANDSHIFT Size Dst S1 S2 Shift Amt)
    then show ?thesis using assms(2,4) r elide_shifted(1) [of Dst S1 S2 Amt Shift s] elide_wide
      by (cases "Size = i32Bit") (auto simp: pre_zero_def PreZero_def size_bits_def)
  next
    case (OP_XORSHIFT Size Dst S1 S2 Shift Amt)
    then show ?thesis using assms(2,4) r elide_shifted(2) [of Dst S1 S2 Amt Shift s] elide_wide
      by (cases "Size = i32Bit") (auto simp: pre_zero_def PreZero_def size_bits_def)
  next
    case (OP_BFE Size Width lsb Dst Src)
    then show ?thesis using assms(2,4) r elide_Bfe by (auto simp: pre_zero_def PreZero_def)
  qed (use assms(4) in \<open>simp_all add: pre_zero_def PreZero_def\<close>)
qed

lemma step_decision: "op_ok op \<Longrightarrow> fst (HighZeroStep H E op) = E \<or> \<not> E \<and> fst (HighZeroStep H E op) \<and> pre_zero H op"
  by (cases op)
    (auto simp: HighZeroStep_def HighZeroAct_def carrier_def pre_zero_def Let_def field_ok_def gpr_size_def size_le_32_def split: prod.splits if_splits)

lemma walk_same:
  assumes "facts H (guest_of s)" "\<forall>x \<in> set ops. op_ok (snd x)" "caches_hold c s" "gpr s r0 = 0"
  shows "run step (fst (emit_ops env c (HighZeroWalk H ops))) s = run step (fst (emit_ops env c ops)) s"
  using assms
proof (induction ops arbitrary: H c s)
  case (Cons x ops)
  obtain E op where x: "x = (E, op)" by force
  have ok: "op_ok op" using Cons.prems(2) x by simp
  obtain E' H' where st: "HighZeroStep H E op = (E', H')" by force
  have same: "run step (handler env c E' op) s = run step (handler env c E op) s"
    using step_decision [OF ok, of H E] elide_same [OF Cons.prems(1) ok Cons.prems(4), of env c] st by auto
  define D where "D = (E \<and> \<not> pre_zero H op)"
  have D: "run step (handler env c E op) s = run step (handler env c D op) s"
    using elide_same [OF Cons.prems(1) ok Cons.prems(4), of env c] by (cases E; cases "pre_zero H op") (simp_all add: D_def)
  obtain u where u: "run step (handler env c D op) s = Some u" "agree (if D then loosened op else {}) (ir_eval env op (guest_of s)) (guest_of u)"
    "gpr u r0 = 0" "caches_hold (after_handler env c op) u"
    using handler_simulates [OF ok Cons.prems(3,4), of env D] Cons.prems(4) by (auto simp: simulates_def)
  have "facts H' (guest_of u)" using facts_step [OF Cons.prems(1) ok, of E env] u(2) st by (simp add: D_def)
  then have "run step (fst (emit_ops env (after_handler env c op) (HighZeroWalk H' ops))) u =
      run step (fst (emit_ops env (after_handler env c op) ops)) u"
    using Cons.IH [OF _ _ u(4,3)] Cons.prems(2) by simp
  then show ?case using same u(1) D by (auto simp: x st run_append split: prod.splits)
qed simp

end

subsection \<open>Properties\<close>

text \<open>
  C2: The masks the producer side of \<open>ComputeHighZeroElision\<close> removes cannot be observed.  For any block and any set of elisions the
  consumer side has chosen before, the code with the additional elisions of the walk ends in exactly the machine state in which the code
  without them ends: every register, the condition register, carry, overflow and memory are the same.
\<close>

theorem high_zero_sound:
  assumes "\<forall>x \<in> set ops. op_ok (snd x)" "gpr s r0 = 0"
  shows "run isa_step (fst (emit_ops env block_entry (HighZeroWalk 0 ops))) s = run isa_step (fst (emit_ops env block_entry ops)) s"
  using ppcm.walk_same [OF _ assms(1) _ assms(2), of 0 block_entry env] by (simp add: facts_def reg_high_zero_update block_entry_def)

definition masked_block :: "(bool \<times> IROp) list" where
  "masked_block = [(False, OP_LOADMEM i32Bit 24 (Reg 8) None SXTX 1), (False, OP_OR i32Bit 7 24 (InlineConstant 0x10)), (False, OP_AND i32Bit 7 7 (Reg 9))]"

theorem high_zero_sound_witness:
  "HighZeroWalk 0 masked_block =
     [(False, OP_LOADMEM i32Bit 24 (Reg 8) None SXTX 1), (True, OP_OR i32Bit 7 24 (InlineConstant 0x10)), (True, OP_AND i32Bit 7 7 (Reg 9))] \<and>
   run isa_step (fst (emit_ops default_env block_entry (HighZeroWalk 0 masked_block))) (machine_at [(9, 0xFF)]) =
   run isa_step (fst (emit_ops default_env block_entry masked_block)) (machine_at [(9, 0xFF)])"
  using high_zero_sound [of masked_block "machine_at [(9, 0xFF)]" default_env]
  by (simp add: masked_block_def HighZeroStep_def HighZeroAct_def carrier_def PreZero_def size_le_32_def reg_high_zero_def RegBit_def
      count_size_def gpr_size_def access_operands_def decide_operation)

end
