(* ===== verification/Bpf_Interpreter.thy ===== *)
theory Bpf_Interpreter
  imports Fex_Prelude
begin

text \<open>
  The classic-BPF interpreter behind guest seccomp filters, \<open>LinuxSyscalls/Seccomp/BPFInterpreter.cpp\<close>: the validator that runs when a
  filter is installed and the interpreter that runs on every system call.  The numeric values of the \<open>BPF_*\<close> macros are those of the
  kernel's user-space headers \<open>linux/bpf_common.h\<close> and \<open>linux/filter.h\<close>.

  The instruction pointer is a 32-bit word that wraps, so an arbitrary program may loop: \<open>Execute\<close> is a partial function, whose value
  \<open>None\<close> stands for a run that does not end.  An access outside the syscall data or the scratch memory is the outcome \<open>OutOfBounds\<close>, and
  the arms that only an unvalidated program can reach are the exit \<open>FailClosed\<close>.  The properties are that a program the validator accepts
  has neither, and returns after at most as many iterations as it has instructions.
\<close>

subsection \<open>Programs\<close>

record sock_filter =
  code :: u16
  jt :: u8
  jf :: u8
  k :: u32

definition BPF_CLASS :: "u16 \<Rightarrow> u16" where "BPF_CLASS c = c AND 0x07"
definition BPF_SIZE :: "u16 \<Rightarrow> u16" where "BPF_SIZE c = c AND 0x18"
definition BPF_MODE :: "u16 \<Rightarrow> u16" where "BPF_MODE c = c AND 0xE0"
definition BPF_OP :: "u16 \<Rightarrow> u16" where "BPF_OP c = c AND 0xF0"
definition BPF_SRC :: "u16 \<Rightarrow> u16" where "BPF_SRC c = c AND 0x08"
definition BPF_RVAL :: "u16 \<Rightarrow> u16" where "BPF_RVAL c = c AND 0x18"
definition BPF_MISCOP :: "u16 \<Rightarrow> u16" where "BPF_MISCOP c = c AND 0xF8"

abbreviation "BPF_LD \<equiv> 0x00 :: u16"
abbreviation "BPF_LDX \<equiv> 0x01 :: u16"
abbreviation "BPF_ST \<equiv> 0x02 :: u16"
abbreviation "BPF_STX \<equiv> 0x03 :: u16"
abbreviation "BPF_ALU \<equiv> 0x04 :: u16"
abbreviation "BPF_JMP \<equiv> 0x05 :: u16"
abbreviation "BPF_RET \<equiv> 0x06 :: u16"
abbreviation "BPF_MISC \<equiv> 0x07 :: u16"

abbreviation "BPF_W \<equiv> 0x00 :: u16"
abbreviation "BPF_IMM \<equiv> 0x00 :: u16"
abbreviation "BPF_ABS \<equiv> 0x20 :: u16"
abbreviation "BPF_MEM \<equiv> 0x60 :: u16"
abbreviation "BPF_LEN \<equiv> 0x80 :: u16"

abbreviation "BPF_ADD \<equiv> 0x00 :: u16"
abbreviation "BPF_SUB \<equiv> 0x10 :: u16"
abbreviation "BPF_MUL \<equiv> 0x20 :: u16"
abbreviation "BPF_DIV \<equiv> 0x30 :: u16"
abbreviation "BPF_OR \<equiv> 0x40 :: u16"
abbreviation "BPF_AND \<equiv> 0x50 :: u16"
abbreviation "BPF_LSH \<equiv> 0x60 :: u16"
abbreviation "BPF_RSH \<equiv> 0x70 :: u16"
abbreviation "BPF_NEG \<equiv> 0x80 :: u16"
abbreviation "BPF_MOD \<equiv> 0x90 :: u16"
abbreviation "BPF_XOR \<equiv> 0xA0 :: u16"

abbreviation "BPF_JA \<equiv> 0x00 :: u16"
abbreviation "BPF_JEQ \<equiv> 0x10 :: u16"
abbreviation "BPF_JGT \<equiv> 0x20 :: u16"
abbreviation "BPF_JGE \<equiv> 0x30 :: u16"
abbreviation "BPF_JSET \<equiv> 0x40 :: u16"

abbreviation "BPF_K \<equiv> 0x00 :: u16"
abbreviation "BPF_X \<equiv> 0x08 :: u16"
abbreviation "BPF_A \<equiv> 0x10 :: u16"
abbreviation "BPF_TAX \<equiv> 0x00 :: u16"
abbreviation "BPF_TXA \<equiv> 0x80 :: u16"

definition BPF_MEMWORDS :: u32 where "BPF_MEMWORDS = 16"
definition BPF_MAXINSNS :: nat where "BPF_MAXINSNS = 4096"
definition SECCOMP_DATA_SIZE :: u32 where "SECCOMP_DATA_SIZE = 64"
definition EINVAL :: u64 where "EINVAL = 22"

subsection \<open>Validation\<close>

definition load_valid :: "sock_filter \<Rightarrow> bool" where
  "load_valid Inst =
     (BPF_SIZE (code Inst) = BPF_W \<and>
      (let Mode = BPF_MODE (code Inst) in
       if Mode = BPF_IMM then True
       else if Mode = BPF_ABS then k Inst AND 0b11 = 0 \<and> k Inst < SECCOMP_DATA_SIZE
       else if Mode = BPF_MEM then k Inst < BPF_MEMWORDS
       else Mode = BPF_LEN))"

definition store_valid :: "sock_filter \<Rightarrow> bool" where
  "store_valid Inst = (BPF_SIZE (code Inst) = BPF_W \<and> k Inst < BPF_MEMWORDS)"

definition alu_valid :: "sock_filter \<Rightarrow> bool" where
  "alu_valid Inst =
     (let Op = BPF_OP (code Inst) in
      if Op \<in> {BPF_ADD, BPF_SUB, BPF_MUL, BPF_DIV, BPF_OR, BPF_AND, BPF_LSH, BPF_RSH, BPF_MOD, BPF_XOR} then True
      else Op = BPF_NEG \<and> BPF_SRC (code Inst) = BPF_K)"

definition jump_valid :: "nat \<Rightarrow> nat \<Rightarrow> sock_filter \<Rightarrow> bool" where
  "jump_valid NumInsts i Inst =
     (let Op = BPF_OP (code Inst) in
      if Op = BPF_JA then BPF_SRC (code Inst) = BPF_K \<and> i + unat (k Inst) + 1 < NumInsts
      else Op \<in> {BPF_JEQ, BPF_JGT, BPF_JGE, BPF_JSET} \<and> i + unat (jt Inst) + 1 < NumInsts \<and> i + unat (jf Inst) + 1 < NumInsts)"

definition inst_valid :: "nat \<Rightarrow> nat \<Rightarrow> sock_filter \<Rightarrow> bool" where
  "inst_valid NumInsts i Inst =
     (let Class = BPF_CLASS (code Inst) in
      if Class = BPF_LD \<or> Class = BPF_LDX then load_valid Inst
      else if Class = BPF_ST \<or> Class = BPF_STX then store_valid Inst
      else if Class = BPF_ALU then alu_valid Inst
      else if Class = BPF_JMP then jump_valid NumInsts i Inst
      else if Class = BPF_RET then BPF_RVAL (code Inst) \<in> {BPF_K, BPF_X, BPF_A}
      else BPF_MISCOP (code Inst) \<in> {BPF_TAX, BPF_TXA})"

fun insts_valid :: "nat \<Rightarrow> nat \<Rightarrow> sock_filter list \<Rightarrow> bool" where
  "insts_valid NumInsts i [] = True"
| "insts_valid NumInsts i (Inst # rest) = (inst_valid NumInsts i Inst \<and> insts_valid NumInsts (i + 1) rest)"

text \<open>The last test reads the instruction before the end: of an empty program that is outside the array (\<open>None\<close>).\<close>

definition ValidateProgram :: "sock_filter list \<Rightarrow> u64 option" where
  "ValidateProgram prog =
     (let NumInsts = length prog in
      if \<not> insts_valid NumInsts 0 prog then Some (- EINVAL)
      else if NumInsts = 0 then None
      else if BPF_CLASS (code (prog ! (NumInsts - 1))) \<noteq> BPF_RET then Some (- EINVAL)
      else Some 0)"

subsection \<open>Execution\<close>

record BpfState =
  A :: u32
  X :: u32

record WorkingBuffer =
  Data :: "u8 list"
  ScratchMemory :: "u32 list"

datatype Exit = AtRet u32 | ZeroDivisor | FailClosed

primrec exit_value :: "Exit \<Rightarrow> u32" where
  "exit_value (AtRet v) = v"
| "exit_value ZeroDivisor = 0"
| "exit_value FailClosed = 0"

datatype Outcome = Stop Exit | Next u32 BpfState WorkingBuffer | OutOfBounds

definition load_word :: "u8 list \<Rightarrow> u32 \<Rightarrow> u32 option" where
  "load_word bytes off = (if unat off + 4 \<le> length bytes then Some (le_word (take 4 (drop (unat off) bytes))) else None)"

definition exec_load :: "sock_filter \<Rightarrow> u32 \<Rightarrow> BpfState \<Rightarrow> WorkingBuffer \<Rightarrow> Outcome" where
  "exec_load Inst IP S Buffer =
     (let Mode = BPF_MODE (code Inst);
          put = (\<lambda>Value. Next IP (if BPF_CLASS (code Inst) = BPF_LD then S\<lparr>A := Value\<rparr> else S\<lparr>X := Value\<rparr>) Buffer) in
      if Mode = BPF_IMM then put (k Inst)
      else if Mode = BPF_ABS then (case load_word (Data Buffer) (k Inst) of None \<Rightarrow> OutOfBounds | Some Value \<Rightarrow> put Value)
      else if Mode = BPF_MEM then
        if unat (k Inst) < length (ScratchMemory Buffer) then put (ScratchMemory Buffer ! unat (k Inst)) else OutOfBounds
      else if Mode = BPF_LEN then put SECCOMP_DATA_SIZE
      else Stop FailClosed)"

definition exec_store :: "u32 \<Rightarrow> u32 \<Rightarrow> u32 \<Rightarrow> BpfState \<Rightarrow> WorkingBuffer \<Rightarrow> Outcome" where
  "exec_store slot Value IP S Buffer =
     (if unat slot < length (ScratchMemory Buffer) then Next IP S (Buffer\<lparr>ScratchMemory := (ScratchMemory Buffer)[unat slot := Value]\<rparr>)
      else OutOfBounds)"

definition exec_alu :: "sock_filter \<Rightarrow> u32 \<Rightarrow> BpfState \<Rightarrow> WorkingBuffer \<Rightarrow> Outcome" where
  "exec_alu Inst IP S Buffer =
     (let Src = (if BPF_SRC (code Inst) = BPF_X then X S else k Inst);
          Op = BPF_OP (code Inst);
          put = (\<lambda>Value. Next IP (S\<lparr>A := Value\<rparr>) Buffer) in
      if Op = BPF_ADD then put (A S + Src)
      else if Op = BPF_SUB then put (A S - Src)
      else if Op = BPF_MUL then put (A S * Src)
      else if Op = BPF_DIV then if Src = 0 then Stop ZeroDivisor else put (A S div Src)
      else if Op = BPF_MOD then if Src = 0 then Stop ZeroDivisor else put (A S mod Src)
      else if Op = BPF_OR then put (A S OR Src)
      else if Op = BPF_AND then put (A S AND Src)
      else if Op = BPF_XOR then put (A S XOR Src)
      else if Op = BPF_LSH then put (push_bit (unat (Src AND 31)) (A S))
      else if Op = BPF_RSH then put (drop_bit (unat (Src AND 31)) (A S))
      else if Op = BPF_NEG then put (- A S)
      else Stop FailClosed)"

definition exec_jump :: "sock_filter \<Rightarrow> u32 \<Rightarrow> BpfState \<Rightarrow> WorkingBuffer \<Rightarrow> Outcome" where
  "exec_jump Inst IP S Buffer =
     (let Src = (if BPF_SRC (code Inst) = BPF_X then X S else k Inst);
          Op = BPF_OP (code Inst);
          branch = (\<lambda>taken. Next (IP + (if taken then ucast (jt Inst) else ucast (jf Inst))) S Buffer) in
      if Op = BPF_JA then Next (IP + k Inst) S Buffer
      else if Op = BPF_JEQ then branch (A S = Src)
      else if Op = BPF_JGT then branch (A S > Src)
      else if Op = BPF_JGE then branch (A S \<ge> Src)
      else if Op = BPF_JSET then branch (A S AND Src \<noteq> 0)
      else Stop FailClosed)"

definition exec_inst :: "sock_filter \<Rightarrow> u32 \<Rightarrow> BpfState \<Rightarrow> WorkingBuffer \<Rightarrow> Outcome" where
  "exec_inst Inst IP S Buffer =
     (let Class = BPF_CLASS (code Inst) in
      if Class = BPF_LD \<or> Class = BPF_LDX then exec_load Inst IP S Buffer
      else if Class = BPF_ST then exec_store (k Inst) (A S) IP S Buffer
      else if Class = BPF_STX then exec_store (k Inst) (X S) IP S Buffer
      else if Class = BPF_ALU then exec_alu Inst IP S Buffer
      else if Class = BPF_JMP then exec_jump Inst IP S Buffer
      else if Class = BPF_RET then
        let RVal = BPF_RVAL (code Inst) in
        if RVal = BPF_K then Stop (AtRet (k Inst))
        else if RVal = BPF_X then Stop (AtRet (X S))
        else if RVal = BPF_A then Stop (AtRet (A S))
        else Stop FailClosed
      else
        let MiscOp = BPF_MISCOP (code Inst) in
        if MiscOp = BPF_TAX then Next IP (S\<lparr>X := A S\<rparr>) Buffer
        else if MiscOp = BPF_TXA then Next IP (S\<lparr>A := X S\<rparr>) Buffer
        else Stop FailClosed)"

text \<open>One round of the loop: the bound test, the instruction, and the increment.\<close>

definition round :: "sock_filter list \<Rightarrow> u32 \<times> BpfState \<times> WorkingBuffer \<Rightarrow> Outcome" where
  "round Program = (\<lambda>(IP, S, Buffer).
     if unat IP < length Program then
       case exec_inst (Program ! unat IP) IP S Buffer of Next IP' S' Buffer' \<Rightarrow> Next (IP' + 1) S' Buffer' | other \<Rightarrow> other
     else Stop FailClosed)"

datatype Result = Returned Exit WorkingBuffer | Undefined

partial_function (option) Execute_loop :: "sock_filter list \<Rightarrow> u32 \<times> BpfState \<times> WorkingBuffer \<Rightarrow> Result option" where
  "Execute_loop Program c =
     (case round Program c of
        Stop e \<Rightarrow> Some (Returned e (snd (snd c)))
      | OutOfBounds \<Rightarrow> Some Undefined
      | Next IP S Buffer \<Rightarrow> Execute_loop Program (IP, S, Buffer))"

definition start :: "WorkingBuffer \<Rightarrow> u32 \<times> BpfState \<times> WorkingBuffer" where
  "start Buffer = (0, \<lparr>A = 0, X = 0\<rparr>, Buffer)"

definition Execute :: "sock_filter list \<Rightarrow> WorkingBuffer \<Rightarrow> Result option" where
  "Execute Program Buffer = Execute_loop Program (start Buffer)"

subsection \<open>Validated programs\<close>

definition buffer_ok :: "WorkingBuffer \<Rightarrow> bool" where
  "buffer_ok B \<longleftrightarrow> length (Data B) = 64 \<and> length (ScratchMemory B) = 16"

lemma insts_valid_nth: "insts_valid N i p \<Longrightarrow> j < length p \<Longrightarrow> inst_valid N (i + j) (p ! j)"
proof (induction p arbitrary: i j)
  case (Cons I p)
  then show ?case using Cons.IH [of "i + 1" "j - 1"] by (cases j) auto
qed simp

lemma ValidateProgram_accepts:
  assumes "ValidateProgram prog = Some 0"
  shows "prog \<noteq> []" "\<And>j. j < length prog \<Longrightarrow> inst_valid (length prog) j (prog ! j)"
    "BPF_CLASS (code (prog ! (length prog - 1))) = BPF_RET"
proof -
  have ne: "- EINVAL \<noteq> 0" by (simp add: EINVAL_def)
  show "prog \<noteq> []" "BPF_CLASS (code (prog ! (length prog - 1))) = BPF_RET"
    using assms ne by (auto simp: ValidateProgram_def Let_def split: if_splits)
  have "insts_valid (length prog) 0 prog" using assms ne by (auto simp: ValidateProgram_def Let_def split: if_splits)
  then show "inst_valid (length prog) j (prog ! j)" if "j < length prog" for j using insts_valid_nth [of "length prog" 0 prog j] that by simp
qed

lemma aligned_word_in_range:
  fixes off :: u32
  assumes "off AND 3 = 0" "off < 64"
  shows "unat off + 4 \<le> 64" "4 dvd unat off"
proof -
  have "off AND 3 = take_bit 2 off" by (simp add: take_bit_eq_mask mask_eq_exp_minus_1)
  then have "take_bit 2 (unat off) = 0" using assms(1) by (metis unsigned_0 unsigned_take_bit_eq)
  then show dvd: "4 dvd unat off" by (simp add: take_bit_eq_mod mod_eq_0_iff_dvd)
  have "unat off < 64" using assms(2) by (simp add: word_less_nat_alt)
  with dvd show "unat off + 4 \<le> 64" by (elim dvdE) simp
qed

lemma class_cases:
  "BPF_CLASS c \<in> {BPF_LD, BPF_LDX, BPF_ST, BPF_STX, BPF_ALU, BPF_JMP, BPF_RET, BPF_MISC}"
proof -
  have "BPF_CLASS c \<le> 7" by (simp add: BPF_CLASS_def word_and_le1)
  then have "unat (BPF_CLASS c) \<le> 7" by (simp add: word_le_nat_alt)
  then have "unat (BPF_CLASS c) \<in> {0, 1, 2, 3, 4, 5, 6, 7}" by auto
  then show ?thesis by (auto simp: word_unat_eq_iff)
qed

text \<open>What one instruction does in a place where it is valid: no access outside, no fail-closed arm, and progress.\<close>

definition sound :: "nat \<Rightarrow> sock_filter \<Rightarrow> u32 \<Rightarrow> WorkingBuffer \<Rightarrow> Outcome \<Rightarrow> bool" where
  "sound N Inst IP B out \<longleftrightarrow>
     (case out of
        Stop e \<Rightarrow> e \<noteq> FailClosed
      | OutOfBounds \<Rightarrow> False
      | Next IP' S' B' \<Rightarrow> Data B' = Data B \<and> length (ScratchMemory B') = length (ScratchMemory B) \<and>
          BPF_CLASS (code Inst) \<noteq> BPF_RET \<and> unat IP \<le> unat IP' \<and> (IP' = IP \<or> unat IP' + 1 < N))"

lemma sound_load: "load_valid Inst \<Longrightarrow> buffer_ok B \<Longrightarrow> BPF_CLASS (code Inst) \<noteq> BPF_RET \<Longrightarrow> sound N Inst IP B (exec_load Inst IP S B)"
  using aligned_word_in_range [of "k Inst"]
  by (auto simp: load_valid_def exec_load_def sound_def buffer_ok_def load_word_def SECCOMP_DATA_SIZE_def BPF_MEMWORDS_def Let_def word_less_nat_alt
      split: if_splits)

lemma sound_store: "store_valid Inst \<Longrightarrow> buffer_ok B \<Longrightarrow> BPF_CLASS (code Inst) \<noteq> BPF_RET \<Longrightarrow> sound N Inst IP B (exec_store (k Inst) v IP S B)"
  by (auto simp: store_valid_def exec_store_def sound_def buffer_ok_def BPF_MEMWORDS_def word_less_nat_alt)

lemma sound_alu:
  assumes "alu_valid Inst" "BPF_CLASS (code Inst) \<noteq> BPF_RET"
  shows "sound N Inst IP B (exec_alu Inst IP S B)"
proof -
  define Src where "Src = (if BPF_SRC (code Inst) = BPF_X then X S else k Inst)"
  have "BPF_OP (code Inst) \<in> {BPF_ADD, BPF_SUB, BPF_MUL, BPF_DIV, BPF_OR, BPF_AND, BPF_LSH, BPF_RSH, BPF_MOD, BPF_XOR, BPF_NEG}"
    using assms(1) unfolding alu_valid_def Let_def by (auto split: if_splits)
  then show ?thesis using assms(2)
    by (elim insertE emptyE) (simp_all add: exec_alu_def sound_def Let_def Src_def [symmetric])
qed

lemma jump_distance:
  fixes IP d :: u32
  assumes "unat IP + unat d + 1 < N" "N \<le> 2 ^ 32"
  shows "unat (IP + d) = unat IP + unat d"
  using assms by (simp add: unat_plus_if')

lemma sound_branch:
  assumes "unat IP + unat (jt Inst) + 1 < N" "unat IP + unat (jf Inst) + 1 < N" "N \<le> 2 ^ 32" "BPF_CLASS (code Inst) \<noteq> BPF_RET"
  shows "sound N Inst IP B (Next (IP + (if taken then ucast (jt Inst) else ucast (jf Inst))) S B)"
proof -
  have u: "unat (ucast b :: u32) = unat b" for b :: u8
    using unat_less_exp [of b] by (simp add: unat_ucast_mod)
  have "unat (IP + ucast (jt Inst)) = unat IP + unat (jt Inst)" "unat (IP + ucast (jf Inst)) = unat IP + unat (jf Inst)"
    using jump_distance [of IP "ucast (jt Inst)" N] jump_distance [of IP "ucast (jf Inst)" N] assms(1-3) by (simp_all add: u)
  then show ?thesis using assms by (simp add: sound_def)
qed

lemma sound_jump:
  assumes "jump_valid N (unat IP) Inst" "N \<le> 2 ^ 32" "BPF_CLASS (code Inst) \<noteq> BPF_RET"
  shows "sound N Inst IP B (exec_jump Inst IP S B)"
proof (cases "BPF_OP (code Inst) = BPF_JA")
  case True
  then have "unat IP + unat (k Inst) + 1 < N" using assms(1) by (simp add: jump_valid_def)
  then show ?thesis using True assms(2,3) jump_distance [of IP "k Inst" N] by (simp add: exec_jump_def sound_def)
next
  case False
  then have t: "unat IP + unat (jt Inst) + 1 < N" "unat IP + unat (jf Inst) + 1 < N"
    and "BPF_OP (code Inst) \<in> {BPF_JEQ, BPF_JGT, BPF_JGE, BPF_JSET}"
    using assms(1) by (simp_all add: jump_valid_def Let_def)
  from this(3) show ?thesis
    by (elim insertE emptyE) (simp_all add: exec_jump_def Let_def sound_branch [OF t assms(2,3)] split del: if_split)
qed

lemma sound_inst:
  assumes "inst_valid N (unat IP) Inst" "buffer_ok B" "N \<le> 2 ^ 32"
  shows "sound N Inst IP B (exec_inst Inst IP S B)"
proof -
  let ?c = "BPF_CLASS (code Inst)"
  consider "?c = BPF_LD \<or> ?c = BPF_LDX" | "?c = BPF_ST \<or> ?c = BPF_STX" | "?c = BPF_ALU" | "?c = BPF_JMP" | "?c = BPF_RET" | "?c = BPF_MISC"
    using class_cases [of "code Inst"] by auto
  then show ?thesis
  proof cases
    case 1
    then show ?thesis using assms sound_load by (auto simp: inst_valid_def exec_inst_def)
  next
    case 2
    then show ?thesis using assms sound_store by (auto simp: inst_valid_def exec_inst_def)
  next
    case 3
    then show ?thesis using assms sound_alu by (simp add: inst_valid_def exec_inst_def)
  next
    case 4
    then show ?thesis using assms sound_jump by (simp add: inst_valid_def exec_inst_def)
  qed (use assms in \<open>auto simp: inst_valid_def exec_inst_def sound_def Let_def\<close>)
qed

text \<open>
  The number of rounds a run takes: \<open>Execute_within n\<close> gives up after \<open>n\<close>.  Where it gives a result, so does the loop.
\<close>

fun Execute_within :: "nat \<Rightarrow> sock_filter list \<Rightarrow> u32 \<times> BpfState \<times> WorkingBuffer \<Rightarrow> Result option" where
  "Execute_within 0 Program c = None"
| "Execute_within (Suc n) Program c =
     (case round Program c of
        Stop e \<Rightarrow> Some (Returned e (snd (snd c)))
      | OutOfBounds \<Rightarrow> Some Undefined
      | Next IP S Buffer \<Rightarrow> Execute_within n Program (IP, S, Buffer))"

lemma Execute_within_loop: "Execute_within n Program c = Some r \<Longrightarrow> Execute_loop Program c = Some r"
proof (induction n arbitrary: c)
  case (Suc n)
  then show ?case by (subst Execute_loop.simps) (auto split: Outcome.splits)
qed simp

lemma validated_round:
  assumes "ValidateProgram P = Some 0" "length P \<le> 2 ^ 32" "unat IP < length P" "buffer_ok B"
  shows "case round P (IP, S, B) of
      Stop e \<Rightarrow> e \<noteq> FailClosed
    | OutOfBounds \<Rightarrow> False
    | Next IP' S' B' \<Rightarrow> unat IP < unat IP' \<and> unat IP' < length P \<and> buffer_ok B' \<and> Data B' = Data B"
proof -
  note v = ValidateProgram_accepts [OF assms(1)]
  have s: "sound (length P) (P ! unat IP) IP B (exec_inst (P ! unat IP) IP S B)"
    by (rule sound_inst [OF v(2) [OF assms(3)] assms(4,2)])
  have r: "round P (IP, S, B) = (case exec_inst (P ! unat IP) IP S B of Next IP' S' B' \<Rightarrow> Next (IP' + 1) S' B' | other \<Rightarrow> other)"
    using assms(3) by (simp add: round_def)
  show ?thesis
  proof (cases "exec_inst (P ! unat IP) IP S B")
    case (Next IP' S' B')
    with s have n: "Data B' = Data B" "length (ScratchMemory B') = length (ScratchMemory B)" "unat IP \<le> unat IP'"
      and ret: "BPF_CLASS (code (P ! unat IP)) \<noteq> BPF_RET" and tgt: "IP' = IP \<or> unat IP' + 1 < length P"
      by (simp_all add: sound_def)
    from ret v(3) assms(3) have "unat IP + 1 < length P" by (metis Suc_eq_plus1 Suc_lessI diff_Suc_1)
    with tgt have lt: "unat IP' + 1 < length P" by auto
    then have "unat (IP' + 1) = unat IP' + 1" using assms(2) jump_distance [of IP' 1 "length P + 1"] by (simp add: unat_plus_if')
    with n lt show ?thesis using assms(4) by (simp add: r Next buffer_ok_def)
  qed (use s in \<open>simp_all add: r sound_def\<close>)
qed

lemma validated_returns:
  assumes "ValidateProgram P = Some 0" "length P \<le> 2 ^ 32" "unat IP < length P" "buffer_ok B" "length P - unat IP \<le> n"
  shows "\<exists>e B'. Execute_within n P (IP, S, B) = Some (Returned e B') \<and> e \<noteq> FailClosed \<and> buffer_ok B' \<and> Data B' = Data B"
  using assms(3-5)
proof (induction n arbitrary: IP S B)
  case (Suc n)
  note r = validated_round [OF assms(1,2) Suc.prems(1,2), of S]
  show ?case
  proof (cases "round P (IP, S, B)")
    case (Next IP' S' B')
    with r have "unat IP < unat IP'" "unat IP' < length P" "buffer_ok B'" "Data B' = Data B" by simp_all
    then show ?thesis using Suc.IH [of IP' B' S'] Suc.prems(3) Next by auto
  qed (use r Suc.prems in auto)
qed simp

lemma start_ok: "ValidateProgram P = Some 0 \<Longrightarrow> unat (fst (start B)) < length P"
  using ValidateProgram_accepts(1) by (simp add: start_def)

subsection \<open>The words a filter reads\<close>

definition is_abs_load :: "sock_filter \<Rightarrow> bool" where
  "is_abs_load I \<longleftrightarrow> (BPF_CLASS (code I) = BPF_LD \<or> BPF_CLASS (code I) = BPF_LDX) \<and> BPF_MODE (code I) = BPF_ABS"

primrec on_buffer :: "(WorkingBuffer \<Rightarrow> WorkingBuffer) \<Rightarrow> Outcome \<Rightarrow> Outcome" where
  "on_buffer f (Stop e) = Stop e"
| "on_buffer f (Next IP S B) = Next IP S (f B)"
| "on_buffer f OutOfBounds = OutOfBounds"

lemma exec_inst_data:
  assumes "is_abs_load I \<longrightarrow> load_word D (k I) = load_word (Data B) (k I)"
  shows "exec_inst I IP S (B\<lparr>Data := D\<rparr>) = on_buffer (\<lambda>B. B\<lparr>Data := D\<rparr>) (exec_inst I IP S B)"
proof -
  let ?c = "BPF_CLASS (code I)" and ?f = "\<lambda>B :: WorkingBuffer. B\<lparr>Data := D\<rparr>"
  have alu: "exec_alu I IP S (?f B) = on_buffer ?f (exec_alu I IP S B)"
    by (simp only: exec_alu_def Let_def if_distrib [of "on_buffer ?f"] on_buffer.simps)
  have jmp: "exec_jump I IP S (?f B) = on_buffer ?f (exec_jump I IP S B)"
    by (simp only: exec_jump_def Let_def if_distrib [of "on_buffer ?f"] on_buffer.simps)
  have store: "exec_store slot v IP S (?f B) = on_buffer ?f (exec_store slot v IP S B)" for slot v
    by (simp add: exec_store_def)
  have load: "exec_load I IP S (?f B) = on_buffer ?f (exec_load I IP S B)" if "?c = BPF_LD \<or> ?c = BPF_LDX"
    using assms that by (cases "BPF_MODE (code I) = BPF_ABS") (auto simp: exec_load_def Let_def is_abs_load_def split: option.splits)
  consider "?c = BPF_LD \<or> ?c = BPF_LDX" | "?c = BPF_ST" | "?c = BPF_STX" | "?c = BPF_ALU" | "?c = BPF_JMP" | "?c = BPF_RET" | "?c = BPF_MISC"
    using class_cases [of "code I"] by auto
  then show ?thesis
    by cases (auto simp: exec_inst_def load store alu jmp Let_def)
qed

lemma Execute_within_data:
  assumes "\<forall>I \<in> set P. is_abs_load I \<longrightarrow> load_word D (k I) = load_word (Data B) (k I)"
    and "Execute_within n P (IP, S, B) = Some (Returned e B')" "ValidateProgram P = Some 0" "length P \<le> 2 ^ 32" "unat IP < length P" "buffer_ok B"
  shows "Execute_within n P (IP, S, B\<lparr>Data := D\<rparr>) = Some (Returned e (B'\<lparr>Data := D\<rparr>))"
  using assms(1,2,5,6)
proof (induction n arbitrary: IP S B)
  case (Suc n)
  have same: "exec_inst (P ! unat IP) IP S (B\<lparr>Data := D\<rparr>) = on_buffer (\<lambda>B. B\<lparr>Data := D\<rparr>) (exec_inst (P ! unat IP) IP S B)"
    using Suc.prems(1,3) by (intro exec_inst_data) auto
  then have r: "round P (IP, S, B\<lparr>Data := D\<rparr>) = on_buffer (\<lambda>B. B\<lparr>Data := D\<rparr>) (round P (IP, S, B))"
    using Suc.prems(3) by (simp add: round_def split: Outcome.splits)
  show ?case
  proof (cases "round P (IP, S, B)")
    case (Next IP' S' B1)
    moreover have "unat IP' < length P" "buffer_ok B1" "Data B1 = Data B"
      using validated_round [OF assms(3,4) Suc.prems(3,4), of S] Next by simp_all
    ultimately show ?thesis using Suc.IH [of B1 IP' S'] Suc.prems(1,2) r by simp
  qed (use Suc.prems(2) r in auto)
qed simp

text \<open>The value a filter returns, where it is defined.\<close>

definition filter_value :: "sock_filter list \<Rightarrow> WorkingBuffer \<Rightarrow> u32 option" where
  "filter_value P B = (case Execute P B of Some (Returned e B') \<Rightarrow> Some (exit_value e) | _ \<Rightarrow> None)"

lemma filter_value_defined:
  assumes "ValidateProgram P = Some 0" "length P \<le> 2 ^ 32" "buffer_ok B"
  shows "\<exists>v. filter_value P B = Some v"
  using validated_returns [OF assms(1,2) start_ok [OF assms(1)] assms(3) order.refl, of B "fst (snd (start B))"]
  by (auto simp: filter_value_def Execute_def start_def dest: Execute_within_loop)

lemma filter_value_data:
  assumes "ValidateProgram P = Some 0" "length P \<le> 2 ^ 32" "buffer_ok B"
    and "\<forall>I \<in> set P. is_abs_load I \<longrightarrow> load_word D (k I) = load_word (Data B) (k I)"
  shows "filter_value P (B\<lparr>Data := D\<rparr>) = filter_value P B"
proof -
  have ip: "unat (0 :: u32) < length P" using start_ok [OF assms(1)] by (simp add: start_def)
  obtain e B' where e: "Execute_within (length P) P (0, \<lparr>A = 0, X = 0\<rparr>, B) = Some (Returned e B')"
    using validated_returns [OF assms(1,2) ip assms(3), of "length P" "\<lparr>A = 0, X = 0\<rparr>"] by auto
  from Execute_within_data [OF assms(4) e assms(1,2) ip assms(3)] e show ?thesis
    by (simp add: filter_value_def Execute_def start_def Execute_within_loop)
qed

subsection \<open>Properties\<close>

text \<open>
  C36: A program \<open>ValidateProgram\<close> accepts always returns.  On any system call data the loop of \<open>Execute\<close> ends after at most as many rounds
  as the program has instructions, so an installed filter cannot hang the process.
\<close>

theorem validated_terminates:
  assumes "ValidateProgram P = Some 0" "length P \<le> BPF_MAXINSNS" "buffer_ok B"
  shows "\<exists>e B'. Execute P B = Some (Returned e B') \<and> Execute_within (length P) P (start B) = Some (Returned e B')"
proof -
  have "length P \<le> 2 ^ 32" using assms(2) by (simp add: BPF_MAXINSNS_def)
  from validated_returns [OF assms(1) this start_ok [OF assms(1)] assms(3), of B "length P" "fst (snd (start B))"]
  show ?thesis by (auto simp: Execute_def start_def dest: Execute_within_loop)
qed

definition zero_buffer :: WorkingBuffer where
  "zero_buffer = \<lparr>Data = replicate 64 0, ScratchMemory = replicate 16 0\<rparr>"

definition deny_write :: "sock_filter list" where
  "deny_write = [\<lparr>code = 0x20, jt = 0, jf = 0, k = 0\<rparr>, \<lparr>code = 0x15, jt = 0, jf = 1, k = 1\<rparr>,
     \<lparr>code = 0x06, jt = 0, jf = 0, k = 0x50001\<rparr>, \<lparr>code = 0x06, jt = 0, jf = 0, k = 0x7FFF0000\<rparr>]"

lemma deny_write_valid: "ValidateProgram deny_write = Some 0"
  by code_simp

lemma deny_write_length: "length deny_write = 4"
  by (simp add: deny_write_def)

lemma zero_buffer_ok: "buffer_ok zero_buffer"
  by (simp add: buffer_ok_def zero_buffer_def)

theorem validated_terminates_witness:
  "\<exists>e B'. Execute deny_write zero_buffer = Some (Returned e B') \<and> Execute_within 4 deny_write (start zero_buffer) = Some (Returned e B')"
  using validated_terminates [OF deny_write_valid _ zero_buffer_ok] by (simp add: BPF_MAXINSNS_def deny_write_length)

text \<open>The configurations a run of a program on a buffer passes through.\<close>

inductive bpf_reaches :: "sock_filter list \<Rightarrow> WorkingBuffer \<Rightarrow> u32 \<times> BpfState \<times> WorkingBuffer \<Rightarrow> bool" for P B where
  "bpf_reaches P B (start B)"
| "bpf_reaches P B c \<Longrightarrow> round P c = Next IP S B' \<Longrightarrow> bpf_reaches P B (IP, S, B')"

lemma reaches_ok:
  assumes "bpf_reaches P B c" "ValidateProgram P = Some 0" "length P \<le> 2 ^ 32" "buffer_ok B"
  shows "unat (fst c) < length P \<and> buffer_ok (snd (snd c))"
  using assms
proof (induction rule: bpf_reaches.induct)
  case 1
  then show ?case using start_ok [of P B] by (simp add: start_def)
next
  case (2 c IP S B')
  obtain IP0 S0 B0 where c: "c = (IP0, S0, B0)" by (metis prod_cases3)
  with 2 show ?case using validated_round [of P IP0 B0 S0] by simp
qed

text \<open>
  C37: A program \<open>ValidateProgram\<close> accepts never gets stuck.  In every configuration a run can reach, the instruction pointer is inside the
  program, the next round reads and writes inside the system call data and the scratch memory, and it takes none of the arms \<open>Execute\<close>
  keeps for programs that were not validated.
\<close>

theorem validated_never_stuck:
  assumes "ValidateProgram P = Some 0" "length P \<le> BPF_MAXINSNS" "buffer_ok B" "bpf_reaches P B c"
  shows "unat (fst c) < length P \<and> round P c \<noteq> OutOfBounds \<and> round P c \<noteq> Stop FailClosed"
proof -
  have len: "length P \<le> 2 ^ 32" using assms(2) by (simp add: BPF_MAXINSNS_def)
  obtain IP S B' where c: "c = (IP, S, B')" by (metis prod_cases3)
  from reaches_ok [OF assms(4,1) len assms(3)] have "unat IP < length P" "buffer_ok B'" by (simp_all add: c)
  from validated_round [OF assms(1) len this, of S] show ?thesis using \<open>unat IP < length P\<close> by (auto simp: c)
qed

theorem validated_never_stuck_witness:
  "round deny_write (1, \<lparr>A = 0, X = 0\<rparr>, zero_buffer) \<noteq> OutOfBounds \<and> round deny_write (1, \<lparr>A = 0, X = 0\<rparr>, zero_buffer) \<noteq> Stop FailClosed"
proof -
  have "round deny_write (start zero_buffer) = Next 1 \<lparr>A = 0, X = 0\<rparr> zero_buffer" by code_simp
  then have "bpf_reaches deny_write zero_buffer (1, \<lparr>A = 0, X = 0\<rparr>, zero_buffer)" by (auto intro: bpf_reaches.intros)
  from validated_never_stuck [OF deny_write_valid _ zero_buffer_ok this] show ?thesis by (simp add: BPF_MAXINSNS_def deny_write_length)
qed

text \<open>Validation is needed for this: the distance of a jump is added at 32 bits, and one that wraps leads back to itself.\<close>

lemma unvalidated_may_loop: "Execute [\<lparr>code = 0x05, jt = 0, jf = 0, k = 0xFFFFFFFF\<rparr>] zero_buffer = None"
proof -
  let ?P = "[\<lparr>code = 0x05, jt = 0, jf = 0, k = 0xFFFFFFFF\<rparr>] :: sock_filter list"
  have r: "round ?P (start zero_buffer) = Next 0 \<lparr>A = 0, X = 0\<rparr> zero_buffer" by code_simp
  have "P = ?P \<longrightarrow> c \<noteq> start zero_buffer" if returns: "Execute_loop P c = Some y" for P c y
  proof (rule Execute_loop.raw_induct [OF _ returns])
    fix f P c y
    assume IH: "\<And>P c y. f P c = Some y \<Longrightarrow> P = ?P \<longrightarrow> c \<noteq> start zero_buffer"
      and body: "(case round P c of Stop e \<Rightarrow> Some (Returned e (snd (snd c))) | Next IP S Buffer \<Rightarrow> f P (IP, S, Buffer)
        | OutOfBounds \<Rightarrow> Some Undefined) = Some y"
    show "P = ?P \<longrightarrow> c \<noteq> start zero_buffer"
    proof (rule impI, rule notI)
      assume "P = ?P" "c = start zero_buffer"
      with body r have "f ?P (start zero_buffer) = Some y" by (simp add: start_def)
      with IH show False by blast
    qed
  qed
  then show ?thesis unfolding Execute_def by (metis not_None_eq)
qed

end
