(* ===== verification/Seccomp.thy ===== *)
theory Seccomp
  imports Bpf_Interpreter
begin

text \<open>
  The emulation of seccomp, \<open>LinuxSyscalls/Seccomp/SeccompEmulator.cpp\<close>: installing filters, sharing them between threads, and deciding a
  system call from the filters of the thread, with the cache of verdicts (\<open>SeccompVerdictCache\<close> of \<open>ThreadManager.h\<close>).

  A filter is named by the number under which it was installed, which plays the part of the address of its \<open>SeccompFilterInfo\<close>.  Reference
  counts and the generation are natural numbers: each grows by one per thread or installation.  What the kernel decides
  (\<open>PR_GET_NO_NEW_PRIVS\<close>) and the guest instruction pointer \<open>RestoreRIPFromHostPC\<close> recovers are arguments; signals, kills and audit
  messages are values of \<open>Effect\<close>.  The lock and the masking of signals around an installation are not modelled: operations are atomic.
  The constants of the kernel interface have their numeric values.
\<close>

subsection \<open>State\<close>

record SeccompFilterInfo =
  Program :: "sock_filter list"
  RefCount :: nat
  FilterInstructions :: u32
  ShouldLog :: bool
  ReadsIP :: bool
  ReadsArgs :: bool

datatype CacheMode = CacheNone | NrOnly | NrRIP

record VerdictCache =
  Generation :: nat
  Mode :: CacheMode
  NeedsRIP :: bool
  AllowedNrs :: "u64 list"
  RIPAllowed :: "(u64 \<times> u64) list"

definition empty_cache :: VerdictCache where
  "empty_cache = \<lparr>Generation = 0, Mode = CacheNone, NeedsRIP = False, AllowedNrs = replicate 8 0, RIPAllowed = replicate 64 (0, 0)\<rparr>"

record ThreadState =
  Filters :: "nat list"
  SeccompMode :: u32
  SeccompCache :: VerdictCache

record SeccompEmulator =
  NeedsSeccomp :: bool
  Is64BitMode :: bool
  CurrentKillSignal :: nat
  TotalFilterInstructions :: u64
  FilterList :: "(nat \<times> SeccompFilterInfo) list"
  NextFilter :: nat
  FilterGeneration :: nat
  AuditSerial :: u64
  Threads :: "(u64 \<times> ThreadState) list"

abbreviation (input) "SECCOMP_MODE_DISABLED \<equiv> 0 :: u32"
abbreviation (input) "SECCOMP_MODE_STRICT \<equiv> 1 :: u32"
abbreviation (input) "SECCOMP_MODE_FILTER \<equiv> 2 :: u32"

definition SECCOMP_RET_KILL_PROCESS :: u32 where "SECCOMP_RET_KILL_PROCESS = 0x80000000"
definition SECCOMP_RET_KILL_THREAD :: u32 where "SECCOMP_RET_KILL_THREAD = 0"
definition SECCOMP_RET_TRAP :: u32 where "SECCOMP_RET_TRAP = 0x00030000"
definition SECCOMP_RET_ERRNO :: u32 where "SECCOMP_RET_ERRNO = 0x00050000"
definition SECCOMP_RET_USER_NOTIF :: u32 where "SECCOMP_RET_USER_NOTIF = 0x7FC00000"
definition SECCOMP_RET_TRACE :: u32 where "SECCOMP_RET_TRACE = 0x7FF00000"
definition SECCOMP_RET_LOG :: u32 where "SECCOMP_RET_LOG = 0x7FFC0000"
definition SECCOMP_RET_ALLOW :: u32 where "SECCOMP_RET_ALLOW = 0x7FFF0000"
definition SECCOMP_RET_ACTION_FULL :: u32 where "SECCOMP_RET_ACTION_FULL = 0xFFFF0000"
definition SECCOMP_RET_DATA :: u32 where "SECCOMP_RET_DATA = 0xFFFF"

definition EFAULT :: u64 where "EFAULT = 14"
definition EACCES :: u64 where "EACCES = 13"
definition ENOMEM :: u64 where "ENOMEM = 12"
definition ESRCH :: u64 where "ESRCH = 3"
definition ENOSYS :: u64 where "ENOSYS = 38"
definition EOPNOTSUPP :: u64 where "EOPNOTSUPP = 95"
definition SIGSYS :: nat where "SIGSYS = 31"
definition SIGKILL :: nat where "SIGKILL = 9"

definition thread :: "SeccompEmulator \<Rightarrow> u64 \<Rightarrow> ThreadState" where
  "thread e tid = the (map_of (Threads e) tid)"

definition info :: "SeccompEmulator \<Rightarrow> nat \<Rightarrow> SeccompFilterInfo" where
  "info e f = the (map_of (FilterList e) f)"

definition on_thread :: "u64 \<Rightarrow> (ThreadState \<Rightarrow> ThreadState) \<Rightarrow> SeccompEmulator \<Rightarrow> SeccompEmulator" where
  "on_thread tid f e = e\<lparr>Threads := map (\<lambda>(t, x). (t, if t = tid then f x else x)) (Threads e)\<rparr>"

definition on_counts :: "(nat \<Rightarrow> nat \<Rightarrow> nat) \<Rightarrow> SeccompEmulator \<Rightarrow> SeccompEmulator" where
  "on_counts f e = e\<lparr>FilterList := map (\<lambda>(id, F). (id, F\<lparr>RefCount := f id (RefCount F)\<rparr>)) (FilterList e)\<rparr>"

subsection \<open>Threads\<close>

definition InheritSeccompFilters :: "u64 \<Rightarrow> u64 \<Rightarrow> SeccompEmulator \<Rightarrow> SeccompEmulator" where
  "InheritSeccompFilters Parent Child e =
     (let P = thread e Parent in
      on_thread Child (\<lambda>c. c\<lparr>Filters := Filters P, SeccompMode := SeccompMode P\<rparr>)
        (on_counts (\<lambda>id n. n + count_list (Filters P) id) e))"

text \<open>\<open>CreateThread\<close> of \<open>ThreadManager.cpp\<close>, as far as it concerns seccomp.\<close>

definition CreateThread :: "u64 \<Rightarrow> u64 \<Rightarrow> SeccompEmulator \<Rightarrow> SeccompEmulator" where
  "CreateThread InheritThread tid e =
     InheritSeccompFilters InheritThread tid
       (e\<lparr>Threads := Threads e @ [(tid, \<lparr>Filters = [], SeccompMode = SECCOMP_MODE_DISABLED, SeccompCache = empty_cache\<rparr>)]\<rparr>)"

definition FreeSeccompFilters :: "u64 \<Rightarrow> SeccompEmulator \<Rightarrow> SeccompEmulator" where
  "FreeSeccompFilters tid e =
     (let ids = Filters (thread e tid);
          e1 = on_counts (\<lambda>id n. n - count_list ids id) e;
          HasFiltersToDelete = (\<exists>id \<in> set ids. RefCount (info e1 id) = 0);
          e2 = on_thread tid (\<lambda>t. t\<lparr>Filters := []\<rparr>) e1 in
      if HasFiltersToDelete then e2\<lparr>FilterList := filter (\<lambda>(id, F). RefCount F \<noteq> 0) (FilterList e2)\<rparr> else e2)"

definition DestroyThread :: "u64 \<Rightarrow> SeccompEmulator \<Rightarrow> SeccompEmulator" where
  "DestroyThread tid e = (let e1 = FreeSeccompFilters tid e in e1\<lparr>Threads := filter (\<lambda>(t, x). t \<noteq> tid) (Threads e1)\<rparr>)"

subsection \<open>Installing filters\<close>

fun analyze_loads :: "sock_filter list \<Rightarrow> bool \<times> bool \<Rightarrow> bool \<times> bool" where
  "analyze_loads [] found = found"
| "analyze_loads (Inst # rest) (IPRead, ArgsRead) =
     (let Class = BPF_CLASS (code Inst); Mode = BPF_MODE (code Inst) in
      if Class \<noteq> BPF_LD \<and> Class \<noteq> BPF_LDX then analyze_loads rest (IPRead, ArgsRead)
      else if Mode = BPF_IMM \<or> Mode = BPF_MEM \<or> Mode = BPF_LEN then analyze_loads rest (IPRead, ArgsRead)
      else if Mode \<noteq> BPF_ABS then (True, True)
      else if k Inst \<ge> 16 then analyze_loads rest (IPRead, True)
      else if k Inst \<ge> 8 then analyze_loads rest (True, ArgsRead)
      else analyze_loads rest (IPRead, ArgsRead))"

definition AnalyzeFilterLoads :: "SeccompFilterInfo \<Rightarrow> SeccompFilterInfo" where
  "AnalyzeFilterLoads F = (let (IPRead, ArgsRead) = analyze_loads (Program F) (False, False) in F\<lparr>ReadsIP := IPRead, ReadsArgs := ArgsRead\<rparr>)"

definition tsync_differs :: "ThreadState \<Rightarrow> ThreadState \<Rightarrow> bool" where
  "tsync_differs Parent T \<longleftrightarrow> SeccompMode T \<noteq> SECCOMP_MODE_DISABLED \<and>
     (SeccompMode T \<noteq> SeccompMode Parent \<or> length (Filters T) \<noteq> length (Filters Parent) \<or>
      (\<exists>i \<in> set [0..<length (Filters Parent)]. Filters T ! i \<noteq> Filters Parent ! i))"

definition CanDoTSync :: "u64 \<Rightarrow> SeccompEmulator \<Rightarrow> u64" where
  "CanDoTSync tid e =
     (case find (\<lambda>(t, T). t \<noteq> tid \<and> tsync_differs (thread e tid) T) (Threads e) of None \<Rightarrow> 0 | Some (t, T) \<Rightarrow> t)"

definition TSyncFilters :: "u64 \<Rightarrow> SeccompEmulator \<Rightarrow> SeccompEmulator" where
  "TSyncFilters tid e =
     (let P = thread e tid; others = length (filter (\<lambda>(t, T). t \<noteq> tid) (Threads e)) in
      on_counts (\<lambda>id n. n + others * count_list (Filters P) id)
        (e\<lparr>Threads := map (\<lambda>(t, T). (t, if t = tid then T else T\<lparr>Filters := Filters P, SeccompMode := SeccompMode P\<rparr>)) (Threads e)\<rparr>))"

abbreviation (input) "SECCOMP_FILTER_FLAG_TSYNC \<equiv> 0x01 :: u32"
abbreviation (input) "SECCOMP_FILTER_FLAG_LOG \<equiv> 0x02 :: u32"
abbreviation (input) "SECCOMP_FILTER_FLAG_SPEC_ALLOW \<equiv> 0x04 :: u32"
abbreviation (input) "SECCOMP_FILTER_FLAG_NEW_LISTENER \<equiv> 0x08 :: u32"
abbreviation (input) "SECCOMP_FILTER_FLAG_TSYNC_ESRCH \<equiv> 0x10 :: u32"

definition SUPPORTED_FLAGS :: u32 where "SUPPORTED_FLAGS = 0x17"
definition BPF_MULTIFILTERPENALTY :: u64 where "BPF_MULTIFILTERPENALTY = 4"
definition BPF_MAX_INSNS_PER_PATH :: u64 where "BPF_MAX_INSNS_PER_PATH = 32768"

text \<open>A filter that passed every test is appended to the list of all filters and to those of the thread.\<close>

definition append_filter :: "u64 \<Rightarrow> sock_filter list \<Rightarrow> bool \<Rightarrow> SeccompEmulator \<Rightarrow> SeccompEmulator" where
  "append_filter tid prog Log e =
     (let F = AnalyzeFilterLoads \<lparr>Program = prog, RefCount = 1, FilterInstructions = of_nat (length prog), ShouldLog = Log,
            ReadsIP = False, ReadsArgs = False\<rparr>;
          id = NextFilter e in
      on_thread tid (\<lambda>t. t\<lparr>Filters := Filters t @ [id]\<rparr>)
        (e\<lparr>FilterList := FilterList e @ [(id, F)], NextFilter := id + 1,
          TotalFilterInstructions := TotalFilterInstructions e + of_nat (length prog)\<rparr>))"

definition SetModeFilter :: "bool \<Rightarrow> u64 \<Rightarrow> u32 \<Rightarrow> sock_filter list option \<Rightarrow> SeccompEmulator \<Rightarrow> u64 \<times> SeccompEmulator" where
  "SetModeFilter NoNewPrivs tid flags arg e =
     (if flags AND NOT SUPPORTED_FLAGS \<noteq> 0 then (- EINVAL, e)
      else if flags AND SECCOMP_FILTER_FLAG_TSYNC \<noteq> 0 \<and> flags AND SECCOMP_FILTER_FLAG_NEW_LISTENER \<noteq> 0 \<and>
              flags AND SECCOMP_FILTER_FLAG_TSYNC_ESRCH = 0 then (- EINVAL, e)
      else case arg of
        None \<Rightarrow> (- EFAULT, e)
      | Some prog \<Rightarrow>
          if \<not> NoNewPrivs then (- EACCES, e)
          else if BPF_MAXINSNS < length prog \<or> length prog = 0 then (- EINVAL, e)
          else if BPF_MAX_INSNS_PER_PATH <
              TotalFilterInstructions e + of_nat (length prog) + of_nat (length (Filters (thread e tid))) * BPF_MULTIFILTERPENALTY
            then (- ENOMEM, e)
          else if flags AND SECCOMP_FILTER_FLAG_TSYNC \<noteq> 0 \<and> CanDoTSync tid e \<noteq> 0 then
            (if flags AND SECCOMP_FILTER_FLAG_TSYNC_ESRCH \<noteq> 0 then - ESRCH else CanDoTSync tid e, e)
          else case ValidateProgram prog of
            None \<Rightarrow> (- EINVAL, e)
          | Some Result \<Rightarrow>
              if Result = 0 then
                let e1 = append_filter tid prog (flags AND SECCOMP_FILTER_FLAG_LOG \<noteq> 0) e;
                    e2 = on_thread tid (\<lambda>t. t\<lparr>SeccompMode := SECCOMP_MODE_FILTER\<rparr>) e1;
                    e3 = (if flags AND SECCOMP_FILTER_FLAG_TSYNC \<noteq> 0 then TSyncFilters tid e2 else e2) in
                (Result, e3\<lparr>FilterGeneration := FilterGeneration e3 + 1\<rparr>)
              else (Result, e))"

definition BPF_STMT :: "u16 \<Rightarrow> u32 \<Rightarrow> sock_filter" where
  "BPF_STMT c v = \<lparr>code = c, jt = 0, jf = 0, k = v\<rparr>"

definition BPF_JUMP :: "u16 \<Rightarrow> u32 \<Rightarrow> u8 \<Rightarrow> u8 \<Rightarrow> sock_filter" where
  "BPF_JUMP c v t f = \<lparr>code = c, jt = t, jf = f, k = v\<rparr>"

definition ALLOW_SYSCALL :: "u32 \<Rightarrow> sock_filter list" where
  "ALLOW_SYSCALL nr = [BPF_JUMP (BPF_JMP + BPF_JEQ + BPF_K) nr 0 1, BPF_STMT (BPF_RET + BPF_K) SECCOMP_RET_ALLOW]"

definition strict_filter :: "u32 list \<Rightarrow> sock_filter list" where
  "strict_filter nrs = [BPF_STMT (BPF_LD + BPF_W + BPF_ABS) 0] @ concat (map ALLOW_SYSCALL nrs) @ [BPF_STMT (BPF_RET + BPF_K) SECCOMP_RET_KILL_PROCESS]"

text \<open>\<open>read\<close>, \<open>write\<close>, \<open>exit\<close>, \<open>exit_group\<close>, \<open>rt_sigreturn\<close>, and for 32-bit guests \<open>sigreturn\<close>, by their numbers.\<close>

definition strict_nrs :: "bool \<Rightarrow> u32 list" where
  "strict_nrs is64 = (if is64 then [0, 1, 60, 231, 15] else [3, 4, 1, 252, 173, 119])"

definition SetModeStrict :: "bool \<Rightarrow> u64 \<Rightarrow> u32 \<Rightarrow> bool \<Rightarrow> SeccompEmulator \<Rightarrow> u64 \<times> SeccompEmulator" where
  "SetModeStrict NoNewPrivs tid flags ArgGiven e =
     (if \<not> NoNewPrivs then (- EACCES, e)
      else if flags \<noteq> 0 then (- EINVAL, e)
      else if ArgGiven then (- EINVAL, e)
      else if SeccompMode (thread e tid) = SECCOMP_MODE_FILTER then (- EINVAL, e)
      else
        let e1 = e\<lparr>CurrentKillSignal := SIGKILL\<rparr>;
            e2 = snd (SetModeFilter NoNewPrivs tid 0 (Some (strict_filter (strict_nrs (Is64BitMode e)))) e1) in
        (0, on_thread tid (\<lambda>t. t\<lparr>SeccompMode := SECCOMP_MODE_STRICT\<rparr>) e2))"

definition GetActionAvail :: "u32 \<Rightarrow> u32 option \<Rightarrow> u64" where
  "GetActionAvail flags action =
     (if flags \<noteq> 0 then - EINVAL
      else case action of
        None \<Rightarrow> - EFAULT
      | Some a \<Rightarrow>
          if a \<in> {SECCOMP_RET_KILL_PROCESS, SECCOMP_RET_KILL_THREAD, SECCOMP_RET_TRAP, SECCOMP_RET_ERRNO, SECCOMP_RET_LOG, SECCOMP_RET_ALLOW}
          then 0 else - EOPNOTSUPP)"

definition GetSeccomp :: "u64 \<Rightarrow> SeccompEmulator \<Rightarrow> u64" where
  "GetSeccomp tid e = (if \<not> NeedsSeccomp e then - EINVAL else ucast (SeccompMode (thread e tid)))"

text \<open>The sizes of the kernel structures, written to the guest.\<close>

record seccomp_notif_sizes =
  seccomp_notif :: u16
  seccomp_notif_resp :: u16
  seccomp_data_size :: u16

definition GetNotifSizes :: "u32 \<Rightarrow> u64 \<times> seccomp_notif_sizes option" where
  "GetNotifSizes flags =
     (if flags \<noteq> 0 then (- EINVAL, None)
      else (0, Some \<lparr>seccomp_notif = 80, seccomp_notif_resp = 24, seccomp_data_size = 64\<rparr>))"

text \<open>
  The system call.  Its argument is a guest pointer; \<open>read_prog\<close> and \<open>read_u32\<close> give what the guest memory holds there.  The last component
  is what \<open>GetNotifSizes\<close> writes back.
\<close>

definition Handle ::
    "(u64 \<Rightarrow> sock_filter list) \<Rightarrow> (u64 \<Rightarrow> u32) \<Rightarrow> bool \<Rightarrow> u64 \<Rightarrow> u32 \<Rightarrow> u32 \<Rightarrow> u64 \<Rightarrow> SeccompEmulator \<Rightarrow>
     u64 \<times> SeccompEmulator \<times> seccomp_notif_sizes option" where
  "Handle read_prog read_u32 NoNewPrivs tid Op flags arg e =
     (if \<not> NeedsSeccomp e then (- EINVAL, e, None)
      else if Op = 0 then (let (r, e') = SetModeStrict NoNewPrivs tid flags (arg \<noteq> 0) e in (r, e', None))
      else if Op = 1 then
        (let (r, e') = SetModeFilter NoNewPrivs tid flags (if arg = 0 then None else Some (read_prog arg)) e in (r, e', None))
      else if Op = 2 then (GetActionAvail flags (if arg = 0 then None else Some (read_u32 arg)), e, None)
      else if Op = 3 then (let (r, sizes) = GetNotifSizes flags in (r, e, sizes))
      else (- EINVAL, e, None))"

text \<open>\<open>PR_SET_SECCOMP\<close> of the \<open>prctl\<close> handler in \<open>Syscalls/Thread.cpp\<close>.\<close>

definition prctl_SET_SECCOMP ::
    "(u64 \<Rightarrow> sock_filter list) \<Rightarrow> (u64 \<Rightarrow> u32) \<Rightarrow> bool \<Rightarrow> u64 \<Rightarrow> u64 \<Rightarrow> u64 \<Rightarrow> SeccompEmulator \<Rightarrow>
     u64 \<times> SeccompEmulator \<times> seccomp_notif_sizes option" where
  "prctl_SET_SECCOMP read_prog read_u32 NoNewPrivs tid arg2 arg3 e =
     (let Operation = 0;
          Operation = (if arg2 = ucast SECCOMP_MODE_STRICT then 0 else Operation);
          Operation = (if arg2 = ucast SECCOMP_MODE_FILTER then 1 else Operation) in
      Handle read_prog read_u32 NoNewPrivs tid Operation 0 arg3 e)"

subsection \<open>Deciding a system call\<close>

type_synonym SyscallArguments = "u64 list"

datatype Effect =
    Audit nat u64 u64 u32 u64
  | KillProcess nat
  | KillThread
  | QueueSIGSYS u32 u64 u64 u32

definition Arch :: "SeccompEmulator \<Rightarrow> u32" where
  "Arch e = (if Is64BitMode e then 0xC000003E else 0x40000003)"

definition seccomp_data :: "SeccompEmulator \<Rightarrow> u64 \<Rightarrow> SyscallArguments \<Rightarrow> u8 list" where
  "seccomp_data e RIP Args =
     le_bytes 4 (ucast (Args ! 0) :: u32) @ le_bytes 4 (Arch e) @ le_bytes 8 RIP @ concat (map (le_bytes 8) (take 6 (drop 1 Args)))"

definition action_of :: "u32 \<Rightarrow> int" where
  "action_of r = sint (ucast (drop_bit 16 (r AND SECCOMP_RET_ACTION_FULL)) :: u16)"

fun run_filters :: "u8 list \<Rightarrow> SeccompFilterInfo list \<Rightarrow> (u32 \<times> bool) option \<Rightarrow> (u32 \<times> bool) option option" where
  "run_filters D [] acc = Some acc"
| "run_filters D (F # rest) acc =
     (case filter_value (Program F) \<lparr>Data = D, ScratchMemory = replicate 16 0\<rparr> of
        None \<Rightarrow> None
      | Some CurrentResult \<Rightarrow>
          run_filters D rest
            (case acc of
               None \<Rightarrow> Some (CurrentResult, ShouldLog F)
             | Some (SeccompResult, Log) \<Rightarrow>
                 if action_of CurrentResult < action_of SeccompResult then Some (CurrentResult, ShouldLog F) else acc))"

definition verdict :: "SeccompEmulator \<Rightarrow> nat list \<Rightarrow> u64 \<Rightarrow> SyscallArguments \<Rightarrow> (u32 \<times> bool) option" where
  "verdict e ids RIP Args =
     (case run_filters (seccomp_data e RIP Args) (map (info e) (rev ids)) None of
        None \<Rightarrow> None | Some None \<Rightarrow> Some (0, False) | Some (Some r) \<Rightarrow> Some r)"

definition kill_signal :: "SeccompEmulator \<Rightarrow> u32 \<Rightarrow> nat" where
  "kill_signal e ActionMasked =
     (if ActionMasked = SECCOMP_RET_KILL_PROCESS \<or> ActionMasked = SECCOMP_RET_KILL_THREAD then CurrentKillSignal e
      else if ActionMasked = SECCOMP_RET_TRAP then SIGSYS else 0)"

text \<open>The audit message, then the result for the system call and the effect of the action.\<close>

definition audit :: "u32 \<times> bool \<Rightarrow> u64 \<Rightarrow> SyscallArguments \<Rightarrow> SeccompEmulator \<Rightarrow> Effect list \<times> SeccompEmulator" where
  "audit r RIP Args e =
     (let (SeccompResult, Log) = r; ActionMasked = SeccompResult AND SECCOMP_RET_ACTION_FULL in
      if Log \<and> ActionMasked \<noteq> SECCOMP_RET_ALLOW \<or> ActionMasked = SECCOMP_RET_LOG
      then ([Audit (kill_signal e ActionMasked) (Args ! 0) RIP SeccompResult (AuditSerial e)], e\<lparr>AuditSerial := AuditSerial e + 1\<rparr>)
      else ([], e))"

definition take_action :: "u32 \<Rightarrow> u64 \<Rightarrow> SyscallArguments \<Rightarrow> SeccompEmulator \<Rightarrow> (bool \<times> u64) \<times> Effect list" where
  "take_action SeccompResult RIP Args e =
     (let ActionMasked = SeccompResult AND SECCOMP_RET_ACTION_FULL;
          DataMasked = SeccompResult AND SECCOMP_RET_DATA in
      if ActionMasked = SECCOMP_RET_KILL_THREAD then ((False, 0), [KillThread])
      else if ActionMasked = SECCOMP_RET_TRAP then ((False, 0), [QueueSIGSYS DataMasked RIP (Args ! 0) (Arch e)])
      else if ActionMasked = SECCOMP_RET_ERRNO then ((True, - min (ucast DataMasked) 4095), [])
      else if ActionMasked = SECCOMP_RET_TRACE then ((True, - ENOSYS), [])
      else if ActionMasked = SECCOMP_RET_USER_NOTIF \<or> ActionMasked = SECCOMP_RET_LOG \<or> ActionMasked = SECCOMP_RET_ALLOW then ((False, 0), [])
      else ((False, 0), [KillProcess (CurrentKillSignal e)]))"

definition apply_verdict :: "u32 \<times> bool \<Rightarrow> u64 \<Rightarrow> SyscallArguments \<Rightarrow> SeccompEmulator \<Rightarrow> (bool \<times> u64) \<times> Effect list \<times> SeccompEmulator" where
  "apply_verdict r RIP Args e =
     (let (logged, e') = audit r RIP Args e; (result, effects) = take_action (fst r) RIP Args e in (result, logged @ effects, e'))"

definition way :: "u64 \<Rightarrow> u64 \<Rightarrow> nat" where
  "way RIP Nr = unat ((RIP XOR drop_bit 7 RIP XOR Nr) AND 63)"

definition remember :: "u32 \<Rightarrow> u64 \<Rightarrow> u64 \<Rightarrow> VerdictCache \<Rightarrow> VerdictCache" where
  "remember SeccompResult RIP Nr Cache =
     (if SeccompResult AND SECCOMP_RET_ACTION_FULL \<noteq> SECCOMP_RET_ALLOW then Cache
      else if Mode Cache = NrOnly \<and> Nr < 512 then
        Cache\<lparr>AllowedNrs := (AllowedNrs Cache)[unat Nr div 64 := AllowedNrs Cache ! (unat Nr div 64) OR push_bit (unat Nr mod 64) 1]\<rparr>
      else if Mode Cache = NrRIP then Cache\<lparr>RIPAllowed := (RIPAllowed Cache)[way RIP Nr := (RIP, Nr + 1)]\<rparr>
      else Cache)"

definition ExecuteFilterSlow :: "u64 \<Rightarrow> u64 \<Rightarrow> bool \<Rightarrow> SyscallArguments \<Rightarrow> SeccompEmulator \<Rightarrow>
    ((bool \<times> u64) \<times> Effect list \<times> SeccompEmulator) option" where
  "ExecuteFilterSlow tid GuestRIP HaveRIP Args e =
     (let Cache = SeccompCache (thread e tid);
          RIP = (if HaveRIP \<or> NeedsRIP Cache then GuestRIP else 0) in
      case verdict e (Filters (thread e tid)) RIP Args of
        None \<Rightarrow> None
      | Some r \<Rightarrow>
          Some (apply_verdict r GuestRIP Args
            (on_thread tid (\<lambda>t. t\<lparr>SeccompCache := remember (fst r) RIP (Args ! 0) (SeccompCache t)\<rparr>) e)))"

definition rebuilt :: "SeccompEmulator \<Rightarrow> nat list \<Rightarrow> VerdictCache" where
  "rebuilt e ids =
     (let AnyArgs = (\<exists>F \<in> set (map (info e) ids). ReadsArgs F); AnyIP = (\<exists>F \<in> set (map (info e) ids). ReadsIP F) in
      \<lparr>Generation = FilterGeneration e, Mode = (if AnyArgs then CacheNone else if AnyIP then NrRIP else NrOnly), NeedsRIP = AnyIP,
       AllowedNrs = replicate 8 0, RIPAllowed = replicate 64 (0, 0)\<rparr>)"

definition revalidate :: "u64 \<Rightarrow> SeccompEmulator \<Rightarrow> SeccompEmulator" where
  "revalidate tid e =
     (if Generation (SeccompCache (thread e tid)) \<noteq> FilterGeneration e
      then on_thread tid (\<lambda>t. t\<lparr>SeccompCache := rebuilt e (Filters t)\<rparr>) e else e)"

definition cache_hit :: "VerdictCache \<Rightarrow> u64 \<Rightarrow> u64 \<Rightarrow> bool" where
  "cache_hit Cache RIP Nr =
     (case Mode Cache of
        CacheNone \<Rightarrow> False
      | NrOnly \<Rightarrow> Nr < 512 \<and> AllowedNrs Cache ! (unat Nr div 64) AND push_bit (unat Nr mod 64) 1 \<noteq> 0
      | NrRIP \<Rightarrow> RIPAllowed Cache ! way RIP Nr = (RIP, Nr + 1))"

definition ExecuteFilter :: "u64 \<Rightarrow> u64 \<Rightarrow> SyscallArguments \<Rightarrow> SeccompEmulator \<Rightarrow> ((bool \<times> u64) \<times> Effect list \<times> SeccompEmulator) option" where
  "ExecuteFilter tid GuestRIP Args e =
     (if Filters (thread e tid) = [] then Some ((False, 0), [], e)
      else
        let e = revalidate tid e; Cache = SeccompCache (thread e tid) in
        if cache_hit Cache GuestRIP (Args ! 0) then Some ((False, 0), [], e)
        else ExecuteFilterSlow tid GuestRIP (Mode Cache = NrRIP) Args e)"

text \<open>What a system call meets first in \<open>HandleSyscallImpl\<close>; \<open>None\<close> in the first component means that it goes on to its handler.\<close>

definition HandleSyscall_seccomp :: "u64 \<Rightarrow> u64 \<Rightarrow> SyscallArguments \<Rightarrow> SeccompEmulator \<Rightarrow>
    (u64 option \<times> Effect list \<times> SeccompEmulator) option" where
  "HandleSyscall_seccomp tid GuestRIP Args e =
     (if Filters (thread e tid) \<noteq> [] then
        map_option (\<lambda>((EarlyReturn, Result), effects, e'). (if EarlyReturn then Some Result else None, effects, e'))
          (ExecuteFilter tid GuestRIP Args e)
      else Some (None, [], e))"

subsection \<open>Reading the state back\<close>

definition tids :: "SeccompEmulator \<Rightarrow> u64 set" where
  "tids e = fst ` set (Threads e)"

definition fids :: "SeccompEmulator \<Rightarrow> nat set" where
  "fids e = fst ` set (FilterList e)"

lemma map_of_map_values: "map_of (map (\<lambda>(x, y). (x, g x y)) xs) x = map_option (g x) (map_of xs x)"
  by (induction xs) auto

lemma fst_map_values: "map fst (map (\<lambda>(x, y). (x, g x y)) xs) = map fst xs"
  by (induction xs) auto

lemma fst_image_map_values: "fst ` (\<lambda>(x, y). (x, g x y)) ` S = fst ` S"
  by force

lemma on_thread_simps [simp]:
  "FilterList (on_thread t g e) = FilterList e" "Is64BitMode (on_thread t g e) = Is64BitMode e"
  "FilterGeneration (on_thread t g e) = FilterGeneration e" "NextFilter (on_thread t g e) = NextFilter e"
  "map fst (Threads (on_thread t g e)) = map fst (Threads e)" "tids (on_thread t g e) = tids e" "fids (on_thread t g e) = fids e"
  "info (on_thread t g e) = info e"
  by (simp_all add: on_thread_def fst_map_values tids_def fids_def fst_image_map_values info_def fun_eq_iff del: map_map)

lemma on_counts_simps [simp]:
  "Threads (on_counts h e) = Threads e" "Is64BitMode (on_counts h e) = Is64BitMode e"
  "FilterGeneration (on_counts h e) = FilterGeneration e" "NextFilter (on_counts h e) = NextFilter e"
  "map fst (FilterList (on_counts h e)) = map fst (FilterList e)" "tids (on_counts h e) = tids e" "fids (on_counts h e) = fids e"
  "thread (on_counts h e) = thread e"
  by (simp_all add: on_counts_def fst_map_values tids_def fids_def fst_image_map_values thread_def fun_eq_iff del: map_map)

lemma thread_on_thread:
  "t \<in> tids e \<Longrightarrow> thread (on_thread u g e) t = (if t = u then g (thread e t) else thread e t)"
  by (auto simp: thread_def on_thread_def map_of_map_values tids_def dest!: weak_map_of_SomeI)

lemma info_on_counts:
  "f \<in> fids e \<Longrightarrow> info (on_counts h e) f = (info e f)\<lparr>RefCount := h f (RefCount (info e f))\<rparr>"
  by (auto simp: info_def on_counts_def map_of_map_values fids_def dest!: weak_map_of_SomeI)

lemma info_append:
  assumes "\<forall>f \<in> fids e. f < NextFilter e"
  shows "info (append_filter tid prog Log e) f =
    (if f = NextFilter e then
       AnalyzeFilterLoads \<lparr>Program = prog, RefCount = 1, FilterInstructions = of_nat (length prog), ShouldLog = Log, ReadsIP = False, ReadsArgs = False\<rparr>
     else info e f)"
proof -
  have "NextFilter e \<notin> fids e" using assms by blast
  then have "map_of (FilterList e) (NextFilter e) = None" by (simp add: fids_def map_of_eq_None_iff)
  then show ?thesis by (auto simp: append_filter_def Let_def info_def on_thread_def map_add_def split: option.split)
qed

lemma append_simps [simp]:
  "fids (append_filter tid prog Log e) = insert (NextFilter e) (fids e)" "tids (append_filter tid prog Log e) = tids e"
  "NextFilter (append_filter tid prog Log e) = NextFilter e + 1" "FilterGeneration (append_filter tid prog Log e) = FilterGeneration e"
  "Is64BitMode (append_filter tid prog Log e) = Is64BitMode e"
  "map fst (Threads (append_filter tid prog Log e)) = map fst (Threads e)"
  "map fst (FilterList (append_filter tid prog Log e)) = map fst (FilterList e) @ [NextFilter e]"
  by (simp_all add: append_filter_def Let_def fids_def tids_def on_thread_def fst_image_map_values fst_map_values del: map_map)

lemma thread_append:
  "t \<in> tids e \<Longrightarrow> thread (append_filter tid prog Log e) t =
     (if t = tid then (thread e t)\<lparr>Filters := Filters (thread e t) @ [NextFilter e]\<rparr> else thread e t)"
  unfolding append_filter_def Let_def
  by (subst thread_on_thread) (auto simp: tids_def thread_def)

end
