(* ===== verification/Seccomp_Verdict.thy ===== *)
theory Seccomp_Verdict
  imports Seccomp
begin

text \<open>
  What the filters of a thread decide: the verdict is defined whenever every filter was validated, it is the one the kernel takes from a chain of
  filters, and it depends only on the fields \<open>AnalyzeFilterLoads\<close> found.
\<close>

subsection \<open>Filters as installed\<close>

definition filter_ok :: "SeccompFilterInfo \<Rightarrow> bool" where
  "filter_ok F \<longleftrightarrow> ValidateProgram (Program F) = Some 0 \<and> length (Program F) \<le> BPF_MAXINSNS \<and>
     FilterInstructions F = of_nat (length (Program F)) \<and> analyze_loads (Program F) (False, False) = (ReadsIP F, ReadsArgs F)"

lemma filter_ok_program:
  assumes "filter_ok F"
  shows "ValidateProgram (Program F) = Some 0" "length (Program F) \<le> 2 ^ 32"
  using assms by (auto simp: filter_ok_def BPF_MAXINSNS_def)

lemma filter_ok_RefCount [simp]: "filter_ok (F\<lparr>RefCount := n\<rparr>) = filter_ok F"
  by (simp add: filter_ok_def)

lemma filter_ok_analyzed:
  "ValidateProgram P = Some 0 \<Longrightarrow> length P \<le> BPF_MAXINSNS \<Longrightarrow>
   filter_ok (AnalyzeFilterLoads \<lparr>Program = P, RefCount = n, FilterInstructions = of_nat (length P), ShouldLog = b, ReadsIP = False, ReadsArgs = False\<rparr>)"
  by (simp add: filter_ok_def AnalyzeFilterLoads_def split: prod.split)

lemma analyze_mono: "analyze_loads P (a, b) = (i, r) \<Longrightarrow> (a \<longrightarrow> i) \<and> (b \<longrightarrow> r)"
  by (induction P "(a, b)" arbitrary: a b rule: analyze_loads.induct) (auto simp: Let_def split: if_splits)

text \<open>A load the analysis did not report stays below the field.\<close>

lemma analyze_sound:
  "analyze_loads P (a, b) = (i, r) \<Longrightarrow> I \<in> set P \<Longrightarrow> is_abs_load I \<Longrightarrow> (k I \<ge> 16 \<longrightarrow> r) \<and> (8 \<le> k I \<and> k I < 16 \<longrightarrow> i)"
proof (induction P "(a, b)" arbitrary: a b rule: analyze_loads.induct)
  case (2 J rest a b)
  show ?case
  proof (cases "I = J")
    case True
    with 2(6-8) show ?thesis
      by (auto simp: is_abs_load_def Let_def not_le[symmetric] dest: analyze_mono split: if_splits)
  next
    case False
    with 2 show ?thesis by (auto simp: Let_def split: if_splits)
  qed
qed simp

lemma abs_load_aligned:
  assumes "ValidateProgram P = Some 0" "I \<in> set P" "is_abs_load I"
  shows "4 dvd unat (k I)" "unat (k I) < 64"
proof -
  obtain j where "j < length P" "I = P ! j" using assms(2) by (metis in_set_conv_nth)
  with ValidateProgram_accepts(2) [OF assms(1)] have "inst_valid (length P) j I" by simp
  with assms(3) have v: "k I AND 0b11 = 0" "k I < 64"
    by (auto simp: is_abs_load_def inst_valid_def load_valid_def SECCOMP_DATA_SIZE_def Let_def)
  then show "unat (k I) < 64" by (simp add: word_less_nat_alt)
  have "take_bit 2 (k I) = 0" using v(1) by (simp add: take_bit_eq_mask mask_eq_exp_minus_1)
  then have "take_bit 2 (unat (k I)) = 0" by (metis unsigned_0 unsigned_take_bit_eq)
  then show "4 dvd unat (k I)" by (simp add: take_bit_eq_mod mod_eq_0_iff_dvd)
qed

subsection \<open>The data\<close>

lemma length_concat_le_bytes: "length (concat (map (le_bytes n) xs)) = n * length xs"
  by (induction xs) auto

lemma length_seccomp_data: "length Args = 7 \<Longrightarrow> length (seccomp_data e RIP Args) = 64"
  by (simp add: seccomp_data_def length_concat_le_bytes)

lemma data_buffer_ok: "length Args = 7 \<Longrightarrow> buffer_ok \<lparr>Data = seccomp_data e RIP Args, ScratchMemory = replicate 16 0\<rparr>"
  by (simp add: buffer_ok_def length_seccomp_data)

lemma load_word_prefix:
  assumes "unat off + 4 \<le> n" "n \<le> length D" "n \<le> length D'" "take n D = take n D'"
  shows "load_word D off = load_word D' off"
proof -
  have "take 4 (drop (unat off) xs) = drop (unat off) (take (unat off + 4) (take n xs))" for xs :: "u8 list"
    using assms(1) by (simp add: take_drop add.commute min_absorb1)
  then have "take 4 (drop (unat off) D) = take 4 (drop (unat off) D')" by (simp only: assms(4))
  then show ?thesis using assms(1-3) by (simp add: load_word_def)
qed

lemma load_word_suffix:
  assumes "n \<le> unat off" "length D = length D'" "drop n D = drop n D'"
  shows "load_word D off = load_word D' off"
proof -
  have "drop (unat off) xs = drop (unat off - n) (drop n xs)" for xs :: "u8 list"
    using assms(1) by simp
  then have "drop (unat off) D = drop (unat off) D'" by (simp only: assms(3))
  then show ?thesis using assms(2) by (simp add: load_word_def)
qed

text \<open>The words of the data of two system calls agree outside the fields in which the calls differ.\<close>

lemma load_word_data:
  assumes len: "length Args = 7" "length Args' = 7" and nr: "Args' ! 0 = Args ! 0" and al: "4 dvd unat off"
    and ip: "8 \<le> off \<and> off < 16 \<longrightarrow> RIP' = RIP" and ar: "16 \<le> off \<longrightarrow> Args' = Args" and arch: "Is64BitMode e' = Is64BitMode e"
  shows "load_word (seccomp_data e' RIP' Args') off = load_word (seccomp_data e RIP Args) off"
proof -
  have A: "Arch e' = Arch e" by (simp add: Arch_def arch)
  consider "off < 8" | "8 \<le> off" "off < 16" | "16 \<le> off" by (meson not_le)
  then show ?thesis
  proof cases
    case 1
    with al have "unat off + 4 \<le> 8" by (auto simp: word_less_nat_alt elim!: dvdE)
    then show ?thesis
      by (rule load_word_prefix) (use len nr A in \<open>simp_all add: length_seccomp_data, simp add: seccomp_data_def\<close>)
  next
    case 2
    with al have "unat off + 4 \<le> 16" by (auto simp: word_less_nat_alt word_le_nat_alt elim!: dvdE)
    then show ?thesis
      by (rule load_word_prefix) (use len nr A ip 2 in \<open>simp_all add: length_seccomp_data, simp add: seccomp_data_def\<close>)
  next
    case 3
    show ?thesis
      by (rule load_word_suffix [where n = 16])
        (use len A ar 3 in \<open>simp_all add: length_seccomp_data word_le_nat_alt, simp add: seccomp_data_def\<close>)
  qed
qed

subsection \<open>The chain\<close>

definition value_of :: "u8 list \<Rightarrow> SeccompFilterInfo \<Rightarrow> u32 \<times> bool" where
  "value_of D F = (the (filter_value (Program F) \<lparr>Data = D, ScratchMemory = replicate 16 0\<rparr>), ShouldLog F)"

lemma filter_value_ok:
  "filter_ok F \<Longrightarrow> length D = 64 \<Longrightarrow>
   filter_value (Program F) \<lparr>Data = D, ScratchMemory = replicate 16 0\<rparr> = Some (fst (value_of D F))"
  using filter_value_defined [OF filter_ok_program, of F "\<lparr>Data = D, ScratchMemory = replicate 16 0\<rparr>"]
  by (auto simp: value_of_def buffer_ok_def)

definition lower :: "u32 \<times> bool \<Rightarrow> u32 \<times> bool \<Rightarrow> u32 \<times> bool" where
  "lower acc r = (if action_of (fst r) < action_of (fst acc) then r else acc)"

lemma run_filters_fold:
  assumes "\<forall>F \<in> set Fs. filter_ok F" "length D = 64"
  shows "run_filters D Fs (Some acc) = Some (Some (foldl lower acc (map (value_of D) Fs)))"
  using assms(1)
proof (induction Fs arbitrary: acc)
  case (Cons F Fs)
  then show ?case
    by (cases acc) (simp add: filter_value_ok assms(2) lower_def, simp add: value_of_def)
qed simp

lemma arg_min_list_cons:
  "xs \<noteq> [] \<Longrightarrow> arg_min_list f (x # xs) = (let m = arg_min_list f xs in if f x \<le> f m then x else m)"
  by (cases xs) auto

lemma fold_lower_arg_min: "foldl lower a rs = arg_min_list (\<lambda>r. action_of (fst r)) (a # rs)"
proof (induction rs arbitrary: a)
  case (Cons r rs)
  have "foldl lower a (r # rs) = arg_min_list (\<lambda>r. action_of (fst r)) (lower a r # rs)" by (simp only: foldl.simps Cons.IH)
  also have "\<dots> = arg_min_list (\<lambda>r. action_of (fst r)) (a # r # rs)"
    by (cases rs) (auto simp: lower_def Let_def)
  finally show ?case .
qed simp

lemma verdict_ok:
  assumes "ids \<noteq> []" "\<forall>f \<in> set ids. filter_ok (info e f)" "length Args = 7"
  shows "verdict e ids RIP Args =
     Some (arg_min_list (\<lambda>r. action_of (fst r)) (map (value_of (seccomp_data e RIP Args)) (map (info e) (rev ids))))"
proof -
  let ?D = "seccomp_data e RIP Args"
  obtain F Fs where Fs: "map (info e) (rev ids) = F # Fs" using assms(1) by (cases "map (info e) (rev ids)") auto
  have "set (F # Fs) = info e ` set ids" by (metis Fs list.set_map set_rev)
  with assms(2) have ok: "filter_ok F" "\<forall>F \<in> set Fs. filter_ok F" by (metis imageE list.set_intros)+
  have "run_filters ?D (F # Fs) None = run_filters ?D Fs (Some (value_of ?D F))"
    by (simp add: filter_value_ok ok(1) length_seccomp_data assms(3)) (simp add: value_of_def)
  with ok(2) show ?thesis
    by (simp add: verdict_def Fs run_filters_fold length_seccomp_data assms(3) fold_lower_arg_min del: run_filters.simps)
qed

subsection \<open>What the verdict depends on\<close>

abbreviation core :: "SeccompFilterInfo \<Rightarrow> SeccompFilterInfo" where
  "core F \<equiv> F\<lparr>RefCount := 0\<rparr>"

definition same_filters :: "nat list \<Rightarrow> SeccompEmulator \<Rightarrow> SeccompEmulator \<Rightarrow> bool" where
  "same_filters ids e e' \<longleftrightarrow> Is64BitMode e' = Is64BitMode e \<and> (\<forall>f \<in> set ids. core (info e' f) = core (info e f))"

lemma core_eqD:
  assumes "core F = core G"
  shows "Program F = Program G" "ShouldLog F = ShouldLog G" "ReadsIP F = ReadsIP G" "ReadsArgs F = ReadsArgs G" "filter_ok F = filter_ok G"
  using assms by (cases F; cases G; simp add: filter_ok_def)+

lemma run_filters_core:
  "map core Fs = map core Gs \<Longrightarrow> run_filters D Fs acc = run_filters D Gs acc"
proof (induction Fs arbitrary: Gs acc)
  case (Cons F Fs)
  then obtain G Gs' where G: "Gs = G # Gs'" "core F = core G" "map core Fs = map core Gs'" by auto
  show ?case using Cons.IH [OF G(3)] core_eqD(1,2) [OF G(2)] by (simp add: G(1) split: option.split)
qed simp

lemma verdict_same_filters:
  "same_filters ids e e' \<Longrightarrow> verdict e' ids RIP Args = verdict e ids RIP Args"
  using run_filters_core [of "map (info e') (rev ids)" "map (info e) (rev ids)"]
  by (simp add: verdict_def same_filters_def seccomp_data_def Arch_def)

lemma rebuilt_same_filters:
  assumes "same_filters ids e e'"
  shows "Mode (rebuilt e' ids) = Mode (rebuilt e ids)" "NeedsRIP (rebuilt e' ids) = NeedsRIP (rebuilt e ids)"
proof -
  have "\<And>f. f \<in> set ids \<Longrightarrow> ReadsIP (info e' f) = ReadsIP (info e f)" "\<And>f. f \<in> set ids \<Longrightarrow> ReadsArgs (info e' f) = ReadsArgs (info e f)"
    using assms by (auto simp: same_filters_def dest: core_eqD)
  then show "Mode (rebuilt e' ids) = Mode (rebuilt e ids)" "NeedsRIP (rebuilt e' ids) = NeedsRIP (rebuilt e ids)"
    by (simp_all add: rebuilt_def Let_def)
qed

lemma value_of_data:
  assumes "filter_ok F" and len: "length Args = 7" "length Args' = 7" and nr: "Args' ! 0 = Args ! 0"
    and ip: "ReadsIP F \<longrightarrow> RIP' = RIP" and ar: "ReadsArgs F \<longrightarrow> Args' = Args"
  shows "value_of (seccomp_data e RIP' Args') F = value_of (seccomp_data e RIP Args) F"
proof -
  have "load_word (seccomp_data e RIP' Args') (k I) = load_word (seccomp_data e RIP Args) (k I)"
    if "I \<in> set (Program F)" "is_abs_load I" for I
  proof (rule load_word_data [OF len nr])
    have "(k I \<ge> 16 \<longrightarrow> ReadsArgs F) \<and> (8 \<le> k I \<and> k I < 16 \<longrightarrow> ReadsIP F)"
      using assms(1) by (intro analyze_sound [OF _ that, of False False]) (simp add: filter_ok_def)
    with ip ar show "8 \<le> k I \<and> k I < 16 \<longrightarrow> RIP' = RIP" "16 \<le> k I \<longrightarrow> Args' = Args" by blast+
    show "4 dvd unat (k I)" by (rule abs_load_aligned [OF filter_ok_program(1) [OF assms(1)] that])
  qed simp
  with filter_value_data [OF filter_ok_program [OF assms(1)] data_buffer_ok [OF len(1), of e RIP], of "seccomp_data e RIP' Args'"]
  show ?thesis by (simp add: value_of_def)
qed

text \<open>The verdict is a function of the number of the call, and of its instruction pointer and arguments only where some filter reads them.\<close>

lemma verdict_fields:
  assumes "ids \<noteq> []" "\<forall>f \<in> set ids. filter_ok (info e f)" "length Args = 7" "length Args' = 7" "Args' ! 0 = Args ! 0"
    and "NeedsRIP (rebuilt e ids) \<longrightarrow> RIP' = RIP" "Mode (rebuilt e ids) = CacheNone \<longrightarrow> Args' = Args"
  shows "verdict e ids RIP' Args' = verdict e ids RIP Args"
proof -
  have "value_of (seccomp_data e RIP' Args') (info e f) = value_of (seccomp_data e RIP Args) (info e f)" if "f \<in> set ids" for f
    by (rule value_of_data) (use assms that in \<open>auto simp: rebuilt_def Let_def split: if_splits\<close>)
  then have "map (value_of (seccomp_data e RIP' Args')) (map (info e) (rev ids)) = map (value_of (seccomp_data e RIP Args)) (map (info e) (rev ids))"
    by simp
  then show ?thesis by (simp only: verdict_ok [OF assms(1,2,3)] verdict_ok [OF assms(1,2,4)])
qed

end
