(* ===== verification/Seccomp_Serial.thy ===== *)
theory Seccomp_Serial
  imports Seccomp_Verdict
begin

text \<open>
  Handing the filters of a thread across \<open>execve\<close>: \<open>SerializeFilters\<close> writes them to a file, \<open>DeserializeFilters\<close> reads them in the new
  process.  The file is the list of its bytes; the padding of the C structures, which the writer leaves unspecified, is an argument.  Failing
  calls of \<open>memfd_create\<close> and \<open>write\<close> are not modelled; a short read is, and so is every file that is not one the writer wrote.
\<close>

subsection \<open>The file\<close>

definition put_inst :: "sock_filter \<Rightarrow> u8 list" where
  "put_inst I = le_bytes 2 (code I) @ [jt I, jf I] @ le_bytes 4 (k I)"

definition get_inst :: "u8 list \<Rightarrow> sock_filter" where
  "get_inst bs = \<lparr>code = le_word (take 2 bs), jt = bs ! 2, jf = bs ! 3, k = le_word (take 4 (drop 4 bs))\<rparr>"

definition put_header :: "(nat \<Rightarrow> u8) \<Rightarrow> ThreadState \<Rightarrow> u8 list" where
  "put_header pad T = le_bytes 8 (of_nat (length (Filters T)) :: u64) @ le_bytes 4 (SeccompMode T) @ map pad [0..<4]"

definition put_filter :: "(nat \<Rightarrow> u8) \<Rightarrow> SeccompFilterInfo \<Rightarrow> u8 list" where
  "put_filter pad F =
     (le_bytes 8 (of_nat (length (Program F) * 8) :: u64) @ le_bytes 4 (FilterInstructions F) @ [if ShouldLog F then 1 else 0] @ map pad [0..<3]) @
     concat (map put_inst (Program F))"

definition SerializeFilters :: "(nat \<Rightarrow> nat \<Rightarrow> u8) \<Rightarrow> u64 \<Rightarrow> SeccompEmulator \<Rightarrow> u8 list option" where
  "SerializeFilters pad tid e =
     (let T = thread e tid in
      if SeccompMode T = SECCOMP_MODE_DISABLED then None
      else Some (put_header (pad 0) T @ concat (map (\<lambda>f. put_filter (pad (f + 1)) (info e f)) (Filters T))))"

definition read_bytes :: "nat \<Rightarrow> u8 list \<Rightarrow> (u8 list \<times> u8 list) option" where
  "read_bytes n bs = (if length bs < n then None else Some (take n bs, drop n bs))"

fun read_filters :: "nat \<Rightarrow> u64 \<Rightarrow> u8 list \<Rightarrow> SeccompEmulator \<Rightarrow> bool \<times> SeccompEmulator" where
  "read_filters 0 tid bs e = (True, e)"
| "read_filters (Suc n) tid bs e =
     (case read_bytes 16 bs of
        None \<Rightarrow> (False, e)
      | Some (SFilter, bs) \<Rightarrow>
          let ProgramSize = le_word (take 8 SFilter) :: u64; Instructions = le_word (take 4 (drop 8 SFilter)) :: u32; Log = (SFilter ! 12 \<noteq> 0) in
          if Instructions = 0 \<or> of_nat BPF_MAXINSNS < Instructions \<or> ProgramSize \<noteq> ucast Instructions * 8 then (False, e)
          else case read_bytes (unat ProgramSize) bs of
            None \<Rightarrow> (False, e)
          | Some (body, bs) \<Rightarrow>
              let Prog = map (\<lambda>i. get_inst (take 8 (drop (8 * i) body))) [0..<unat Instructions] in
              if ValidateProgram Prog \<noteq> Some 0 then (False, e) else read_filters n tid bs (append_filter tid Prog Log e))"

definition DeserializeFilters :: "u64 \<Rightarrow> u8 list \<Rightarrow> SeccompEmulator \<Rightarrow> SeccompEmulator" where
  "DeserializeFilters tid bs e =
     (case read_bytes 16 bs of
        None \<Rightarrow> e
      | Some (Header, bs) \<Rightarrow>
          let (done, e1) = read_filters (unat (le_word (take 8 Header) :: u64)) tid bs e in
          if done then (on_thread tid (\<lambda>t. t\<lparr>SeccompMode := le_word (take 4 (drop 8 Header))\<rparr>) e1)\<lparr>FilterGeneration := FilterGeneration e1 + 1\<rparr>
          else e1)"

subsection \<open>Reading back\<close>

lemma length_put_inst [simp]: "length (put_inst I) = 8"
  by (simp add: put_inst_def)

lemma get_put_inst [simp]: "get_inst (put_inst I) = I"
  by (simp add: get_inst_def put_inst_def nth_append)

lemma take_put_insts: "i < length P \<Longrightarrow> take 8 (drop (8 * i) (concat (map put_inst P))) = put_inst (P ! i)"
proof (induction P arbitrary: i)
  case (Cons I P)
  then show ?case by (cases i) simp_all
qed simp

lemma get_put_insts: "map (\<lambda>i. get_inst (take 8 (drop (8 * i) (concat (map put_inst P))))) [0..<length P] = P"
  by (rule nth_equalityI) (simp_all add: take_put_insts)

lemma length_put_insts: "length (concat (map put_inst P)) = 8 * length P"
  by (induction P) auto

lemma read_bytes_append: "length xs = n \<Longrightarrow> read_bytes n (xs @ ys) = Some (xs, ys)"
  by (simp add: read_bytes_def)

text \<open>Reading one written filter installs its program.\<close>

lemma read_put_filter:
  assumes "filter_ok F"
  shows "read_filters (Suc n) tid (put_filter pad F @ rest) e = read_filters n tid rest (append_filter tid (Program F) (ShouldLog F) e)"
proof -
  let ?n = "length (Program F)"
  let ?h = "le_bytes 8 (of_nat (?n * 8) :: u64) @ le_bytes 4 (FilterInstructions F) @ [if ShouldLog F then 1 else 0] @ map pad [0..<3] :: u8 list"
  have ok: "ValidateProgram (Program F) = Some 0" "?n \<le> 4096" "FilterInstructions F = of_nat ?n"
    using assms by (auto simp: filter_ok_def BPF_MAXINSNS_def)
  have n0: "?n \<noteq> 0" using ValidateProgram_accepts(1) [OF ok(1)] by simp
  have u: "unat (of_nat ?n :: u32) = ?n" "unat (of_nat (?n * 8) :: u64) = ?n * 8"
    using ok(2) by (simp_all add: unsigned_of_nat take_bit_nat_eq_self del: of_nat_mult)
  have "of_nat ?n \<noteq> (0 :: u32)" using n0 u(1) by (metis unat_0)
  moreover have "\<not> of_nat BPF_MAXINSNS < (of_nat ?n :: u32)"
    using ok(2) u(1) by (simp add: word_less_nat_alt BPF_MAXINSNS_def)
  moreover have "(of_nat (?n * 8) :: u64) = ucast (of_nat ?n :: u32) * 8"
    using ok(2) u by (simp add: word_unat_eq_iff unat_ucast_mod unat_word_ariths)
  moreover have h: "le_word (take 8 ?h) = (of_nat (?n * 8) :: u64)" "le_word (take 4 (drop 8 ?h)) = (of_nat ?n :: u32)"
      "(?h ! 12 \<noteq> 0) = ShouldLog F"
    by (simp_all add: ok(3) nth_append del: of_nat_mult)
  moreover have "read_bytes 16 (put_filter pad F @ rest) = Some (?h, concat (map put_inst (Program F)) @ rest)"
    using read_bytes_append [of ?h 16 "concat (map put_inst (Program F)) @ rest"] by (simp add: put_filter_def)
  moreover have "read_bytes (unat (of_nat (?n * 8) :: u64)) (concat (map put_inst (Program F)) @ rest) = Some (concat (map put_inst (Program F)), rest)"
    by (rule read_bytes_append) (simp only: u length_put_insts mult.commute)
  ultimately show ?thesis
    by (simp add: Let_def u(1) get_put_insts ok(1) del: of_nat_mult)
qed

lemma read_put_filters:
  assumes "\<forall>f \<in> set fs. filter_ok (g f)"
  shows "read_filters (length fs) tid (concat (map (\<lambda>f. put_filter (pad f) (g f)) fs)) e =
    (True, fold (\<lambda>f. append_filter tid (Program (g f)) (ShouldLog (g f))) fs e)"
  using assms by (induction fs arbitrary: e) (simp_all add: read_put_filter del: read_filters.simps(2))

text \<open>The filters of the thread after reading, up to their reference counts.\<close>

definition chain :: "SeccompEmulator \<Rightarrow> u64 \<Rightarrow> SeccompFilterInfo list" where
  "chain e tid = map (\<lambda>f. core (info e f)) (Filters (thread e tid))"

lemma core_analyzed:
  "filter_ok F \<Longrightarrow> core (AnalyzeFilterLoads \<lparr>Program = Program F, RefCount = n, FilterInstructions = of_nat (length (Program F)),
     ShouldLog = ShouldLog F, ReadsIP = False, ReadsArgs = False\<rparr>) = core F"
  by (cases F) (simp add: filter_ok_def AnalyzeFilterLoads_def)

definition fresh_names :: "SeccompEmulator \<Rightarrow> bool" where
  "fresh_names e \<longleftrightarrow> (\<forall>f \<in> fids e. f < NextFilter e) \<and> (\<forall>t \<in> tids e. set (Filters (thread e t)) \<subseteq> fids e)"

lemma chain_append:
  assumes "fresh_names e" "tid \<in> tids e" "filter_ok F"
  shows "chain (append_filter tid (Program F) (ShouldLog F) e) tid = chain e tid @ [core F]"
    "fresh_names (append_filter tid (Program F) (ShouldLog F) e)"
proof -
  have fr: "\<forall>f \<in> fids e. f < NextFilter e" using assms(1) by (simp add: fresh_names_def)
  have "f \<noteq> NextFilter e" if "f \<in> set (Filters (thread e tid))" for f
    using assms(1,2) that by (fastforce simp: fresh_names_def)
  then show "chain (append_filter tid (Program F) (ShouldLog F) e) tid = chain e tid @ [core F]"
    by (simp add: chain_def thread_append assms(2) info_append [OF fr] core_analyzed [OF assms(3)])
  show "fresh_names (append_filter tid (Program F) (ShouldLog F) e)"
    using assms(1) by (auto simp: fresh_names_def thread_append less_Suc_eq)
qed

lemma chain_read:
  assumes "\<forall>f \<in> set fs. filter_ok (g f)" "fresh_names e" "tid \<in> tids e"
  shows "chain (fold (\<lambda>f. append_filter tid (Program (g f)) (ShouldLog (g f))) fs e) tid = chain e tid @ map (\<lambda>f. core (g f)) fs"
    "tid \<in> tids (fold (\<lambda>f. append_filter tid (Program (g f)) (ShouldLog (g f))) fs e)"
    "Is64BitMode (fold (\<lambda>f. append_filter tid (Program (g f)) (ShouldLog (g f))) fs e) = Is64BitMode e"
  using assms by (induction fs arbitrary: e) (auto simp: chain_append)

lemma verdict_chain:
  assumes "chain e1 t1 = chain e2 t2" "Is64BitMode e1 = Is64BitMode e2"
  shows "verdict e1 (Filters (thread e1 t1)) RIP Args = verdict e2 (Filters (thread e2 t2)) RIP Args"
proof -
  have "map core (map (info e1) (rev (Filters (thread e1 t1)))) = map core (map (info e2) (rev (Filters (thread e2 t2))))"
    using arg_cong [OF assms(1), of rev] by (simp add: chain_def rev_map comp_def)
  from run_filters_core [OF this] show ?thesis
    by (simp only: verdict_def seccomp_data_def Arch_def assms(2))
qed

text \<open>A process that reads what the old one wrote has the same chain and mode.\<close>

lemma deserialize_serialized:
  assumes "SerializeFilters pad tid e = Some bs" "\<forall>f \<in> set (Filters (thread e tid)). filter_ok (info e f)"
    and "length (Filters (thread e tid)) < 2 ^ 64"
    and "fresh_names e0" "tid0 \<in> tids e0" "Filters (thread e0 tid0) = []"
  shows "chain (DeserializeFilters tid0 bs e0) tid0 = chain e tid"
    "SeccompMode (thread (DeserializeFilters tid0 bs e0) tid0) = SeccompMode (thread e tid)"
    "Is64BitMode (DeserializeFilters tid0 bs e0) = Is64BitMode e0"
proof -
  let ?T = "thread e tid" and ?fs = "Filters (thread e tid)"
  let ?e1 = "fold (\<lambda>f. append_filter tid0 (Program (info e f)) (ShouldLog (info e f))) ?fs e0"
  have bs: "bs = put_header (pad 0) ?T @ concat (map (\<lambda>f. put_filter (pad (f + 1)) (info e f)) ?fs)"
    using assms(1) by (simp add: SerializeFilters_def Let_def split: if_splits)
  have h: "read_bytes 16 bs = Some (put_header (pad 0) ?T, concat (map (\<lambda>f. put_filter (pad (f + 1)) (info e f)) ?fs))"
    unfolding bs by (rule read_bytes_append) (simp add: put_header_def)
  have "unat (of_nat (length ?fs) :: u64) = length ?fs" using assms(3) by (simp add: unsigned_of_nat take_bit_nat_eq_self)
  then have n: "unat (le_word (take 8 (put_header (pad 0) ?T)) :: u64) = length ?fs"
    and m: "le_word (take 4 (drop 8 (put_header (pad 0) ?T))) = SeccompMode ?T"
    by (simp_all add: put_header_def)
  have D: "DeserializeFilters tid0 bs e0 =
      (on_thread tid0 (\<lambda>t. t\<lparr>SeccompMode := SeccompMode ?T\<rparr>) ?e1)\<lparr>FilterGeneration := FilterGeneration ?e1 + 1\<rparr>"
    by (simp add: DeserializeFilters_def h n m read_put_filters [OF assms(2)])
  note r = chain_read [OF assms(2,4,5)]
  have th: "thread (DeserializeFilters tid0 bs e0) tid0 = (thread ?e1 tid0)\<lparr>SeccompMode := SeccompMode ?T\<rparr>"
    using thread_on_thread [OF r(2), of tid0 "\<lambda>t. t\<lparr>SeccompMode := SeccompMode ?T\<rparr>"] by (simp add: D thread_def)
  then show "SeccompMode (thread (DeserializeFilters tid0 bs e0) tid0) = SeccompMode ?T" by simp
  have i: "info (DeserializeFilters tid0 bs e0) = info ?e1" by (simp add: D info_def fun_eq_iff)
  have "chain (DeserializeFilters tid0 bs e0) tid0 = chain ?e1 tid0" by (simp add: chain_def th i)
  also have "\<dots> = chain e tid" unfolding r(1) by (simp add: chain_def assms(6))
  finally show "chain (DeserializeFilters tid0 bs e0) tid0 = chain e tid" .
  show "Is64BitMode (DeserializeFilters tid0 bs e0) = Is64BitMode e0" by (simp add: D r(3))
qed

end
