(* ===== verification/Seccomp_History.thy ===== *)
theory Seccomp_History
  imports Seccomp_Serial
begin

text \<open>
  Seccomp over the life of a process: the states a sequence of installations, system calls, thread creations and thread exits can reach, the
  invariant they keep, and what follows from it for the verdict cache, the reference counts and \<open>execve\<close>.
\<close>

subsection \<open>Histories\<close>

definition boot :: "bool \<Rightarrow> bool \<Rightarrow> u64 \<Rightarrow> SeccompEmulator" where
  "boot Needs is64 tid =
     \<lparr>NeedsSeccomp = Needs, Is64BitMode = is64, CurrentKillSignal = SIGSYS, TotalFilterInstructions = 0, FilterList = [], NextFilter = 0,
      FilterGeneration = 1, AuditSerial = 0,
      Threads = [(tid, \<lparr>Filters = [], SeccompMode = SECCOMP_MODE_DISABLED, SeccompCache = empty_cache\<rparr>)]\<rparr>"

text \<open>The first argument says whether installations may synchronise the threads (\<open>SECCOMP_FILTER_FLAG_TSYNC\<close>).\<close>

inductive seccomp_step :: "bool \<Rightarrow> SeccompEmulator \<Rightarrow> SeccompEmulator \<Rightarrow> bool" for tsync where
  step_filter: "tid \<in> tids e \<Longrightarrow> flags AND SECCOMP_FILTER_FLAG_TSYNC \<noteq> 0 \<longrightarrow> tsync \<Longrightarrow> seccomp_step tsync e (snd (SetModeFilter NoNewPrivs tid flags arg e))"
| step_strict: "tid \<in> tids e \<Longrightarrow> seccomp_step tsync e (snd (SetModeStrict NoNewPrivs tid flags ArgGiven e))"
| step_syscall: "tid \<in> tids e \<Longrightarrow> length Args = 7 \<Longrightarrow> ExecuteFilter tid RIP Args e = Some (res, effects, e') \<Longrightarrow> seccomp_step tsync e e'"
| step_create: "Parent \<in> tids e \<Longrightarrow> tid \<notin> tids e \<Longrightarrow> seccomp_step tsync e (CreateThread Parent tid e)"
| step_destroy: "tid \<in> tids e \<Longrightarrow> seccomp_step tsync e (DestroyThread tid e)"

inductive seccomp_reach :: "bool \<Rightarrow> SeccompEmulator \<Rightarrow> bool" for tsync where
  reach_boot: "seccomp_reach tsync (boot Needs is64 tid)"
| reach_exec: "seccomp_reach tsync (DeserializeFilters tid bs (boot Needs is64 tid))"
| reach_step: "seccomp_reach tsync e \<Longrightarrow> seccomp_step tsync e e' \<Longrightarrow> seccomp_reach tsync e'"

subsection \<open>The invariant\<close>

definition refs :: "SeccompEmulator \<Rightarrow> nat \<Rightarrow> nat" where
  "refs e f = (\<Sum>t \<in> tids e. count_list (Filters (thread e t)) f)"

definition filters_ok :: "SeccompEmulator \<Rightarrow> bool" where
  "filters_ok e \<longleftrightarrow> distinct (map fst (Threads e)) \<and> distinct (map fst (FilterList e)) \<and> fresh_names e \<and>
     (\<forall>f \<in> fids e. filter_ok (info e f) \<and> refs e f \<le> RefCount (info e f))"

definition counts_exact :: "SeccompEmulator \<Rightarrow> bool" where
  "counts_exact e \<longleftrightarrow> (\<forall>f \<in> fids e. RefCount (info e f) = refs e f \<and> 0 < refs e f)"

definition allowed :: "(u32 \<times> bool) option \<Rightarrow> bool" where
  "allowed v \<longleftrightarrow> (\<exists>r. v = Some r \<and> fst r AND SECCOMP_RET_ACTION_FULL = SECCOMP_RET_ALLOW)"

text \<open>No system call of number \<open>2\<^sup>6\<^sup>4 - 1\<close> comes from address 0: the probe would take an empty entry for it.\<close>

definition keyed :: "u64 \<Rightarrow> u64 \<Rightarrow> bool" where
  "keyed RIP Nr \<longleftrightarrow> \<not> (RIP = 0 \<and> Nr = - 1)"

definition cache_true :: "SeccompEmulator \<Rightarrow> nat list \<Rightarrow> VerdictCache \<Rightarrow> bool" where
  "cache_true e ids C \<longleftrightarrow> Mode C = Mode (rebuilt e ids) \<and> NeedsRIP C = NeedsRIP (rebuilt e ids) \<and>
     length (AllowedNrs C) = 8 \<and> length (RIPAllowed C) = 64 \<and>
     (\<forall>RIP Args. length Args = 7 \<longrightarrow> keyed RIP (Args ! 0) \<longrightarrow> cache_hit C RIP (Args ! 0) \<longrightarrow> allowed (verdict e ids RIP Args))"

definition cache_ok :: "SeccompEmulator \<Rightarrow> ThreadState \<Rightarrow> bool" where
  "cache_ok e T \<longleftrightarrow> Generation (SeccompCache T) \<le> FilterGeneration e \<and>
     (Filters T \<noteq> [] \<longrightarrow> Generation (SeccompCache T) = FilterGeneration e \<longrightarrow> cache_true e (Filters T) (SeccompCache T))"

definition caches_ok :: "SeccompEmulator \<Rightarrow> bool" where
  "caches_ok e \<longleftrightarrow> 0 < FilterGeneration e \<and> (\<forall>t \<in> tids e. cache_ok e (thread e t))"

definition stale :: "SeccompEmulator \<Rightarrow> bool" where
  "stale e \<longleftrightarrow> (\<forall>t \<in> tids e. Generation (SeccompCache (thread e t)) < FilterGeneration e)"

lemma stale_caches_ok: "stale e \<Longrightarrow> 0 < FilterGeneration e \<Longrightarrow> caches_ok e"
  by (auto simp: stale_def caches_ok_def cache_ok_def)

lemma finite_tids [simp]: "finite (tids e)"
  by (simp add: tids_def)

lemma count_list_pos_iff: "0 < count_list xs x \<longleftrightarrow> x \<in> set xs"
  by (induction xs) auto

lemma refs_ge: "t \<in> tids e \<Longrightarrow> count_list (Filters (thread e t)) f \<le> refs e f"
  unfolding refs_def by (rule member_le_sum) auto

subsection \<open>Threads that come and go\<close>

lemma create_state:
  assumes "Parent \<in> tids e" "tid \<notin> tids e"
  shows "tids (CreateThread Parent tid e) = insert tid (tids e)" "fids (CreateThread Parent tid e) = fids e"
    "t \<in> tids e \<Longrightarrow> thread (CreateThread Parent tid e) t = thread e t"
    "thread (CreateThread Parent tid e) tid =
       \<lparr>Filters = Filters (thread e Parent), SeccompMode = SeccompMode (thread e Parent), SeccompCache = empty_cache\<rparr>"
    "f \<in> fids e \<Longrightarrow> info (CreateThread Parent tid e) f =
       (info e f)\<lparr>RefCount := RefCount (info e f) + count_list (Filters (thread e Parent)) f\<rparr>"
    "map fst (Threads (CreateThread Parent tid e)) = map fst (Threads e) @ [tid]"
    "map fst (FilterList (CreateThread Parent tid e)) = map fst (FilterList e)"
    "FilterGeneration (CreateThread Parent tid e) = FilterGeneration e" "NextFilter (CreateThread Parent tid e) = NextFilter e"
    "Is64BitMode (CreateThread Parent tid e) = Is64BitMode e"
proof -
  let ?new = "\<lparr>Filters = [], SeccompMode = SECCOMP_MODE_DISABLED, SeccompCache = empty_cache\<rparr>"
  let ?e = "e\<lparr>Threads := Threads e @ [(tid, ?new)]\<rparr>"
  have ids: "tids ?e = insert tid (tids e)" "fids ?e = fids e" "info ?e = info e"
    by (simp_all add: tids_def fids_def info_def fun_eq_iff)
  have none: "map_of (Threads e) tid = None" using assms(2) by (simp add: tids_def map_of_eq_None_iff)
  have ths: "thread ?e t = (if t = tid then ?new else thread e t)" for t
    using none by (auto simp: thread_def map_add_def split: option.split)
  have P: "thread ?e Parent = thread e Parent" using assms ths by auto
  show "tids (CreateThread Parent tid e) = insert tid (tids e)" "fids (CreateThread Parent tid e) = fids e"
    "FilterGeneration (CreateThread Parent tid e) = FilterGeneration e" "NextFilter (CreateThread Parent tid e) = NextFilter e"
    "Is64BitMode (CreateThread Parent tid e) = Is64BitMode e"
    by (simp_all add: CreateThread_def InheritSeccompFilters_def Let_def ids)
  show "map fst (Threads (CreateThread Parent tid e)) = map fst (Threads e) @ [tid]"
    "map fst (FilterList (CreateThread Parent tid e)) = map fst (FilterList e)"
    by (simp_all add: CreateThread_def InheritSeccompFilters_def Let_def)
  show "t \<in> tids e \<Longrightarrow> thread (CreateThread Parent tid e) t = thread e t"
    "thread (CreateThread Parent tid e) tid =
       \<lparr>Filters = Filters (thread e Parent), SeccompMode = SeccompMode (thread e Parent), SeccompCache = empty_cache\<rparr>"
    using assms by (auto simp: CreateThread_def InheritSeccompFilters_def Let_def thread_on_thread ids ths P)
  show "f \<in> fids e \<Longrightarrow> info (CreateThread Parent tid e) f =
       (info e f)\<lparr>RefCount := RefCount (info e f) + count_list (Filters (thread e Parent)) f\<rparr>"
    by (simp add: CreateThread_def InheritSeccompFilters_def Let_def info_on_counts ids P)
qed

lemma create_refs:
  assumes "Parent \<in> tids e" "tid \<notin> tids e"
  shows "refs (CreateThread Parent tid e) f = refs e f + count_list (Filters (thread e Parent)) f"
proof -
  have "(\<Sum>t \<in> tids e. count_list (Filters (thread (CreateThread Parent tid e) t)) f) = refs e f"
    unfolding refs_def by (rule sum.cong) (simp_all add: create_state(3) [OF assms])
  then show ?thesis using assms(2) by (simp add: refs_def create_state(1,4) [OF assms])
qed

lemma create_keeps:
  assumes "Parent \<in> tids e" "tid \<notin> tids e"
  shows "filters_ok e \<Longrightarrow> filters_ok (CreateThread Parent tid e)" "counts_exact e \<Longrightarrow> counts_exact (CreateThread Parent tid e)"
  using assms assms(2) [unfolded tids_def]
  by (auto simp: filters_ok_def counts_exact_def fresh_names_def create_state [OF assms] create_refs [OF assms])

lemma create_caches:
  assumes "Parent \<in> tids e" "tid \<notin> tids e" "filters_ok e" "caches_ok e"
  shows "caches_ok (CreateThread Parent tid e)"
proof -
  note st = create_state [OF assms(1,2)]
  have "cache_ok (CreateThread Parent tid e) (thread e t)" if t: "t \<in> tids e" for t
  proof -
    let ?ids = "Filters (thread e t)"
    have "set ?ids \<subseteq> fids e" using assms(3) t by (simp add: filters_ok_def fresh_names_def)
    then have s: "same_filters ?ids e (CreateThread Parent tid e)"
      by (auto simp: same_filters_def st)
    have "cache_ok e (thread e t)" using assms(4) t by (simp add: caches_ok_def)
    then show ?thesis
      by (simp add: cache_ok_def cache_true_def st(8) rebuilt_same_filters [OF s] verdict_same_filters [OF s])
  qed
  with assms(4) show ?thesis by (auto simp: caches_ok_def st cache_ok_def empty_cache_def)
qed

lemma map_of_filter_key: "map_of (filter (\<lambda>(x, y). x \<noteq> z) xs) x = (if x = z then None else map_of xs x)"
  by (induction xs) auto

lemma fst_filter_key: "fst ` set (filter (\<lambda>(x, y). x \<noteq> z) xs) = fst ` set xs - {z}"
  by force

lemma map_of_filter_value:
  "distinct (map fst xs) \<Longrightarrow> map_of (filter (\<lambda>(x, y). P y) xs) x = (case map_of xs x of None \<Rightarrow> None | Some y \<Rightarrow> if P y then Some y else None)"
proof (induction xs)
  case (Cons p xs)
  have "map_of xs (fst p) = None" using Cons.prems by (simp add: map_of_eq_None_iff)
  with Cons show ?case by (cases p) auto
qed simp

lemma distinct_fst_filter: "distinct (map fst xs) \<Longrightarrow> distinct (map fst (filter P xs))"
  by (induction xs) auto

lemma map_of_keys: "x \<in> fst ` set xs \<longleftrightarrow> map_of xs x \<noteq> None"
  by (simp add: map_of_eq_None_iff)

lemma destroy_state:
  assumes "tid \<in> tids e" "filters_ok e"
  defines "ids \<equiv> Filters (thread e tid)"
  shows "tids (DestroyThread tid e) = tids e - {tid}"
    "t \<in> tids e \<Longrightarrow> t \<noteq> tid \<Longrightarrow> thread (DestroyThread tid e) t = thread e t"
    "f \<in> fids (DestroyThread tid e) \<Longrightarrow> f \<in> fids e"
    "f \<in> fids e \<Longrightarrow> RefCount (info e f) \<noteq> count_list ids f \<Longrightarrow> f \<in> fids (DestroyThread tid e)"
    "f \<in> fids (DestroyThread tid e) \<Longrightarrow> f \<in> set ids \<Longrightarrow> RefCount (info e f) \<noteq> count_list ids f"
    "f \<in> fids (DestroyThread tid e) \<Longrightarrow> info (DestroyThread tid e) f = (info e f)\<lparr>RefCount := RefCount (info e f) - count_list ids f\<rparr>"
    "distinct (map fst (Threads (DestroyThread tid e)))" "distinct (map fst (FilterList (DestroyThread tid e)))"
    "FilterGeneration (DestroyThread tid e) = FilterGeneration e" "NextFilter (DestroyThread tid e) = NextFilter e"
    "Is64BitMode (DestroyThread tid e) = Is64BitMode e"
proof -
  define e1 where "e1 = on_counts (\<lambda>id n. n - count_list ids id) e"
  define e2 where "e2 = on_thread tid (\<lambda>t. t\<lparr>Filters := []\<rparr>) e1"
  define del where "del \<longleftrightarrow> (\<exists>id \<in> set ids. RefCount (info e1 id) = 0)"
  define e3 where "e3 = (if del then e2\<lparr>FilterList := filter (\<lambda>(id, F). RefCount F \<noteq> 0) (FilterList e2)\<rparr> else e2)"
  have D: "DestroyThread tid e = e3\<lparr>Threads := filter (\<lambda>(t, x). t \<noteq> tid) (Threads e3)\<rparr>"
    by (simp only: DestroyThread_def FreeSeccompFilters_def Let_def e3_def del_def e2_def e1_def ids_def)
  have T3: "Threads e3 = Threads e2" by (simp add: e3_def)
  have inv: "distinct (map fst (Threads e))" "distinct (map fst (FilterList e))" "set ids \<subseteq> fids e"
      "\<forall>f \<in> fids e. refs e f \<le> RefCount (info e f)"
    using assms(1,2) by (auto simp: filters_ok_def fresh_names_def ids_def)
  have le: "count_list ids f \<le> RefCount (info e f)" if "f \<in> fids e" for f
    using inv(4) that refs_ge [OF assms(1), of f] by (fastforce simp: ids_def)
  have i1: "info e1 f = (info e f)\<lparr>RefCount := RefCount (info e f) - count_list ids f\<rparr>" if "f \<in> fids e" for f
    using that by (simp add: e1_def info_on_counts)
  have t2: "tids e2 = tids e" by (simp add: e2_def e1_def)
  show "tids (DestroyThread tid e) = tids e - {tid}"
    using t2 by (simp add: D tids_def T3 fst_filter_key del: set_filter)
  have "thread (DestroyThread tid e) t = thread e2 t" if "t \<noteq> tid" for t
    using that by (simp add: D thread_def map_of_filter_key T3)
  then show "t \<in> tids e \<Longrightarrow> t \<noteq> tid \<Longrightarrow> thread (DestroyThread tid e) t = thread e t" for t
    by (simp add: e2_def thread_on_thread e1_def)
  have F2: "FilterList e2 = FilterList e1" "fids e1 = fids e" "distinct (map fst (FilterList e1))"
    using inv(2) by (simp_all add: e2_def e1_def)
  have look: "map_of (FilterList (DestroyThread tid e)) f =
      (case map_of (FilterList e1) f of None \<Rightarrow> None | Some F \<Rightarrow> if del \<and> RefCount F = 0 then None else Some F)" for f
    using map_of_filter_value [OF F2(3), of "\<lambda>F. RefCount F \<noteq> 0"] by (simp add: D e3_def F2(1) split: option.split)
  have f3: "f \<in> fids (DestroyThread tid e) \<longleftrightarrow> f \<in> fids e \<and> \<not> (del \<and> RefCount (info e1 f) = 0)" for f
  proof -
    have "f \<in> fids e \<longleftrightarrow> map_of (FilterList e1) f \<noteq> None" using F2(2) map_of_keys by (metis fids_def)
    then show ?thesis unfolding fids_def map_of_keys look by (auto simp: info_def fids_def map_of_keys split: option.splits)
  qed
  then show "f \<in> fids (DestroyThread tid e) \<Longrightarrow> f \<in> fids e" for f by simp
  show "f \<in> fids e \<Longrightarrow> RefCount (info e f) \<noteq> count_list ids f \<Longrightarrow> f \<in> fids (DestroyThread tid e)" for f
    using le [of f] by (simp add: f3 i1)
  show "f \<in> fids (DestroyThread tid e) \<Longrightarrow> f \<in> set ids \<Longrightarrow> RefCount (info e f) \<noteq> count_list ids f" for f
    using i1 [of f] by (auto simp: f3 del_def)
  have "info (DestroyThread tid e) f = info e1 f" if "f \<in> fids (DestroyThread tid e)" for f
    using that [unfolded fids_def map_of_keys] by (auto simp: info_def look split: option.splits if_splits)
  then show "f \<in> fids (DestroyThread tid e) \<Longrightarrow> info (DestroyThread tid e) f = (info e f)\<lparr>RefCount := RefCount (info e f) - count_list ids f\<rparr>" for f
    by (simp add: f3 i1)
  show "distinct (map fst (Threads (DestroyThread tid e)))" "distinct (map fst (FilterList (DestroyThread tid e)))"
    using inv(1) F2(3) by (simp_all add: D T3 e3_def F2(1) distinct_fst_filter e2_def e1_def)
  show "FilterGeneration (DestroyThread tid e) = FilterGeneration e" "NextFilter (DestroyThread tid e) = NextFilter e"
    "Is64BitMode (DestroyThread tid e) = Is64BitMode e"
    by (simp_all add: D e3_def e2_def e1_def)
qed

lemma destroy_refs:
  assumes "tid \<in> tids e" "filters_ok e"
  shows "refs (DestroyThread tid e) f = refs e f - count_list (Filters (thread e tid)) f"
proof -
  have "refs (DestroyThread tid e) f = (\<Sum>t \<in> tids e - {tid}. count_list (Filters (thread e t)) f)"
    unfolding refs_def destroy_state(1) [OF assms] by (rule sum.cong) (simp_all add: destroy_state(2) [OF assms])
  also have "\<dots> = refs e f - count_list (Filters (thread e tid)) f"
    using assms(1) by (simp add: refs_def sum.remove [of "tids e" tid])
  finally show ?thesis .
qed

lemma destroy_keeps:
  assumes "tid \<in> tids e" "filters_ok e"
  shows "filters_ok (DestroyThread tid e)" "counts_exact e \<Longrightarrow> counts_exact (DestroyThread tid e)"
proof -
  note st = destroy_state [OF assms]
  have inv: "fresh_names e" "\<forall>f \<in> fids e. filter_ok (info e f) \<and> refs e f \<le> RefCount (info e f)"
    using assms(2) by (auto simp: filters_ok_def)
  have "f \<in> fids (DestroyThread tid e)" if t: "t \<in> tids e" "t \<noteq> tid" "f \<in> set (Filters (thread e t))" for t f
  proof (rule st(4))
    show f: "f \<in> fids e" using inv(1) t by (auto simp: fresh_names_def)
    have "refs e f = count_list (Filters (thread e tid)) f + (\<Sum>t \<in> tids e - {tid}. count_list (Filters (thread e t)) f)"
      using assms(1) by (simp add: refs_def sum.remove)
    moreover have "0 < (\<Sum>t \<in> tids e - {tid}. count_list (Filters (thread e t)) f)"
      using t by (intro sum_pos2 [of _ t]) (auto simp: count_list_pos_iff)
    ultimately show "RefCount (info e f) \<noteq> count_list (Filters (thread e tid)) f" using inv(2) f by fastforce
  qed
  then have "fresh_names (DestroyThread tid e)"
    using inv(1) by (auto simp: fresh_names_def st(1,2,10) dest: st(3))
  moreover have "filter_ok (info (DestroyThread tid e) f) \<and> refs (DestroyThread tid e) f \<le> RefCount (info (DestroyThread tid e) f)"
    if "f \<in> fids (DestroyThread tid e)" for f
    using inv(2) st(3) [OF that] by (simp add: st(6) [OF that] destroy_refs [OF assms] diff_le_mono)
  ultimately show "filters_ok (DestroyThread tid e)" by (simp add: filters_ok_def st(7,8))
  show "counts_exact (DestroyThread tid e)" if ex: "counts_exact e"
  proof -
    have "0 < refs e f - count_list (Filters (thread e tid)) f" if f: "f \<in> fids (DestroyThread tid e)" for f
    proof (cases "f \<in> set (Filters (thread e tid))")
      case True
      then show ?thesis using st(5) [OF f] st(3) [OF f] ex refs_ge [OF assms(1), of f] by (auto simp: counts_exact_def)
    next
      case False
      then have "count_list (Filters (thread e tid)) f = 0" by simp
      then show ?thesis using st(3) [OF f] ex by (auto simp: counts_exact_def)
    qed
    with ex show ?thesis by (auto simp: counts_exact_def st(6) destroy_refs [OF assms] dest: st(3))
  qed
qed

lemma destroy_caches:
  assumes "tid \<in> tids e" "filters_ok e" "caches_ok e"
  shows "caches_ok (DestroyThread tid e)"
proof -
  note st = destroy_state [OF assms(1,2)]
  have "cache_ok (DestroyThread tid e) (thread e t)" if t: "t \<in> tids e" "t \<noteq> tid" for t
  proof -
    let ?ids = "Filters (thread e t)"
    have "set ?ids \<subseteq> fids (DestroyThread tid e)"
      using destroy_keeps(1) [OF assms(1,2)] t by (force simp: filters_ok_def fresh_names_def st(1,2))
    then have s: "same_filters ?ids e (DestroyThread tid e)"
      by (auto simp: same_filters_def st(6,11))
    have "cache_ok e (thread e t)" using assms(3) t by (simp add: caches_ok_def)
    then show ?thesis
      by (simp add: cache_ok_def cache_true_def st(9) rebuilt_same_filters [OF s] verdict_same_filters [OF s])
  qed
  with assms(3) show ?thesis by (auto simp: caches_ok_def st(1,2,9))
qed

subsection \<open>Installations\<close>

lemma refs_cong: "tids e' = tids e \<Longrightarrow> (\<And>t. t \<in> tids e \<Longrightarrow> Filters (thread e' t) = Filters (thread e t)) \<Longrightarrow> refs e' f = refs e f"
  unfolding refs_def by (rule sum.cong) auto

text \<open>Changing a thread other than in its filters, or a field of the emulator that no clause reads, keeps the clauses about filters.\<close>

lemma on_thread_keeps:
  assumes "\<And>T. Filters (g T) = Filters T"
  shows "filters_ok (on_thread tid g e) = filters_ok e" "counts_exact (on_thread tid g e) = counts_exact e"
    "t \<in> tids e \<Longrightarrow> Filters (thread (on_thread tid g e) t) = Filters (thread e t)"
proof -
  have F: "Filters (thread (on_thread tid g e) t) = Filters (thread e t)" if "t \<in> tids e" for t
    using that by (simp add: thread_on_thread assms)
  have "refs (on_thread tid g e) f = refs e f" for f
    by (rule refs_cong) (simp_all add: F)
  then show "filters_ok (on_thread tid g e) = filters_ok e" "counts_exact (on_thread tid g e) = counts_exact e"
    by (simp_all add: filters_ok_def counts_exact_def fresh_names_def F)
  show "t \<in> tids e \<Longrightarrow> Filters (thread (on_thread tid g e) t) = Filters (thread e t)" by (rule F)
qed

lemma field_simps_state [simp]:
  "tids (e\<lparr>FilterGeneration := n\<rparr>) = tids e" "fids (e\<lparr>FilterGeneration := n\<rparr>) = fids e"
  "thread (e\<lparr>FilterGeneration := n\<rparr>) = thread e" "info (e\<lparr>FilterGeneration := n\<rparr>) = info e"
  "tids (e\<lparr>CurrentKillSignal := s\<rparr>) = tids e" "fids (e\<lparr>CurrentKillSignal := s\<rparr>) = fids e"
  "thread (e\<lparr>CurrentKillSignal := s\<rparr>) = thread e" "info (e\<lparr>CurrentKillSignal := s\<rparr>) = info e"
  "tids (e\<lparr>AuditSerial := a\<rparr>) = tids e" "fids (e\<lparr>AuditSerial := a\<rparr>) = fids e"
  "thread (e\<lparr>AuditSerial := a\<rparr>) = thread e" "info (e\<lparr>AuditSerial := a\<rparr>) = info e"
  by (simp_all add: tids_def fids_def thread_def info_def fun_eq_iff)

lemma field_keeps [simp]:
  "filters_ok (e\<lparr>FilterGeneration := n\<rparr>) = filters_ok e" "counts_exact (e\<lparr>FilterGeneration := n\<rparr>) = counts_exact e"
  "filters_ok (e\<lparr>CurrentKillSignal := s\<rparr>) = filters_ok e" "counts_exact (e\<lparr>CurrentKillSignal := s\<rparr>) = counts_exact e"
  "filters_ok (e\<lparr>AuditSerial := a\<rparr>) = filters_ok e" "counts_exact (e\<lparr>AuditSerial := a\<rparr>) = counts_exact e"
  by (simp_all add: filters_ok_def counts_exact_def fresh_names_def refs_def)

lemma append_refs:
  assumes "filters_ok e" "tid \<in> tids e"
  shows "refs (append_filter tid prog Log e) f = (if f = NextFilter e then 1 else refs e f)"
proof -
  have "NextFilter e \<notin> fids e" using assms(1) by (auto simp: filters_ok_def fresh_names_def)
  then have new: "count_list (Filters (thread e t)) (NextFilter e) = 0" if "t \<in> tids e" for t
    using assms(1) that by (metis count_notin filters_ok_def fresh_names_def subsetD)
  have "refs (append_filter tid prog Log e) f = (\<Sum>t \<in> tids e. count_list (Filters (thread e t)) f + (if t = tid \<and> f = NextFilter e then 1 else 0))"
    unfolding refs_def append_simps by (rule sum.cong) (simp_all add: thread_append)
  also have "\<dots> = refs e f + (if f = NextFilter e then 1 else 0)"
    using assms(2) by (simp add: sum.distrib refs_def)
  also have "\<dots> = (if f = NextFilter e then 1 else refs e f)"
    using new by (simp add: refs_def)
  finally show ?thesis .
qed

lemma append_keeps:
  assumes "filters_ok e" "tid \<in> tids e" "ValidateProgram prog = Some 0" "length prog \<le> BPF_MAXINSNS"
  shows "filters_ok (append_filter tid prog Log e)" "counts_exact e \<Longrightarrow> counts_exact (append_filter tid prog Log e)"
    "stale e \<Longrightarrow> stale (append_filter tid prog Log e)"
proof -
  let ?F = "AnalyzeFilterLoads \<lparr>Program = prog, RefCount = 1, FilterInstructions = of_nat (length prog), ShouldLog = Log, ReadsIP = False, ReadsArgs = False\<rparr>"
  have inv: "\<forall>f \<in> fids e. f < NextFilter e" "\<forall>f \<in> fids e. filter_ok (info e f) \<and> refs e f \<le> RefCount (info e f)"
    "distinct (map fst (Threads e))" "distinct (map fst (FilterList e))" "\<forall>t \<in> tids e. set (Filters (thread e t)) \<subseteq> fids e"
    using assms(1) by (auto simp: filters_ok_def fresh_names_def)
  have fresh: "f \<in> fids e \<Longrightarrow> f \<noteq> NextFilter e" for f using inv(1) by blast
  have F: "filter_ok ?F" "RefCount ?F = 1" using filter_ok_analyzed [OF assms(3,4)] by (simp_all add: AnalyzeFilterLoads_def split: prod.split)
  have "fresh_names (append_filter tid prog Log e)"
    using inv(1,5) by (auto simp: fresh_names_def thread_append less_Suc_eq)
  moreover have "NextFilter e \<notin> fst ` set (FilterList e)" using inv(1) unfolding fids_def by blast
  ultimately show "filters_ok (append_filter tid prog Log e)"
    using inv F by (auto simp: filters_ok_def info_append append_refs [OF assms(1,2)])
  show "counts_exact e \<Longrightarrow> counts_exact (append_filter tid prog Log e)"
    using inv F by (auto simp: counts_exact_def info_append append_refs [OF assms(1,2)])
  show "stale e \<Longrightarrow> stale (append_filter tid prog Log e)"
    by (auto simp: stale_def thread_append)
qed

lemma tsync_state:
  "tids (TSyncFilters tid e) = tids e" "fids (TSyncFilters tid e) = fids e"
  "t \<in> tids e \<Longrightarrow> thread (TSyncFilters tid e) t =
     (if t = tid then thread e t else (thread e t)\<lparr>Filters := Filters (thread e tid), SeccompMode := SeccompMode (thread e tid)\<rparr>)"
  "f \<in> fids e \<Longrightarrow> info (TSyncFilters tid e) f =
     (info e f)\<lparr>RefCount := RefCount (info e f) + length (filter (\<lambda>(t, T). t \<noteq> tid) (Threads e)) * count_list (Filters (thread e tid)) f\<rparr>"
  "FilterGeneration (TSyncFilters tid e) = FilterGeneration e" "NextFilter (TSyncFilters tid e) = NextFilter e"
  "map fst (Threads (TSyncFilters tid e)) = map fst (Threads e)" "map fst (FilterList (TSyncFilters tid e)) = map fst (FilterList e)"
proof -
  let ?e = "e\<lparr>Threads := map (\<lambda>(t, T). (t, if t = tid then T else T\<lparr>Filters := Filters (thread e tid), SeccompMode := SeccompMode (thread e tid)\<rparr>)) (Threads e)\<rparr>"
  have e: "tids ?e = tids e" "fids ?e = fids e" "info ?e = info e"
    by (simp_all add: tids_def fids_def info_def fst_image_map_values fun_eq_iff)
  show "tids (TSyncFilters tid e) = tids e" "fids (TSyncFilters tid e) = fids e"
    "FilterGeneration (TSyncFilters tid e) = FilterGeneration e" "NextFilter (TSyncFilters tid e) = NextFilter e"
    "map fst (Threads (TSyncFilters tid e)) = map fst (Threads e)" "map fst (FilterList (TSyncFilters tid e)) = map fst (FilterList e)"
    by (simp_all add: TSyncFilters_def Let_def e fst_map_values del: map_map)
  show "f \<in> fids e \<Longrightarrow> info (TSyncFilters tid e) f =
     (info e f)\<lparr>RefCount := RefCount (info e f) + length (filter (\<lambda>(t, T). t \<noteq> tid) (Threads e)) * count_list (Filters (thread e tid)) f\<rparr>"
    by (simp add: TSyncFilters_def Let_def info_on_counts e)
  show "t \<in> tids e \<Longrightarrow> thread (TSyncFilters tid e) t =
     (if t = tid then thread e t else (thread e t)\<lparr>Filters := Filters (thread e tid), SeccompMode := SeccompMode (thread e tid)\<rparr>)"
    unfolding tids_def map_of_keys by (auto simp: TSyncFilters_def Let_def thread_def map_of_map_values)
qed

lemma tsync_refs:
  assumes "tid \<in> tids e" "distinct (map fst (Threads e))"
  shows "refs (TSyncFilters tid e) f = count_list (Filters (thread e tid)) f * (1 + length (filter (\<lambda>(t, T). t \<noteq> tid) (Threads e)))"
proof -
  have "refs (TSyncFilters tid e) f = (\<Sum>t \<in> tids e. count_list (Filters (thread e tid)) f)"
    unfolding refs_def tsync_state(1) by (rule sum.cong) (simp_all add: tsync_state(3))
  also have "\<dots> = card (tids e) * count_list (Filters (thread e tid)) f" by simp
  also have "card (tids e) = Suc (card (tids e - {tid}))" by (rule card_Suc_Diff1 [OF finite_tids assms(1), symmetric])
  also have "tids e - {tid} = set (map fst (filter (\<lambda>(t, T). t \<noteq> tid) (Threads e)))"
    by (simp only: tids_def fst_filter_key set_map)
  also have "card \<dots> = length (filter (\<lambda>(t, T). t \<noteq> tid) (Threads e))"
    using distinct_card [OF distinct_fst_filter [OF assms(2)]] by simp
  finally show ?thesis by (simp add: mult.commute)
qed

lemma tsync_keeps:
  assumes "filters_ok e" "tid \<in> tids e"
  shows "filters_ok (TSyncFilters tid e)" "stale e \<Longrightarrow> stale (TSyncFilters tid e)"
proof -
  have d: "distinct (map fst (Threads e))" and le: "\<forall>f \<in> fids e. filter_ok (info e f) \<and> refs e f \<le> RefCount (info e f)"
    using assms(1) by (auto simp: filters_ok_def)
  have "count_list (Filters (thread e tid)) f * (1 + n) \<le> RefCount (info e f) + n * count_list (Filters (thread e tid)) f"
    if "f \<in> fids e" for f n
  proof -
    have "count_list (Filters (thread e tid)) f \<le> RefCount (info e f)" using le that refs_ge [OF assms(2), of f] by (meson le_trans)
    then show ?thesis by (simp add: mult.commute)
  qed
  then have "filter_ok (info (TSyncFilters tid e) f) \<and> refs (TSyncFilters tid e) f \<le> RefCount (info (TSyncFilters tid e) f)" if "f \<in> fids e" for f
    using le that unfolding tsync_refs [OF assms(2) d] by (simp add: tsync_state(4) del: One_nat_def)
  moreover have "fresh_names (TSyncFilters tid e)"
    using assms unfolding filters_ok_def fresh_names_def tsync_state(1,2,6) by (simp add: tsync_state(3))
  ultimately show "filters_ok (TSyncFilters tid e)"
    using assms(1) by (simp add: filters_ok_def tsync_state(2,7,8))
  show "stale e \<Longrightarrow> stale (TSyncFilters tid e)" by (auto simp: stale_def tsync_state)
qed

text \<open>An installation either is refused, and then changes nothing, or appends one validated filter and starts a new generation.\<close>

definition installed :: "u64 \<Rightarrow> sock_filter list \<Rightarrow> bool \<Rightarrow> bool \<Rightarrow> SeccompEmulator \<Rightarrow> SeccompEmulator" where
  "installed tid prog Log Sync e =
     (let e2 = on_thread tid (\<lambda>t. t\<lparr>SeccompMode := SECCOMP_MODE_FILTER\<rparr>) (append_filter tid prog Log e);
          e3 = (if Sync then TSyncFilters tid e2 else e2) in
      e3\<lparr>FilterGeneration := FilterGeneration e3 + 1\<rparr>)"

lemma SetModeFilter_outcome:
  obtains "fst (SetModeFilter NoNewPrivs tid flags arg e) \<noteq> 0" "snd (SetModeFilter NoNewPrivs tid flags arg e) = e"
  | prog where "NoNewPrivs" "arg = Some prog" "ValidateProgram prog = Some 0" "length prog \<le> BPF_MAXINSNS"
      "flags AND SECCOMP_FILTER_FLAG_TSYNC \<noteq> 0 \<longrightarrow> CanDoTSync tid e = 0"
      "SetModeFilter NoNewPrivs tid flags arg e =
         (0, installed tid prog (flags AND SECCOMP_FILTER_FLAG_LOG \<noteq> 0) (flags AND SECCOMP_FILTER_FLAG_TSYNC \<noteq> 0) e)"
proof (cases "NoNewPrivs \<and> (\<exists>prog. arg = Some prog \<and> ValidateProgram prog = Some 0) \<and> fst (SetModeFilter NoNewPrivs tid flags arg e) = 0")
  case True
  then obtain prog where p: "NoNewPrivs" "arg = Some prog" "ValidateProgram prog = Some 0" "fst (SetModeFilter NoNewPrivs tid flags arg e) = 0"
    by blast
  show thesis
    by (rule that(2) [OF p(1-3)])
      (use p(1,3,4) in \<open>auto simp: p(2) SetModeFilter_def installed_def Let_def EINVAL_def EACCES_def ENOMEM_def ESRCH_def EFAULT_def split: if_splits\<close>)
next
  case False
  have "fst (SetModeFilter NoNewPrivs tid flags arg e) \<noteq> 0 \<and> snd (SetModeFilter NoNewPrivs tid flags arg e) = e"
    using False by (auto simp: SetModeFilter_def Let_def EINVAL_def EACCES_def ENOMEM_def ESRCH_def EFAULT_def split: if_splits option.splits)
  then show thesis using that(1) by blast
qed

lemma installed_keeps:
  assumes "filters_ok e" "tid \<in> tids e" "ValidateProgram prog = Some 0" "length prog \<le> BPF_MAXINSNS"
  shows "filters_ok (installed tid prog Log Sync e)" "\<not> Sync \<Longrightarrow> counts_exact e \<Longrightarrow> counts_exact (installed tid prog Log Sync e)"
    "caches_ok e \<Longrightarrow> stale (installed tid prog Log Sync e)" "caches_ok e \<Longrightarrow> caches_ok (installed tid prog Log Sync e)"
    "tids (installed tid prog Log Sync e) = tids e"
proof -
  let ?e1 = "append_filter tid prog Log e"
  let ?e2 = "on_thread tid (\<lambda>t. t\<lparr>SeccompMode := SECCOMP_MODE_FILTER\<rparr>) ?e1"
  note a = append_keeps [OF assms]
  have e2: "filters_ok ?e2" "counts_exact e \<Longrightarrow> counts_exact ?e2" "tids ?e2 = tids e"
    using a by (simp_all add: on_thread_keeps)
  then show "filters_ok (installed tid prog Log Sync e)" "\<not> Sync \<Longrightarrow> counts_exact e \<Longrightarrow> counts_exact (installed tid prog Log Sync e)"
    "tids (installed tid prog Log Sync e) = tids e"
    using tsync_keeps(1) [of ?e2 tid] assms(2) by (simp_all add: installed_def Let_def tsync_state)
  have g: "FilterGeneration (installed tid prog Log Sync e) = FilterGeneration e + 1"
    by (simp add: installed_def Let_def tsync_state)
  have c2: "SeccompCache (thread ?e2 t) = SeccompCache (thread e t)" if "t \<in> tids e" for t
    using that by (auto simp: thread_on_thread thread_append)
  have c: "SeccompCache (thread (installed tid prog Log Sync e) t) = SeccompCache (thread e t)" if "t \<in> tids e" for t
    using that e2(3) c2 by (auto simp: installed_def Let_def tsync_state(3))
  show st: "stale (installed tid prog Log Sync e)" if "caches_ok e"
    using that by (auto simp: stale_def caches_ok_def cache_ok_def g c \<open>tids (installed tid prog Log Sync e) = tids e\<close> less_Suc_eq_le)
  then show "caches_ok (installed tid prog Log Sync e)" if "caches_ok e"
    using that by (simp add: stale_caches_ok g)
qed

lemma caches_ok_killsignal [simp]: "caches_ok (e\<lparr>CurrentKillSignal := s\<rparr>) = caches_ok e"
proof -
  have s: "same_filters ids e (e\<lparr>CurrentKillSignal := s\<rparr>)" for ids by (simp add: same_filters_def)
  show ?thesis by (simp add: caches_ok_def cache_ok_def cache_true_def rebuilt_same_filters [OF s] verdict_same_filters [OF s])
qed

lemma on_thread_caches:
  assumes "caches_ok e" "\<And>T. Filters (g T) = Filters T" "tid \<in> tids e \<Longrightarrow> cache_ok e (g (thread e tid))"
  shows "caches_ok (on_thread tid g e)"
proof -
  have s: "same_filters ids e (on_thread tid g e)" for ids by (simp add: same_filters_def)
  have "cache_ok (on_thread tid g e) T = cache_ok e T" for T
    by (simp add: cache_ok_def cache_true_def rebuilt_same_filters [OF s] verdict_same_filters [OF s])
  with assms(1,3) show ?thesis by (simp add: caches_ok_def thread_on_thread)
qed

definition seccomp_inv :: "bool \<Rightarrow> SeccompEmulator \<Rightarrow> bool" where
  "seccomp_inv tsync e \<longleftrightarrow> filters_ok e \<and> caches_ok e \<and> (\<not> tsync \<longrightarrow> counts_exact e)"

lemma SetModeFilter_inv:
  assumes "seccomp_inv tsync e" "tid \<in> tids e" "flags AND SECCOMP_FILTER_FLAG_TSYNC \<noteq> 0 \<longrightarrow> tsync"
  shows "seccomp_inv tsync (snd (SetModeFilter NoNewPrivs tid flags arg e))" "tids (snd (SetModeFilter NoNewPrivs tid flags arg e)) = tids e"
  using SetModeFilter_outcome [of NoNewPrivs tid flags arg e] assms
  by (cases rule: SetModeFilter_outcome [of NoNewPrivs tid flags arg e]; auto simp: seccomp_inv_def installed_keeps)+

lemma mode_inv:
  assumes "seccomp_inv tsync e"
  shows "seccomp_inv tsync (on_thread tid (\<lambda>t. t\<lparr>SeccompMode := m\<rparr>) e)"
proof -
  have "caches_ok (on_thread tid (\<lambda>t. t\<lparr>SeccompMode := m\<rparr>) e)"
    by (rule on_thread_caches) (use assms in \<open>auto simp: seccomp_inv_def caches_ok_def cache_ok_def\<close>)
  with assms show ?thesis by (simp add: seccomp_inv_def on_thread_keeps)
qed

lemma SetModeStrict_inv:
  assumes "seccomp_inv tsync e" "tid \<in> tids e"
  shows "seccomp_inv tsync (snd (SetModeStrict NoNewPrivs tid flags ArgGiven e))"
proof -
  let ?e1 = "e\<lparr>CurrentKillSignal := SIGKILL\<rparr>"
  let ?e2 = "snd (SetModeFilter NoNewPrivs tid 0 (Some (strict_filter (strict_nrs (Is64BitMode e)))) ?e1)"
  have "seccomp_inv tsync ?e1" using assms(1) by (simp add: seccomp_inv_def)
  then have i: "seccomp_inv tsync ?e2" "tids ?e2 = tids e" using SetModeFilter_inv assms(2) by auto
  have "seccomp_inv tsync (on_thread tid (\<lambda>t. t\<lparr>SeccompMode := SECCOMP_MODE_STRICT\<rparr>) ?e2)"
    by (rule mode_inv [OF i(1)])
  with assms(1) show ?thesis by (cases NoNewPrivs) (simp_all add: SetModeStrict_def Let_def)
qed

subsection \<open>System calls\<close>

lemma way_bound: "way RIP Nr < 64"
proof -
  have "(RIP XOR drop_bit 7 RIP XOR Nr) AND 63 \<le> (63 :: u64)" by (rule word_and_le1)
  then show ?thesis by (simp add: way_def word_le_nat_alt)
qed

lemma rebuilt_true: "cache_true e ids (rebuilt e ids)"
proof -
  have "\<not> cache_hit (rebuilt e ids) RIP Nr" if "keyed RIP Nr" for RIP Nr
  proof (cases "Mode (rebuilt e ids)")
    case NrOnly
    then show ?thesis by (auto simp: cache_hit_def rebuilt_def Let_def word_less_nat_alt)
  next
    case NrRIP
    have "Nr + 1 \<noteq> 0 \<or> RIP \<noteq> 0" using that by (auto simp: keyed_def eq_neg_iff_add_eq_0)
    with NrRIP show ?thesis by (auto simp: cache_hit_def rebuilt_def Let_def way_bound)
  qed (simp add: cache_hit_def)
  then show ?thesis by (auto simp: cache_true_def) (simp_all add: rebuilt_def Let_def)
qed

text \<open>Remembering an \<open>ALLOW\<close> adds at most the hit of its own key.\<close>

lemma remember_hit:
  assumes "cache_hit (remember r RIP Nr C) RIP' Nr'" "length (AllowedNrs C) = 8" "length (RIPAllowed C) = 64"
  shows "cache_hit C RIP' Nr' \<or> r AND SECCOMP_RET_ACTION_FULL = SECCOMP_RET_ALLOW \<and> Nr' = Nr \<and> (Mode C = NrOnly \<or> Mode C = NrRIP \<and> RIP' = RIP)"
proof (cases "r AND SECCOMP_RET_ACTION_FULL = SECCOMP_RET_ALLOW \<and> (Mode C = NrOnly \<and> Nr < 512 \<or> Mode C = NrRIP)")
  case False
  then have "remember r RIP Nr C = C" by (auto simp: remember_def)
  with assms show ?thesis by simp
next
  case True
  then consider (nr) "Mode C = NrOnly" "Nr < 512" | (rip) "Mode C = NrRIP" by blast
  then show ?thesis
  proof cases
    case nr
    have R: "remember r RIP Nr C =
        C\<lparr>AllowedNrs := (AllowedNrs C)[unat Nr div 64 := AllowedNrs C ! (unat Nr div 64) OR push_bit (unat Nr mod 64) 1]\<rparr>"
      using True nr by (simp add: remember_def)
    have hit: "Nr' < 512" "bit ((AllowedNrs C)[unat Nr div 64 := AllowedNrs C ! (unat Nr div 64) OR push_bit (unat Nr mod 64) 1] ! (unat Nr' div 64)) (unat Nr' mod 64)"
      using assms(1) nr by (simp_all add: R cache_hit_def and_exp_eq_0_iff_not_bit)
    have "unat Nr div 64 < 8" using nr(2) by (simp add: word_less_nat_alt)
    with hit(2) assms(2) have "bit (AllowedNrs C ! (unat Nr' div 64)) (unat Nr' mod 64) \<or> unat Nr div 64 = unat Nr' div 64 \<and> unat Nr mod 64 = unat Nr' mod 64"
      by (auto simp: nth_list_update bit_or_iff bit_exp_iff split: if_splits)
    moreover have "Nr' = Nr" if "unat Nr div 64 = unat Nr' div 64" "unat Nr mod 64 = unat Nr' mod 64"
      using that by (metis div_mult_mod_eq word_unat_eq_iff)
    ultimately show ?thesis using True nr hit(1) by (auto simp: cache_hit_def and_exp_eq_0_iff_not_bit)
  next
    case rip
    then show ?thesis
      using True assms(1,3) way_bound [of RIP Nr] by (auto simp: remember_def cache_hit_def nth_list_update split: if_splits)
  qed
qed

lemma remember_true:
  assumes "cache_true e ids C" "ids \<noteq> []" "\<forall>f \<in> set ids. filter_ok (info e f)" "length Args = 7" "verdict e ids RIP Args = Some r"
  shows "cache_true e ids (remember (fst r) RIP (Args ! 0) C)" "Generation (remember (fst r) RIP (Args ! 0) C) = Generation C"
proof -
  let ?C = "remember (fst r) RIP (Args ! 0) C"
  show "Generation ?C = Generation C" by (simp add: remember_def)
  have C: "Mode C = Mode (rebuilt e ids)" "NeedsRIP C = NeedsRIP (rebuilt e ids)" "length (AllowedNrs C) = 8" "length (RIPAllowed C) = 64"
    using assms(1) by (auto simp: cache_true_def)
  have "allowed (verdict e ids RIP' Args')"
    if "length Args' = 7" "keyed RIP' (Args' ! 0)" "cache_hit ?C RIP' (Args' ! 0)" for RIP' Args'
  proof (cases "cache_hit C RIP' (Args' ! 0)")
    case True
    with assms(1) that(1,2) show ?thesis by (simp add: cache_true_def)
  next
    case False
    with remember_hit [OF that(3) C(3,4)] have h: "fst r AND SECCOMP_RET_ACTION_FULL = SECCOMP_RET_ALLOW" "Args' ! 0 = Args ! 0"
        "Mode (rebuilt e ids) = NrOnly \<or> Mode (rebuilt e ids) = NrRIP \<and> RIP' = RIP"
      by (auto simp: C(1))
    then have "verdict e ids RIP' Args' = verdict e ids RIP Args"
      by (intro verdict_fields [OF assms(2,3,4) that(1)]) (auto simp: rebuilt_def Let_def split: if_splits)
    with h(1) show ?thesis by (simp add: allowed_def assms(5))
  qed
  then show "cache_true e ids ?C"
    unfolding cache_true_def using C by (auto simp: remember_def)
qed

lemma revalidate_inv:
  assumes "seccomp_inv tsync e" "tid \<in> tids e"
  shows "seccomp_inv tsync (revalidate tid e)" "tids (revalidate tid e) = tids e" "info (revalidate tid e) = info e"
    "Filters (thread (revalidate tid e) tid) = Filters (thread e tid)" "Is64BitMode (revalidate tid e) = Is64BitMode e"
    "Generation (SeccompCache (thread (revalidate tid e) tid)) = FilterGeneration (revalidate tid e)"
    "Filters (thread e tid) \<noteq> [] \<Longrightarrow> cache_true e (Filters (thread e tid)) (SeccompCache (thread (revalidate tid e) tid))"
proof -
  let ?g = "\<lambda>t. t\<lparr>SeccompCache := rebuilt e (Filters t)\<rparr>"
  have "caches_ok (on_thread tid ?g e)"
    by (rule on_thread_caches) (use assms rebuilt_true in \<open>auto simp: seccomp_inv_def cache_ok_def rebuilt_def Let_def\<close>)
  then show "seccomp_inv tsync (revalidate tid e)"
    using assms(1) by (simp add: revalidate_def seccomp_inv_def on_thread_keeps)
  have "cache_ok e (thread e tid)" using assms by (simp add: seccomp_inv_def caches_ok_def)
  then show "Filters (thread e tid) \<noteq> [] \<Longrightarrow> cache_true e (Filters (thread e tid)) (SeccompCache (thread (revalidate tid e) tid))"
    using assms(2) by (auto simp: revalidate_def thread_on_thread rebuilt_true cache_ok_def)
  show "tids (revalidate tid e) = tids e" "info (revalidate tid e) = info e" "Is64BitMode (revalidate tid e) = Is64BitMode e"
    "Filters (thread (revalidate tid e) tid) = Filters (thread e tid)"
    "Generation (SeccompCache (thread (revalidate tid e) tid)) = FilterGeneration (revalidate tid e)"
    using assms(2) by (simp_all add: revalidate_def thread_on_thread) (simp add: rebuilt_def Let_def)
qed

lemma apply_verdict_state:
  "snd (snd (apply_verdict r RIP Args e)) = e \<or> snd (snd (apply_verdict r RIP Args e)) = e\<lparr>AuditSerial := AuditSerial e + 1\<rparr>"
  by (cases "take_action (fst r) RIP Args e") (simp add: apply_verdict_def audit_def Let_def split: prod.split)

lemma caches_ok_audit [simp]: "caches_ok (e\<lparr>AuditSerial := a\<rparr>) = caches_ok e"
proof -
  have s: "same_filters ids e (e\<lparr>AuditSerial := a\<rparr>)" for ids by (simp add: same_filters_def)
  show ?thesis by (simp add: caches_ok_def cache_ok_def cache_true_def rebuilt_same_filters [OF s] verdict_same_filters [OF s])
qed

lemma apply_verdict_inv: "seccomp_inv tsync e \<Longrightarrow> seccomp_inv tsync (snd (snd (apply_verdict r RIP Args e)))"
  using apply_verdict_state [of r RIP Args e] by (auto simp: seccomp_inv_def)

text \<open>What the slow path runs on and leaves behind.\<close>

lemma slow_path:
  assumes "seccomp_inv tsync e" "tid \<in> tids e" "length Args = 7" "Filters (thread e tid) \<noteq> []"
    "cache_true e (Filters (thread e tid)) (SeccompCache (thread e tid))" "HaveRIP \<longleftrightarrow> Mode (SeccompCache (thread e tid)) = NrRIP"
  shows "\<exists>r g. verdict e (Filters (thread e tid)) GuestRIP Args = Some r \<and> (\<forall>T C. Filters (g T) = Filters T \<and> T\<lparr>SeccompCache := C\<rparr> = (g T)\<lparr>SeccompCache := C\<rparr>) \<and>
     ExecuteFilterSlow tid GuestRIP HaveRIP Args e = Some (apply_verdict r GuestRIP Args (on_thread tid g e)) \<and> seccomp_inv tsync (on_thread tid g e)"
proof -
  let ?ids = "Filters (thread e tid)" and ?C = "SeccompCache (thread e tid)"
  let ?RIP = "if HaveRIP \<or> NeedsRIP ?C then GuestRIP else 0"
  have ok: "\<forall>f \<in> set ?ids. filter_ok (info e f)"
    using assms(1,2) by (auto simp: seccomp_inv_def filters_ok_def fresh_names_def)
  have "verdict e ?ids ?RIP Args = verdict e ?ids GuestRIP Args"
    using assms(5) by (intro verdict_fields [OF assms(4) ok assms(3,3) refl]) (auto simp: cache_true_def)
  moreover obtain r where r: "verdict e ?ids ?RIP Args = Some r" using verdict_ok [OF assms(4) ok assms(3)] by blast
  ultimately have v: "verdict e ?ids GuestRIP Args = Some r" by simp
  let ?g = "\<lambda>t. t\<lparr>SeccompCache := remember (fst r) ?RIP (Args ! 0) (SeccompCache t)\<rparr>"
  have "ExecuteFilterSlow tid GuestRIP HaveRIP Args e = Some (apply_verdict r GuestRIP Args (on_thread tid ?g e))"
    using r by (simp add: ExecuteFilterSlow_def Let_def del: on_thread_simps)
  moreover have "caches_ok (on_thread tid ?g e)"
  proof (rule on_thread_caches)
    have "Generation ?C \<le> FilterGeneration e" using assms(1,2) by (simp add: seccomp_inv_def caches_ok_def cache_ok_def)
    then show "cache_ok e (?g (thread e tid))"
      using remember_true [OF assms(5,4) ok assms(3) r] by (simp add: cache_ok_def)
  qed (use assms(1) in \<open>simp_all add: seccomp_inv_def\<close>)
  then have "seccomp_inv tsync (on_thread tid ?g e)"
    using assms(1) by (simp add: seccomp_inv_def on_thread_keeps)
  ultimately show ?thesis using v by (intro exI [of _ r] exI [of _ ?g]) simp
qed

lemma ExecuteFilter_inv:
  assumes "seccomp_inv tsync e" "tid \<in> tids e" "length Args = 7" "ExecuteFilter tid RIP Args e = Some (res, effects, e')"
  shows "seccomp_inv tsync e'"
proof (cases "Filters (thread e tid) = []")
  case True
  with assms show ?thesis by (simp add: ExecuteFilter_def)
next
  case False
  let ?e = "revalidate tid e"
  note rv = revalidate_inv [OF assms(1,2)]
  have s: "same_filters ids e ?e" for ids by (simp add: same_filters_def rv(3,5))
  have ct: "cache_true ?e (Filters (thread ?e tid)) (SeccompCache (thread ?e tid))"
    using rv(7) [OF False] by (simp add: cache_true_def rv(4) rebuilt_same_filters [OF s] verdict_same_filters [OF s])
  show ?thesis
  proof (cases "cache_hit (SeccompCache (thread ?e tid)) RIP (Args ! 0)")
    case True
    with False assms(4) rv(1) show ?thesis by (simp add: ExecuteFilter_def Let_def)
  next
    case miss: False
    with False assms(4) have "ExecuteFilterSlow tid RIP (Mode (SeccompCache (thread ?e tid)) = NrRIP) Args ?e = Some (res, effects, e')"
      by (simp add: ExecuteFilter_def Let_def)
    with slow_path [OF rv(1) _ assms(3) _ ct refl, of RIP] False obtain r g where
      "apply_verdict r RIP Args (on_thread tid g ?e) = (res, effects, e')" "seccomp_inv tsync (on_thread tid g ?e)"
      using assms(2) by (auto simp: rv(2,4))
    then show ?thesis using apply_verdict_inv by (metis snd_conv)
  qed
qed

lemma boot_inv: "seccomp_inv tsync (boot Needs is64 tid)" "stale (boot Needs is64 tid)" "tids (boot Needs is64 tid) = {tid}"
  "fresh_names (boot Needs is64 tid)"
  by (simp_all add: seccomp_inv_def filters_ok_def caches_ok_def counts_exact_def fresh_names_def cache_ok_def stale_def boot_def tids_def fids_def
      thread_def refs_def empty_cache_def)

lemma read_filters_inv:
  assumes "seccomp_inv tsync e" "stale e" "tid \<in> tids e"
  shows "seccomp_inv tsync (snd (read_filters n tid bs e)) \<and> stale (snd (read_filters n tid bs e)) \<and> tids (snd (read_filters n tid bs e)) = tids e"
  using assms
proof (induction n tid bs e rule: read_filters.induct)
  case (2 n tid bs e)
  have pos: "0 < FilterGeneration e" using 2(2) by (simp add: seccomp_inv_def caches_ok_def)
  have step: "seccomp_inv tsync (append_filter tid prog Log e) \<and> stale (append_filter tid prog Log e)"
    if "ValidateProgram prog = Some 0" "length prog \<le> BPF_MAXINSNS" for prog Log
    using append_keeps [OF _ 2(4) that, of Log] 2(2,3) stale_caches_ok [of "append_filter tid prog Log e"] pos by (simp add: seccomp_inv_def)
  have len: "unat n \<le> BPF_MAXINSNS" if "\<not> of_nat BPF_MAXINSNS < n" for n :: u32
    using that by (simp add: word_less_nat_alt BPF_MAXINSNS_def)
  show ?case
  proof (cases "read_bytes 16 bs")
    case (Some p)
    obtain SFilter bs1 where p: "p = (SFilter, bs1)" by (cases p)
    let ?size = "le_word (take 8 SFilter) :: u64" and ?n = "le_word (take 4 (drop 8 SFilter)) :: u32"
    show ?thesis
    proof (cases "(?n = 0 \<or> of_nat BPF_MAXINSNS < ?n \<or> ?size \<noteq> ucast ?n * 8) \<or> read_bytes (unat ?size) bs1 = None")
      case True
      then show ?thesis using 2(2-4) by (auto simp: Some p Let_def)
    next
      case False
      then obtain body bs2 where body: "read_bytes (unat ?size) bs1 = Some (body, bs2)" by auto
      let ?P = "map (\<lambda>i. get_inst (take 8 (drop (8 * i) body))) [0..<unat ?n]"
      show ?thesis
      proof (cases "ValidateProgram ?P = Some 0")
        case True
        have s: "seccomp_inv tsync (append_filter tid ?P (SFilter ! 12 \<noteq> 0) e)" "stale (append_filter tid ?P (SFilter ! 12 \<noteq> 0) e)"
          using step [OF True, of "SFilter ! 12 \<noteq> 0"] len [of ?n] False by simp_all
        have "read_filters (Suc n) tid bs e = read_filters n tid bs2 (append_filter tid ?P (SFilter ! 12 \<noteq> 0) e)"
          using False True body by (simp add: Some p Let_def)
        moreover note 2(1) [OF Some [unfolded p] refl refl refl refl _ body refl refl _ s]
        ultimately show ?thesis using False True 2(4) by simp
      qed (use False 2(2-4) body in \<open>simp add: Some p Let_def\<close>)
    qed
  qed (use 2 in simp)
qed simp

lemma deserialize_inv: "seccomp_inv tsync (DeserializeFilters tid bs (boot Needs is64 tid))"
proof -
  let ?b = "boot Needs is64 tid"
  have bump: "seccomp_inv tsync ((on_thread tid (\<lambda>t. t\<lparr>SeccompMode := m\<rparr>) e)\<lparr>FilterGeneration := FilterGeneration e + 1\<rparr>)"
    if "seccomp_inv tsync e" for e m
  proof -
    let ?e = "on_thread tid (\<lambda>t. t\<lparr>SeccompMode := m\<rparr>) e"
    have i: "seccomp_inv tsync ?e" by (rule mode_inv [OF that])
    then have "stale (?e\<lparr>FilterGeneration := FilterGeneration e + 1\<rparr>)"
      by (auto simp: seccomp_inv_def caches_ok_def cache_ok_def stale_def less_Suc_eq_le)
    then show ?thesis using i by (simp add: seccomp_inv_def stale_caches_ok)
  qed
  show ?thesis
  proof (cases "read_bytes 16 bs")
    case None
    then show ?thesis by (simp add: DeserializeFilters_def boot_inv)
  next
    case (Some p)
    obtain Header bs1 where p: "p = (Header, bs1)" by (cases p)
    obtain ok e1 where r: "read_filters (unat (le_word (take 8 Header) :: u64)) tid bs1 ?b = (ok, e1)" by fastforce
    have "seccomp_inv tsync e1"
      using read_filters_inv [where e = ?b and tid = tid and tsync = tsync] r boot_inv by (metis insertI1 snd_conv)
    with bump show ?thesis by (simp add: DeserializeFilters_def Some p r)
  qed
qed

lemma reach_inv: "seccomp_reach tsync e \<Longrightarrow> seccomp_inv tsync e"
proof (induction rule: seccomp_reach.induct)
  case (reach_step e e')
  from reach_step.hyps(2) reach_step.IH show ?case
  proof cases
    case (step_create Parent tid)
    with reach_step.IH show ?thesis using create_keeps create_caches by (simp add: seccomp_inv_def)
  next
    case (step_destroy tid)
    with reach_step.IH show ?thesis using destroy_keeps destroy_caches by (simp add: seccomp_inv_def)
  qed (auto simp: SetModeFilter_inv SetModeStrict_inv intro: ExecuteFilter_inv)
qed (simp_all add: boot_inv deserialize_inv)

end
