(* ===== verification/Seccomp_Props.thy ===== *)
theory Seccomp_Props
  imports Seccomp_History
begin

text \<open>
  What seccomp promises over any history of a process: filtering is exactly interpretation of every filter on every call, whatever the verdict
  cache holds; a chain decides as the kernel decides; filters live as long as a thread uses them and no longer; an installation is all or nothing;
  strict mode and \<open>execve\<close> do what they say.
\<close>

subsection \<open>Interpreting every call\<close>

definition interpret_filters :: "u64 \<Rightarrow> u64 \<Rightarrow> SyscallArguments \<Rightarrow> SeccompEmulator \<Rightarrow> (bool \<times> u64) \<times> Effect list \<times> SeccompEmulator" where
  "interpret_filters tid RIP Args e =
     (if Filters (thread e tid) = [] then ((False, 0), [], e)
      else apply_verdict (the (verdict e (Filters (thread e tid)) RIP Args)) RIP Args e)"

definition forget :: "SeccompEmulator \<Rightarrow> SeccompEmulator" where
  "forget e = e\<lparr>Threads := map (\<lambda>(t, T). (t, T\<lparr>SeccompCache := empty_cache\<rparr>)) (Threads e)\<rparr>"

lemma forget_on_thread:
  assumes "\<And>T. T\<lparr>SeccompCache := empty_cache\<rparr> = (g T)\<lparr>SeccompCache := empty_cache\<rparr>"
  shows "forget (on_thread tid g e) = forget e"
proof -
  have "(\<lambda>p. case case p of (t, x) \<Rightarrow> (t, if t = tid then g x else x) of (t, T) \<Rightarrow> (t, T\<lparr>SeccompCache := empty_cache\<rparr>)) =
      (\<lambda>(t, T). (t, T\<lparr>SeccompCache := empty_cache\<rparr>))"
    by (auto simp: fun_eq_iff assms [symmetric])
  then show ?thesis by (simp add: forget_def on_thread_def comp_def)
qed

lemma forget_fields:
  assumes "forget e = forget e'"
  shows "Is64BitMode e = Is64BitMode e'" "CurrentKillSignal e = CurrentKillSignal e'" "AuditSerial e = AuditSerial e'"
  using arg_cong [OF assms, of Is64BitMode] arg_cong [OF assms, of CurrentKillSignal] arg_cong [OF assms, of AuditSerial]
  by (simp_all add: forget_def)

lemma forget_audit: "forget e = forget e' \<Longrightarrow> forget (e\<lparr>AuditSerial := a\<rparr>) = forget (e'\<lparr>AuditSerial := a\<rparr>)"
  by (cases e; cases e') (simp add: forget_def)

lemma apply_verdict_forget:
  assumes "forget e = forget e'"
  shows "fst (apply_verdict r RIP Args e) = fst (apply_verdict r RIP Args e')"
    "fst (snd (apply_verdict r RIP Args e)) = fst (snd (apply_verdict r RIP Args e'))"
    "forget (snd (snd (apply_verdict r RIP Args e))) = forget (snd (snd (apply_verdict r RIP Args e')))"
proof -
  note f = forget_fields [OF assms]
  have t: "take_action (fst r) RIP Args e = take_action (fst r) RIP Args e'"
    by (simp only: take_action_def Arch_def f)
  have a: "fst (audit r RIP Args e) = fst (audit r RIP Args e')" "forget (snd (audit r RIP Args e)) = forget (snd (audit r RIP Args e'))"
    by (simp_all add: audit_def kill_signal_def f forget_audit [OF assms] assms Let_def split: prod.split)
  then show "fst (apply_verdict r RIP Args e) = fst (apply_verdict r RIP Args e')"
    "fst (snd (apply_verdict r RIP Args e)) = fst (snd (apply_verdict r RIP Args e'))"
    "forget (snd (snd (apply_verdict r RIP Args e))) = forget (snd (snd (apply_verdict r RIP Args e')))"
    by (simp_all add: apply_verdict_def t split_beta)
qed

lemma apply_allow:
  assumes "fst r AND SECCOMP_RET_ACTION_FULL = SECCOMP_RET_ALLOW"
  shows "apply_verdict r RIP Args e = ((False, 0), [], e)"
  using assms
  by (cases r) (simp add: apply_verdict_def audit_def take_action_def Let_def SECCOMP_RET_ALLOW_def SECCOMP_RET_LOG_def SECCOMP_RET_KILL_THREAD_def
      SECCOMP_RET_TRAP_def SECCOMP_RET_ERRNO_def SECCOMP_RET_TRACE_def)

lemma ExecuteFilter_interprets:
  assumes "seccomp_inv tsync e" "tid \<in> tids e" "length Args = 7" "keyed RIP (Args ! 0)"
  shows "\<exists>e'. ExecuteFilter tid RIP Args e =
      Some (fst (interpret_filters tid RIP Args e), fst (snd (interpret_filters tid RIP Args e)), e') \<and>
    forget e' = forget (snd (snd (interpret_filters tid RIP Args e)))"
proof (cases "Filters (thread e tid) = []")
  case True
  then show ?thesis by (simp add: ExecuteFilter_def interpret_filters_def)
next
  case False
  let ?e = "revalidate tid e" and ?ids = "Filters (thread e tid)"
  note rv = revalidate_inv [OF assms(1,2)]
  have s: "same_filters ids e ?e" for ids by (simp add: same_filters_def rv(3,5))
  have fe: "forget ?e = forget e" by (simp add: revalidate_def forget_on_thread)
  have ct: "cache_true ?e (Filters (thread ?e tid)) (SeccompCache (thread ?e tid))"
    using rv(7) [OF False] by (simp add: cache_true_def rv(4) rebuilt_same_filters [OF s] verdict_same_filters [OF s])
  show ?thesis
  proof (cases "cache_hit (SeccompCache (thread ?e tid)) RIP (Args ! 0)")
    case True
    then have "allowed (verdict e ?ids RIP Args)"
      using ct assms(3,4) by (simp add: cache_true_def rv(4) verdict_same_filters [OF s])
    then obtain r where "verdict e ?ids RIP Args = Some r" "fst r AND SECCOMP_RET_ACTION_FULL = SECCOMP_RET_ALLOW"
      by (auto simp: allowed_def)
    with False True fe show ?thesis by (simp add: ExecuteFilter_def interpret_filters_def Let_def apply_allow)
  next
    case miss: False
    obtain r g where v: "verdict ?e (Filters (thread ?e tid)) RIP Args = Some r" "\<forall>T C. T\<lparr>SeccompCache := C\<rparr> = (g T)\<lparr>SeccompCache := C\<rparr>"
      "ExecuteFilterSlow tid RIP (Mode (SeccompCache (thread ?e tid)) = NrRIP) Args ?e = Some (apply_verdict r RIP Args (on_thread tid g ?e))"
      using slow_path [OF rv(1) _ assms(3) _ ct refl, of RIP] False assms(2) unfolding rv(2,4) by blast
    have "verdict e ?ids RIP Args = Some r" using v(1) by (simp add: rv(4) verdict_same_filters [OF s])
    then have i: "interpret_filters tid RIP Args e = apply_verdict r RIP Args e" using False by (simp add: interpret_filters_def)
    have f: "forget (on_thread tid g ?e) = forget e" using v(2) fe by (simp add: forget_on_thread)
    have "ExecuteFilter tid RIP Args e = Some (apply_verdict r RIP Args (on_thread tid g ?e))"
      using False miss v(3) by (simp add: ExecuteFilter_def Let_def)
    then show ?thesis using apply_verdict_forget [OF f, of r RIP Args] by (simp add: i prod_eq_iff)
  qed
qed

text \<open>
  C35: The verdict cache cannot be observed.  In every state a process can reach, \<open>ExecuteFilter\<close> returns, with the same result, signals, kills
  and audit messages as running every filter of the thread on the full data of the call, and it leaves the same state but for the caches.  The
  one key excluded is number \<open>2\<^sup>6\<^sup>4 - 1\<close> at address 0, which the probe confuses with an empty entry.
\<close>

theorem verdict_cache_unobservable:
  assumes "seccomp_reach tsync e" "tid \<in> tids e" "length Args = 7" "\<not> (RIP = 0 \<and> Args ! 0 = - 1)"
  shows "\<exists>e'. ExecuteFilter tid RIP Args e =
      Some (fst (interpret_filters tid RIP Args e), fst (snd (interpret_filters tid RIP Args e)), e') \<and>
    forget e' = forget (snd (snd (interpret_filters tid RIP Args e)))"
  by (rule ExecuteFilter_interprets [OF reach_inv [OF assms(1)] assms(2,3)]) (simp add: keyed_def assms(4))

text \<open>A process with one filter, and one that has run a call under it.\<close>

definition guarded :: SeccompEmulator where
  "guarded = snd (SetModeFilter True 7 0 (Some deny_write) (boot True True 7))"

lemma guarded_reach: "seccomp_reach tsync guarded" "tids guarded = {7}"
proof -
  have b: "7 \<in> tids (boot True True 7)" by (simp add: boot_inv)
  have "seccomp_step tsync (boot True True 7) guarded" unfolding guarded_def by (rule step_filter [OF b]) simp
  then show "seccomp_reach tsync guarded" by (rule reach_step [OF reach_boot])
  show "tids guarded = {7}" unfolding guarded_def
    using SetModeFilter_inv(2) [of True "boot True True 7" 7 0 True "Some deny_write"] by (simp add: boot_inv)
qed

theorem verdict_cache_unobservable_witness:
  "\<exists>e'. ExecuteFilter 7 0x1000 [0, 1, 2, 3, 4, 5, 6] guarded =
      Some (fst (interpret_filters 7 0x1000 [0, 1, 2, 3, 4, 5, 6] guarded), fst (snd (interpret_filters 7 0x1000 [0, 1, 2, 3, 4, 5, 6] guarded)), e') \<and>
    forget e' = forget (snd (snd (interpret_filters 7 0x1000 [0, 1, 2, 3, 4, 5, 6] guarded)))"
  by (rule verdict_cache_unobservable [OF guarded_reach(1) [of False]]) (simp_all add: guarded_reach)

subsection \<open>The chain decides as the kernel does\<close>

lemma arg_min_list_first:
  assumes "xs \<noteq> []"
  shows "\<exists>m < length xs. arg_min_list f xs = xs ! m \<and> (\<forall>j < length xs. f (xs ! m) \<le> f (xs ! j)) \<and> (\<forall>j < m. f (xs ! m) < f (xs ! j))"
  using assms
proof (induction xs)
  case (Cons x xs)
  show ?case
  proof (cases "xs = []")
    case True
    then show ?thesis by simp
  next
    case False
    with Cons.IH obtain m where m: "m < length xs" "arg_min_list f xs = xs ! m" "\<forall>j < length xs. f (xs ! m) \<le> f (xs ! j)"
      "\<forall>j < m. f (xs ! m) < f (xs ! j)" by blast
    show ?thesis
    proof (cases "f x \<le> f (xs ! m)")
      case True
      with m have "\<forall>j < length (x # xs). f x \<le> f ((x # xs) ! j)" by (auto simp: nth_Cons split: nat.split intro: order_trans)
      with True m(2) False show ?thesis by (intro exI [of _ 0]) (simp add: arg_min_list_cons)
    next
      case lt: False
      with m show ?thesis using False
        by (intro exI [of _ "Suc m"]) (auto simp: arg_min_list_cons nth_Cons split: nat.split)
    qed
  qed
qed simp

text \<open>
  Of the filters of a thread, newest first, the verdict is the value of the first whose action is least in the order of precedence, and logging
  follows that filter.
\<close>

lemma chain_verdict:
  fixes RIP :: u64 and v :: "nat \<Rightarrow> u32 \<times> bool"
  assumes "seccomp_reach tsync e" "tid \<in> tids e" "Filters (thread e tid) \<noteq> []" "length Args = 7"
    and v_def: "v = (\<lambda>j. value_of (seccomp_data e RIP Args) (info e (rev (Filters (thread e tid)) ! j)))"
  shows "\<exists>m < length (Filters (thread e tid)). verdict e (Filters (thread e tid)) RIP Args = Some (v m) \<and>
    (\<forall>j < length (Filters (thread e tid)). action_of (fst (v m)) \<le> action_of (fst (v j))) \<and> (\<forall>j < m. action_of (fst (v m)) < action_of (fst (v j)))"
proof -
  let ?ids = "Filters (thread e tid)" and ?vs = "map (value_of (seccomp_data e RIP Args)) (map (info e) (rev (Filters (thread e tid))))"
  have ok: "\<forall>f \<in> set ?ids. filter_ok (info e f)"
    using reach_inv [OF assms(1)] assms(2) by (auto simp: seccomp_inv_def filters_ok_def fresh_names_def)
  have "?vs ! j = v j" if "j < length ?ids" for j using that by (simp add: v_def)
  moreover have "?vs \<noteq> []" using assms(3) by simp
  ultimately show ?thesis
    using arg_min_list_first [of ?vs "\<lambda>r. action_of (fst r)"] verdict_ok [OF assms(3) ok assms(4), of RIP]
    by (metis (no_types, lifting) length_map length_rev order.strict_trans)
qed

lemma precedence:
  "sorted_wrt (\<lambda>r s. action_of r < action_of s)
     [SECCOMP_RET_KILL_PROCESS, SECCOMP_RET_KILL_THREAD, SECCOMP_RET_TRAP, SECCOMP_RET_ERRNO, SECCOMP_RET_USER_NOTIF, SECCOMP_RET_TRACE,
      SECCOMP_RET_LOG, SECCOMP_RET_ALLOW]"
  by code_simp

subsection \<open>Filters and the threads that use them\<close>

text \<open>A filter in use is in the list of all filters, was validated, and counts at least its uses: freeing a thread never leaves another with a dangling filter.\<close>

lemma filters_alive:
  assumes "seccomp_reach tsync e" "t \<in> tids e" "f \<in> set (Filters (thread e t))"
  shows "f \<in> fids e" "filter_ok (info e f)" "refs e f \<le> RefCount (info e f)"
  using reach_inv [OF assms(1)] assms(2,3) by (auto simp: seccomp_inv_def filters_ok_def fresh_names_def)



lemma guarded_state: "Filters (thread guarded 7) = [0]" "SeccompMode (thread guarded 7) = 2" "map fst (Threads guarded) = [7]" "map fst (FilterList guarded) = [0]"
  unfolding guarded_def by code_simp+


text \<open>
  Synchronising threads breaks the exact count: \<open>TSyncFilters\<close> drops the filters of the other threads without counting down, so a filter two
  threads shared before is held three times after, and stays in the list when both are gone.
\<close>

definition synced :: SeccompEmulator where
  "synced = snd (SetModeFilter True 7 SECCOMP_FILTER_FLAG_TSYNC (Some deny_write) (CreateThread 7 8 guarded))"

lemma tsync_leaks: "RefCount (info synced 0) = 3" "map (\<lambda>(t, T). Filters T) (Threads synced) = [[0, 1], [0, 1]]"
  "map fst (FilterList (DestroyThread 7 (DestroyThread 8 synced))) = [0]"
  unfolding synced_def guarded_def by code_simp+

text \<open>An unknown mode given to \<open>prctl\<close> is taken for strict mode, whose operation number is the initial value of \<open>Operation\<close>.\<close>

lemma prctl_unknown_mode:
  "arg2 \<noteq> ucast SECCOMP_MODE_FILTER \<Longrightarrow>
   prctl_SET_SECCOMP read_prog read_u32 NoNewPrivs tid arg2 arg3 e = prctl_SET_SECCOMP read_prog read_u32 NoNewPrivs tid (ucast SECCOMP_MODE_STRICT) arg3 e"
  by (simp add: prctl_SET_SECCOMP_def Let_def)

subsection \<open>Installing is all or nothing\<close>

lemma listener_unsupported:
  assumes "(flags :: u32) AND NOT SUPPORTED_FLAGS = 0"
  shows "flags AND SECCOMP_FILTER_FLAG_NEW_LISTENER = 0"
proof -
  have "NOT SUPPORTED_FLAGS AND 8 = (8 :: u32)" by (simp add: SUPPORTED_FLAGS_def)
  then have "flags AND 8 = (flags AND NOT SUPPORTED_FLAGS) AND 8" by (simp only: and.assoc)
  then show ?thesis by (simp only: assms and_zero_eq zero_and_eq)
qed

lemma installed_chain:
  assumes "filters_ok e" "tid \<in> tids e" "ValidateProgram prog = Some 0" "length prog \<le> BPF_MAXINSNS"
  shows "\<exists>F. chain (installed tid prog Log Sync e) tid = chain e tid @ [F] \<and> Program F = prog \<and> ShouldLog F = Log"
    "SeccompMode (thread (installed tid prog Log Sync e) tid) = SECCOMP_MODE_FILTER"
    "t \<in> tids e \<Longrightarrow> t \<noteq> tid \<Longrightarrow> Sync \<Longrightarrow> Filters (thread (installed tid prog Log Sync e) t) = Filters (thread (installed tid prog Log Sync e) tid) \<and>
       SeccompMode (thread (installed tid prog Log Sync e) t) = SECCOMP_MODE_FILTER"
    "t \<in> tids e \<Longrightarrow> t \<noteq> tid \<Longrightarrow> \<not> Sync \<Longrightarrow> thread (installed tid prog Log Sync e) t = thread e t"
proof -
  let ?F = "AnalyzeFilterLoads \<lparr>Program = prog, RefCount = 1, FilterInstructions = of_nat (length prog), ShouldLog = Log, ReadsIP = False, ReadsArgs = False\<rparr>"
  let ?e1 = "append_filter tid prog Log e"
  let ?e2 = "on_thread tid (\<lambda>t. t\<lparr>SeccompMode := SECCOMP_MODE_FILTER\<rparr>) ?e1"
  let ?e = "installed tid prog Log Sync e"
  have fr: "fresh_names e" using assms(1) by (simp add: filters_ok_def)
  have th: "thread ?e2 t = (if t = tid then (thread e t)\<lparr>Filters := Filters (thread e t) @ [NextFilter e], SeccompMode := SECCOMP_MODE_FILTER\<rparr> else thread e t)"
    if "t \<in> tids e" for t using that by (auto simp: thread_on_thread thread_append)
  have t1: "thread ?e t = (if Sync then thread (TSyncFilters tid ?e2) t else thread ?e2 t)" for t by (simp add: installed_def Let_def)
  have t2: "thread ?e tid = thread ?e2 tid" using assms(2) by (simp add: t1 tsync_state(3))
  show "SeccompMode (thread ?e tid) = SECCOMP_MODE_FILTER" using th [OF assms(2)] by (simp add: t2)
  show "Filters (thread ?e t) = Filters (thread ?e tid) \<and> SeccompMode (thread ?e t) = SECCOMP_MODE_FILTER" if "t \<in> tids e" "t \<noteq> tid" Sync
    using that(1,2) th [OF assms(2)] unfolding t1 by (simp add: that(3) tsync_state(3) assms(2))
  show "thread ?e t = thread e t" if "t \<in> tids e" "t \<noteq> tid" "\<not> Sync"
    using that(1,2) th [OF that(1)] unfolding t1 by (simp add: that(3))
  have core: "core (info ?e f) = core (info ?e1 f)" if "f \<in> fids ?e1" for f
    using that by (simp add: installed_def Let_def tsync_state(4))
  have new: "info ?e1 f = (if f = NextFilter e then ?F else info e f)" for f
    using fr info_append by (simp add: fresh_names_def)
  have old: "f \<in> fids e \<and> f \<noteq> NextFilter e" if "f \<in> set (Filters (thread e tid))" for f
    using fr assms(2) that by (fastforce simp: fresh_names_def)
  have "chain ?e tid = map (\<lambda>f. core (info ?e f)) (Filters (thread e tid) @ [NextFilter e])"
    using th [OF assms(2)] by (simp add: chain_def t2)
  also have "\<dots> = chain e tid @ [core ?F]" using old by (simp add: chain_def core new)
  finally show "\<exists>F. chain ?e tid = chain e tid @ [F] \<and> Program F = prog \<and> ShouldLog F = Log"
    by (intro exI [of _ "core ?F"]) (simp add: AnalyzeFilterLoads_def split: prod.split)
qed

text \<open>
  C38: An installation is all or nothing.  Whenever \<open>SetModeFilter\<close> returns something other than 0 the state is as before the call.  It returns 0
  exactly when the flags are supported, a program was given, \<open>no_new_privs\<close> is set, the program has between 1 and 4096 instructions, the
  instruction budget holds, no other thread prevents a requested synchronisation, and the program validates.  Then the thread has its old filters
  followed by one with this program, and is in filter mode; the other threads have the same filters if synchronisation was requested and are
  untouched otherwise.
\<close>

theorem SetModeFilter_all_or_nothing:
  assumes "seccomp_reach tsync e" "tid \<in> tids e" "SetModeFilter NoNewPrivs tid flags arg e = (r, e')"
  shows "(r \<noteq> 0 \<longrightarrow> e' = e) \<and>
    (r = 0 \<longleftrightarrow> flags AND NOT SUPPORTED_FLAGS = 0 \<and> NoNewPrivs \<and>
       (\<exists>prog. arg = Some prog \<and> 0 < length prog \<and> length prog \<le> 4096 \<and>
          TotalFilterInstructions e + of_nat (length prog) + of_nat (length (Filters (thread e tid))) * 4 \<le> 32768 \<and>
          (flags AND SECCOMP_FILTER_FLAG_TSYNC \<noteq> 0 \<longrightarrow> CanDoTSync tid e = 0) \<and> ValidateProgram prog = Some 0)) \<and>
    (r = 0 \<longrightarrow> (\<exists>F. chain e' tid = chain e tid @ [F] \<and> arg = Some (Program F) \<and> ShouldLog F = (flags AND SECCOMP_FILTER_FLAG_LOG \<noteq> 0)) \<and>
       SeccompMode (thread e' tid) = SECCOMP_MODE_FILTER \<and>
       (\<forall>t \<in> tids e - {tid}. if flags AND SECCOMP_FILTER_FLAG_TSYNC \<noteq> 0 then Filters (thread e' t) = Filters (thread e' tid) else thread e' t = thread e t))"
proof -
  have f: "filters_ok e" using reach_inv [OF assms(1)] by (simp add: seccomp_inv_def)
  have acc: "r = 0 \<longleftrightarrow> flags AND NOT SUPPORTED_FLAGS = 0 \<and> NoNewPrivs \<and>
       (\<exists>prog. arg = Some prog \<and> 0 < length prog \<and> length prog \<le> 4096 \<and>
          TotalFilterInstructions e + of_nat (length prog) + of_nat (length (Filters (thread e tid))) * 4 \<le> 32768 \<and>
          (flags AND SECCOMP_FILTER_FLAG_TSYNC \<noteq> 0 \<longrightarrow> CanDoTSync tid e = 0) \<and> ValidateProgram prog = Some 0)"
    using assms(3) listener_unsupported [of flags]
    by (auto simp: SetModeFilter_def Let_def EINVAL_def EACCES_def ENOMEM_def ESRCH_def EFAULT_def BPF_MAXINSNS_def BPF_MAX_INSNS_PER_PATH_def
        BPF_MULTIFILTERPENALTY_def not_less split: if_splits option.splits)
  show ?thesis
  proof (rule SetModeFilter_outcome [of NoNewPrivs tid flags arg e], goal_cases)
    case 1
    with assms(3) have "r \<noteq> 0" "e' = e" by auto
    then show ?thesis using acc by blast
  next
    case (2 prog)
    note ch = installed_chain [OF f assms(2) 2(3,4), where Log = "flags AND SECCOMP_FILTER_FLAG_LOG \<noteq> 0" and Sync = "flags AND SECCOMP_FILTER_FLAG_TSYNC \<noteq> 0"]
    have e': "r = 0" "e' = installed tid prog (flags AND SECCOMP_FILTER_FLAG_LOG \<noteq> 0) (flags AND SECCOMP_FILTER_FLAG_TSYNC \<noteq> 0) e"
      using assms(3) 2(6) by auto
    show ?thesis using acc ch unfolding e' 2(2) by auto
  qed
qed

theorem SetModeFilter_all_or_nothing_witness:
  "\<exists>F. chain guarded 7 = chain (boot True True 7) 7 @ [F] \<and> Some deny_write = Some (Program F) \<and> ShouldLog F = ((0 :: u32) AND 2 \<noteq> 0)"
proof -
  have "SetModeFilter True 7 0 (Some deny_write) (boot True True 7) = (0, guarded)"
    unfolding guarded_def by code_simp
  from SetModeFilter_all_or_nothing [OF reach_boot [of False] _ this] show ?thesis by (simp add: boot_inv)
qed

subsection \<open>Filters across \<open>execve\<close>\<close>

text \<open>
  C39: The filters of a thread survive \<open>execve\<close>.  In every state a process can reach, what \<open>SerializeFilters\<close> writes for a thread,
  \<open>DeserializeFilters\<close> reads in a fresh process of the same bitness into a thread with the same mode, the same programs and log flags in the
  same order, and the same verdict on every system call, whatever the padding of the written structures.
\<close>

theorem filters_survive_exec:
  assumes "seccomp_reach tsync e" "tid \<in> tids e" "SerializeFilters pad tid e = Some bs" "length (Filters (thread e tid)) < 2 ^ 64"
    and "e' = DeserializeFilters tid' bs (boot Needs (Is64BitMode e) tid')"
  shows "SeccompMode (thread e' tid') = SeccompMode (thread e tid) \<and> chain e' tid' = chain e tid \<and>
    (\<forall>RIP Args. verdict e' (Filters (thread e' tid')) RIP Args = verdict e (Filters (thread e tid)) RIP Args)"
proof -
  have ok: "\<forall>f \<in> set (Filters (thread e tid)). filter_ok (info e f)"
    using filters_alive(2) [OF assms(1,2)] by blast
  have b: "tid' \<in> tids (boot Needs (Is64BitMode e) tid')" "Filters (thread (boot Needs (Is64BitMode e) tid') tid') = []"
    "Is64BitMode (boot Needs (Is64BitMode e) tid') = Is64BitMode e"
    by (simp add: boot_inv) (simp_all add: boot_def thread_def)
  note d = deserialize_serialized [OF assms(3) ok assms(4) boot_inv(4) b(1,2), folded assms(5)]
  have "Is64BitMode e' = Is64BitMode e" using d(3) b(3) by simp
  from verdict_chain [OF d(1) this] d(1,2) show ?thesis by simp
qed

theorem filters_survive_exec_witness:
  "\<exists>bs. SerializeFilters (\<lambda>_ _. 0) 7 guarded = Some bs \<and>
    chain (DeserializeFilters 9 bs (boot True (Is64BitMode guarded) 9)) 9 = chain guarded 7"
proof -
  obtain bs where bs: "SerializeFilters (\<lambda>_ _. 0) 7 guarded = Some bs"
    using guarded_state(2) by (simp add: SerializeFilters_def Let_def)
  have "7 \<in> tids guarded" by (simp add: guarded_reach)
  from filters_survive_exec [OF guarded_reach(1) [of False] this bs _ refl, of 9 True] guarded_state(1) bs show ?thesis by simp
qed

end
