(* ===== verification/Spec2Isabelle.thy ===== *)
theory Spec2Isabelle
  imports Vl_Codec Rip_Recovery Eflags Alu_Arith Alu_Wide Alu_Cond Stack_Ops Zext_Elision Seccomp_Props
begin

text \<open>
  Verification of parts of the ppc64le port of the FEX x86 emulator.  Paths are relative to \<open>src/\<close>; \<open>PPC64LE/\<close> stands for
  \<open>FEXCore/Source/Interface/Core/JIT/PPC64LE/\<close> and \<open>Seccomp/\<close> for \<open>Source/Tools/LinuxEmulation/LinuxSyscalls/Seccomp/\<close>.

  \<^bold>\<open>The program.\<close>  FEX runs x86 programs.  A decoder and dispatcher turn guest instructions into IR; passes optimise it and allocate registers;
  the JIT emits host code, one handler (\<open>DEF_OP\<close>) per IR operation, into a code buffer, and appends to every block a table that maps host
  offsets to guest addresses.  When a fault or a system call needs the guest state, the runtime finds the block of a host address, recovers the
  guest RIP from the table and packs the flags.  System calls first pass the seccomp filters the guest installed.  Three chains of this are
  modelled: from an IR block to the machine state after its code, from emitted blocks back to guest addresses, and from the installation of
  filters to the decision on a call.

  \<^bold>\<open>Shared.\<close>  \<open>Fex_Prelude\<close>: word types, casts, little-endian byte sequences, list lemmas.

  \<^bold>\<open>Encodings and recovery of guest addresses.\<close>
  \<^item> \<open>Vl_Codec\<close> models \<open>FEXCore/Source/Utils/variable_length_integer.h\<close>.  The locale \<open>vl_codec\<close> is the contract of a self-delimiting code; both
    codecs interpret it, which gives the round trips of whole streams.
  \<^item> \<open>Jit_Blocks\<close> models \<open>CodeBuffer\<close> of \<open>Core/CPUBackend.cpp\<close> (\<open>AppendBlock\<close>, \<open>FindBlockHeader\<close>, \<open>RebuildBlockIndexByWalk\<close>) and the end of
    \<open>CompileCode\<close> in \<open>PPC64LE/JIT.cpp\<close>: the binary search is a linear scan, and the walk is safe on any bytes.
  \<^item> \<open>Rip_Recovery\<close> models \<open>WalkBlockRIPTable\<close> and \<open>RestoreRIPFromHostPC\<close> of \<open>Core/Core.cpp\<close> and composes the three: after any history of compiled
    blocks and rebuilt indexes the recovered RIP is that of the instruction around the host address.
  \<^item> \<open>Eflags\<close> models the packing and unpacking of EFLAGS in \<open>Core/Core.cpp\<close>.

  \<^bold>\<open>Code generation.\<close>  Emitted code is a list of \<open>insn\<close>, an instruction word or \<open>None\<close> where the emitter has no encoding.
  \<^item> \<open>Ppc_Forms\<close>: the emitter functions of \<open>CodeEmitter/PPC64LE/Emitter.h\<close> as words.  \<open>Ppc_Isa\<close>: a decoder and step function for these words on the
    registers, condition register, XER and memory, written from the Power ISA.  The locales \<open>ppc_isa\<close> and \<open>ppc_mem\<close> state what each
    instruction does; \<open>Ppc_Words\<close> and \<open>Ppc_Mem\<close> interpret them on the decoder, so the theorems about handlers are about the emitted words.
  \<^item> \<open>Ppc_LoadImm\<close>, \<open>Ppc_Immediates\<close>: \<open>LoadImm64\<close>, and the classifiers of \<open>IR/PPC64Immediates.h\<close> with the masks \<open>PPC64LE/ALUOps.cpp\<close> emits.
  \<^item> \<open>Alu_Base\<close>, \<open>Alu_Arith\<close>, \<open>Alu_Logic\<close>, \<open>Alu_Shift\<close>, \<open>Alu_Bits\<close>, \<open>Alu_Fields\<close>, \<open>Flag_Words\<close>, \<open>Alu_Flags\<close>, \<open>Alu_Wide\<close>, \<open>Alu_Cond\<close>: the handlers of
    \<open>PPC64LE/ALUOps.cpp\<close>, one definition \<open>Op_X\<close> per \<open>DEF_OP(X)\<close>, each with the value or flags it leaves and a frame condition, for every
    assignment of guest registers to the operands.
  \<^item> \<open>Mem_Ops\<close>, \<open>Stack_Ops\<close>: the handlers of \<open>PPC64LE/MemoryOps.cpp\<close> for loads, stores, spills and the stack, and the fusion of pushes and pops in
    \<open>IR/Passes/RegisterAllocationPass.cpp\<close>, with the exact condition under which a fused pair keeps its effect.
  \<^item> \<open>Ir_Block\<close>, \<open>Ir_Refine\<close>: IR operations as a datatype, their meaning \<open>ir_eval\<close> on an abstract guest state, and the emission loop with its caches
    of the last constant and of the projected flags.  The emitted code of a block refines the operations; the caches are true after every prefix.
  \<^item> \<open>Zext_Elision\<close>: the producer side of \<open>ComputeHighZeroElision\<close> in \<open>PPC64LE/JIT.cpp\<close>; the masks it removes cannot be observed.

  \<^bold>\<open>Seccomp.\<close>
  \<^item> \<open>Bpf_Interpreter\<close> models \<open>Seccomp/BPFInterpreter.cpp\<close>: validated programs return within as many rounds as they have instructions, and never
    take an access out of bounds.
  \<^item> \<open>Seccomp\<close> models \<open>Seccomp/SeccompEmulator.cpp\<close> with the per-thread state of \<open>ThreadManager.h\<close>; \<open>Seccomp_Serial\<close> the transfer across \<open>execve\<close>.
  \<^item> \<open>Seccomp_Verdict\<close>: the verdict of a chain and the fields it depends on.  \<open>Seccomp_History\<close>: the step relation of a process and the
    invariant of filters, counts and caches.  \<open>Seccomp_Props\<close>: the cache cannot be observed, an installation is all or nothing, filters survive
    \<open>execve\<close> and are released.

  \<^bold>\<open>Bounds and fuel.\<close>  Machine integers have their width; offsets into buffers are natural numbers with the limits of the code as tests.  The
  walk over a code buffer recurses on the remaining bytes, since every block has a positive size.  \<open>Execute_loop\<close> is a partial function because
  an arbitrary program may loop; \<open>Execute_within\<close> is its bounded version, and the length of a validated program is enough.  Reference counts and
  the generation of seccomp are natural numbers: they would wrap after \<open>2\<^sup>6\<^sup>4\<close> threads or installations.

  \<^bold>\<open>Assumptions of the models.\<close>  The host is an ISA 2.07 machine (\<open>SupportsISA30\<close> false) and spin collapsing is off, as by default; \<open>r0\<close> holds
  zero, the invariant the JIT documents; operands are registers of the allocation pools; switches read from the environment are arguments.
  Memory is sequential, and operations of seccomp are atomic.

  \<^bold>\<open>Not modelled.\<close>
  \<^item> The decoder, the dispatcher and the other IR passes: their correctness is relative to a semantics of x86, which the repository does not have.
  \<^item> Vector, x87, cryptographic and atomic operations, divisions, byte and bit reversal, \<open>PDep\<close>, \<open>PExt\<close>: they need vector registers, concurrent memory,
    branches or host calls, which the machine of the model does not have.
  \<^item> Branches, block linking, the dispatcher loop, the code cache and the tracking of modified code: they patch running code and depend on page
    protection and signals.
  \<^item> System calls other than the seccomp gate, signals, threads, files, configuration, thunks and the tools: calls into the host.
  \<^item> The consumer side of the zero-extension elision and the barrier elision beyond what \<open>Zext_Elision\<close> takes as an arbitrary choice.
\<close>

end
